(* ===== verification/Prelude.thy ===== *)
theory Prelude
  imports Main "HOL-Library.Word" "HOL-Library.List_Lexorder" "HOL-Library.Monad_Syntax"
    "HOL-Library.AList"
begin

unbundle bit_operations_syntax

text \<open>
  Shared vocabulary of the development.  A C++ \<open>char\<close>, \<open>unsigned char\<close> or \<open>uint8_t\<close> is a
  \<open>byte\<close> (an 8-bit word); a \<open>std::string\<close>, a \<open>string_view\<close> and an \<open>fstring<n>\<close> are lists of
  bytes (an \<open>fstring<n>\<close> is a list of length \<open>n\<close>, which the well-formedness predicates of the
  components state).  \<open>str\<close> turns an Isabelle literal into the bytes of the C++ literal.

  Here are also the classification functions of \<open><cctype>\<close> in the C locale, the little-endian
  memory image of an integer (what \<open>memcpy\<close> of a native integer gives on the supported
  hosts), the big-endian one (after \<open>htonl\<close>), and generic lemmas on lists used by the wire
  formats.  The collection \<open>layout\<close> holds the facts that split a packet into its fields.
\<close>

named_theorems layout
named_theorems ctype

type_synonym byte = "8 word"
type_synonym bytes = "byte list"
type_synonym u16 = "16 word"
type_synonym u32 = "32 word"
type_synonym u64 = "64 word"

definition str :: "string \<Rightarrow> bytes" where
  "str s = map of_char s"

lemma str_Nil [simp]: "str [] = []"
  by (simp add: str_def)

lemma str_Cons [simp]: "str (c # cs) = of_char c # str cs"
  by (simp add: str_def)

lemma length_str [simp]: "length (str s) = length s"
  by (simp add: str_def)

section \<open>Character classes\<close>

definition isdigit :: "byte \<Rightarrow> bool" where
  "isdigit c \<longleftrightarrow> 48 \<le> c \<and> c \<le> 57"

definition islower :: "byte \<Rightarrow> bool" where
  "islower c \<longleftrightarrow> 97 \<le> c \<and> c \<le> 122"

definition isupper :: "byte \<Rightarrow> bool" where
  "isupper c \<longleftrightarrow> 65 \<le> c \<and> c \<le> 90"

definition isxdigit :: "byte \<Rightarrow> bool" where
  "isxdigit c \<longleftrightarrow> isdigit c \<or> (97 \<le> c \<and> c \<le> 102) \<or> (65 \<le> c \<and> c \<le> 70)"

definition isspace :: "byte \<Rightarrow> bool" where
  "isspace c \<longleftrightarrow> c = 32 \<or> (9 \<le> c \<and> c \<le> 13)"

definition toupper :: "byte \<Rightarrow> byte" where
  "toupper c = (if islower c then c - 32 else c)"

definition tolower :: "byte \<Rightarrow> byte" where
  "tolower c = (if isupper c then c + 32 else c)"

lemmas [ctype] = isdigit_def islower_def isupper_def isxdigit_def isspace_def
  toupper_def tolower_def

section \<open>Memory images of integers\<close>

primrec le_bytes :: "nat \<Rightarrow> 'a::len word \<Rightarrow> bytes" where
  "le_bytes 0 w = []"
| "le_bytes (Suc n) w = ucast w # le_bytes n (drop_bit 8 w)"

primrec le_word :: "bytes \<Rightarrow> 'a::len word" where
  "le_word [] = 0"
| "le_word (b # bs) = ucast b OR push_bit 8 (le_word bs)"

definition be_bytes32 :: "u32 \<Rightarrow> bytes" where
  "be_bytes32 w = rev (le_bytes 4 w)"

lemma length_le_bytes [simp]: "length (le_bytes n w) = n"
  by (induction n arbitrary: w) simp_all

lemma length_be_bytes32 [simp]: "length (be_bytes32 w) = 4"
  by (simp add: be_bytes32_def)

lemma bit_below:
  assumes "unat (w :: 'a::len word) < 2 ^ k" and "bit w n"
  shows "n < k"
proof -
  have "take_bit k (unat w) = unat w" using assms(1) by (simp add: take_bit_nat_eq_self)
  moreover have "bit (unat w) n" using assms(2) by (simp add: bit_unsigned_iff)
  ultimately show ?thesis by (metis bit_take_bit_iff)
qed

lemma byte_bit_high [simp]: "8 \<le> n \<Longrightarrow> \<not> bit (w :: byte) n"
  using bit_imp_le_length [of w n] by auto

lemma byte_bit_numeral_high [simp]: "8 \<le> (numeral k :: nat) \<Longrightarrow> \<not> bit (w :: byte) (numeral k)"
  by (rule byte_bit_high)

lemma byte_eqI:
  assumes "bit a 0 = bit b 0" "bit a 1 = bit b 1" "bit a 2 = bit b 2" "bit a 3 = bit b 3"
    "bit a 4 = bit b 4" "bit a 5 = bit b 5" "bit a 6 = bit b 6" "bit a 7 = bit (b :: byte) 7"
  shows "a = b"
proof (rule bit_word_eqI)
  fix n assume "n < LENGTH(8)"
  then have "n \<in> {0, 1, 2, 3, 4, 5, 6, 7}" by auto
  then show "bit a n = bit b n" using assms by auto
qed

lemma le_word_le_bytes: "le_word (le_bytes n w) = take_bit (8 * n) w"
proof (induction n arbitrary: w)
  case 0
  then show ?case by simp
next
  case (Suc n)
  then show ?case
    by (auto intro!: bit_word_eqI simp: bit_simps)
qed

lemma le_bytes_take_bit: "8 * k \<le> m \<Longrightarrow> le_bytes k (take_bit m w) = le_bytes k w"
proof (induction k arbitrary: m w)
  case 0
  then show ?case by simp
next
  case (Suc k)
  have "ucast (take_bit m w) = (ucast w :: byte)"
    using Suc.prems by (intro bit_word_eqI) (auto simp: bit_simps)
  moreover have "drop_bit 8 (take_bit m w) = take_bit (m - 8) (drop_bit 8 w)"
    by (simp add: drop_bit_take_bit)
  ultimately show ?case using Suc by simp
qed

lemma le_bytes_le_word:
  "8 * length bs \<le> LENGTH('a::len) \<Longrightarrow> le_bytes (length bs) (le_word bs :: 'a word) = bs"
proof (induction bs)
  case Nil
  then show ?case by simp
next
  case (Cons b bs)
  have hd: "ucast (le_word (b # bs) :: 'a word) = b"
    using Cons.prems by (intro bit_word_eqI) (auto simp: bit_simps)
  have "drop_bit 8 (le_word (b # bs) :: 'a word) = take_bit (LENGTH('a) - 8) (le_word bs)"
    using Cons.prems by (intro bit_word_eqI) (auto simp: bit_simps dest: bit_imp_le_length)
  then show ?case using hd Cons by (simp add: le_bytes_take_bit)
qed

lemma le_word_inject: "le_word bs = (le_word cs :: 'a::len word) \<Longrightarrow> length bs = length cs \<Longrightarrow> 8 * length bs \<le> LENGTH('a) \<Longrightarrow> bs = cs"
  by (metis le_bytes_le_word)

section \<open>Chunks\<close>

text \<open>
  \<open>chunk i n xs\<close> is the \<open>n\<close> bytes from offset \<open>i\<close>: \<open>std::string::substr(i, n)\<close> where the
  range lies inside the string.
\<close>

definition chunk :: "nat \<Rightarrow> nat \<Rightarrow> 'a list \<Rightarrow> 'a list" where
  "chunk i n xs = take n (drop i xs)"

lemma length_chunk [simp]: "length (chunk i n xs) = min n (length xs - i)"
  by (simp add: chunk_def)

lemma chunk_0: "chunk 0 n xs = take n xs"
  by (simp add: chunk_def)

lemma chunk_append_skip [layout]:
  "length xs \<le> i \<Longrightarrow> chunk i n (xs @ ys) = chunk (i - length xs) n ys"
  by (simp add: chunk_def)

lemma chunk_append_hit [layout]:
  "length xs = n \<Longrightarrow> chunk 0 n (xs @ ys) = xs"
  by (simp add: chunk_def)

lemma chunk_full [layout]: "length xs \<le> n \<Longrightarrow> chunk 0 n xs = xs"
  by (simp add: chunk_def)

lemma chunk_Cons_skip [layout]: "0 < i \<Longrightarrow> chunk i n (x # xs) = chunk (i - 1) n xs"
  by (cases i) (simp_all add: chunk_def)

lemma drop_Cons_skip [layout]: "0 < i \<Longrightarrow> drop i (x # xs) = drop (i - 1) xs"
  by (cases i) simp_all

lemma drop_append_skip [layout]:
  "length xs \<le> i \<Longrightarrow> drop i (xs @ ys) = drop (i - length xs) ys"
  by simp

section \<open>Decimal numbers\<close>

text \<open>
  \<open>to_string\<close> is \<open>std::to_string\<close> of a non-negative integer.  \<open>atoi\<close> skips white space, takes an
  optional sign and the longest run of digits; as in glibc the number is first clamped to the
  range of \<open>long\<close> and then narrowed to a 32-bit \<open>int\<close>.
\<close>

fun to_string :: "nat \<Rightarrow> bytes" where
  "to_string n = (if n < 10 then [48 + word_of_nat n] else to_string (n div 10) @ [48 + word_of_nat (n mod 10)])"

declare to_string.simps [simp del]

definition dec_value :: "bytes \<Rightarrow> nat" where
  "dec_value s = foldl (\<lambda>v c. v * 10 + (unat c - 48)) 0 s"

definition atoi :: "bytes \<Rightarrow> int" where
  "atoi s =
     (let s = dropWhile isspace s;
          neg = (s \<noteq> [] \<and> hd s = 45);
          s = (if s \<noteq> [] \<and> (hd s = 45 \<or> hd s = 43) then tl s else s);
          v = int (dec_value (takeWhile isdigit s));
          l = (if neg then max (- (2 ^ 63)) (- v) else min (2 ^ 63 - 1) v)
      in signed_take_bit 31 l)"

lemma to_string_not_Nil [simp]: "to_string n \<noteq> []"
  by (simp add: to_string.simps [of n])

lemma unat_digit: "k < 10 \<Longrightarrow> unat (48 + word_of_nat k :: byte) = 48 + k"
  by (simp add: unat_word_ariths unat_of_nat)

lemma to_string_digits: "list_all isdigit (to_string n)"
proof (induction n rule: to_string.induct)
  case (1 n)
  have "isdigit (48 + word_of_nat k)" if "k < 10" for k
    using unat_digit [OF that] that by (simp add: isdigit_def word_le_nat_alt)
  then show ?case using 1 by (simp add: to_string.simps [of n])
qed

lemma dec_value_snoc: "dec_value (s @ [c]) = dec_value s * 10 + (unat c - 48)"
  by (simp add: dec_value_def)

lemma dec_value_to_string [simp]: "dec_value (to_string n) = n"
proof (induction n rule: to_string.induct)
  case (1 n)
  then show ?case
    by (simp add: to_string.simps [of n] dec_value_snoc unat_digit) (simp add: dec_value_def unat_digit)
qed

lemma hd_to_string: "hd (to_string n) = 48 \<longleftrightarrow> n = 0"
proof (induction n rule: to_string.induct)
  case (1 n)
  have "48 + word_of_nat n = (48 :: byte) \<longleftrightarrow> n = 0" if "n < 10"
    using unat_digit [OF that] by auto
  then show ?case using 1 by (auto simp add: to_string.simps [of n])
qed

lemma to_string_set: "c \<in> set (to_string n) \<Longrightarrow> isdigit c"
  using to_string_digits [of n] by (simp add: list_all_iff)

lemma not_digit: "c < 48 \<or> 57 < c \<Longrightarrow> c \<notin> set (to_string n)"
  using to_string_set [of c n] by (auto simp: isdigit_def not_less [symmetric])

lemma atoi_to_string:
  assumes "n < 2 ^ 31"
  shows "atoi (to_string n) = int n"
proof -
  obtain c ds where ds: "to_string n = c # ds" by (cases "to_string n") auto
  then have c: "isdigit c" using to_string_set [of c n] by simp
  then have "\<not> isspace c" "c \<noteq> 45" "c \<noteq> 43" by (auto simp: ctype word_le_nat_alt)
  moreover have "takeWhile isdigit (c # ds) = c # ds"
    using to_string_set [of _ n] ds by (simp add: takeWhile_eq_all_conv)
  moreover have "dec_value (c # ds) = n" using dec_value_to_string [of n] ds by simp
  moreover have "signed_take_bit 31 (int n) = int n"
    using assms by (simp add: signed_take_bit_int_eq_self)
  ultimately show ?thesis using assms by (simp add: atoi_def Let_def ds split: if_splits)
qed

section \<open>Evaluation\<close>

text \<open>
  Kernel evaluation writes natural numbers in unary.  Comparisons of a length with a literal are
  done on integers, which are binary.
\<close>

lemma nat_numeral_code [code_unfold]:
  "n < (numeral k :: nat) \<longleftrightarrow> int n < numeral k"
  "n \<le> (numeral k :: nat) \<longleftrightarrow> int n \<le> numeral k"
  "(numeral k :: nat) < n \<longleftrightarrow> numeral k < int n"
  "(numeral k :: nat) \<le> n \<longleftrightarrow> numeral k \<le> int n"
  by auto

section \<open>Ordered maps\<close>

text \<open>\<open>std::map\<close> as the list of its entries in the order of the keys: \<open>insert\<close> and \<open>emplace\<close> keep an
  entry that is there, \<open>insert_or_assign\<close> and assignment through \<open>operator[]\<close> replace its value.\<close>

definition map_insert :: "'k::linorder \<Rightarrow> 'v \<Rightarrow> ('k \<times> 'v) list \<Rightarrow> ('k \<times> 'v) list" where
  "map_insert k v m = (if map_of m k \<noteq> None then m else insort_key fst (k, v) m)"

definition map_assign :: "'k::linorder \<Rightarrow> 'v \<Rightarrow> ('k \<times> 'v) list \<Rightarrow> ('k \<times> 'v) list" where
  "map_assign k v m = (if map_of m k \<noteq> None then AList.update k v m else insort_key fst (k, v) m)"

lemma map_of_insort_key: "k \<notin> fst ` set m \<Longrightarrow> map_of (insort_key fst (k, v) m) = (map_of m)(k \<mapsto> v)"
  by (induction m) (auto simp: fun_upd_twist)

lemma map_of_map_assign: "map_of (map_assign k v m) = (map_of m)(k \<mapsto> v)"
  by (auto simp: map_assign_def update_conv' map_of_insort_key map_of_eq_None_iff)

text \<open>An entry behind all others.\<close>

lemma map_assign_last:
  "sorted_wrt (<) (map fst (m @ [(k, v)])) \<Longrightarrow> map_assign k v m = m @ [(k, v)]"
proof (induction m)
  case (Cons x m)
  then have "map_of (x # m) k = None" by (auto simp: map_of_eq_None_iff sorted_wrt_append)
  moreover have "insort_key fst (k, v) (x # m) = x # insort_key fst (k, v) m" using Cons.prems by (auto simp: sorted_wrt_append)
  moreover have "insort_key fst (k, v) m = m @ [(k, v)]"
    using Cons by (auto simp: map_assign_def map_of_eq_None_iff sorted_wrt_append split: if_splits)
  ultimately show ?case by (simp add: map_assign_def)
qed (simp add: map_assign_def)

end
