(* ===== verification/Util.thy ===== *)
theory Util
  imports Prelude
begin

text \<open>
  The string helpers of \<open>util.h\<close> and \<open>util.cpp\<close>, and the two byte containers
  \<open>fstring<n>\<close> (\<open>fstring.h\<close>) and \<open>string_view\<close> (\<open>string_view.h\<close>).  A failed \<open>assert\<close>, a
  call of \<open>abort()\<close> and an out-of-range access are the value \<open>None\<close>.  The results: the
  packing functions are inverse to each other, \<open>decodeHex\<close> inverts \<open>encodeHex\<close> and accepts
  nothing else, \<open>base64Decode\<close> inverts the RFC 4648 encoding, and \<open>split\<close>,
  \<open>splitWhitespace\<close> and \<open>trim\<close> meet their reference definitions.
\<close>

section \<open>fstring and string_view\<close>

definition fstring :: "nat \<Rightarrow> bytes \<Rightarrow> bytes option" where
  "fstring sz s = (if sz \<le> length s then Some (take sz s) else None)"

definition fstring_default :: "nat \<Rightarrow> bytes" where
  "fstring_default sz = replicate sz 0"

definition fstring_bool :: "bytes \<Rightarrow> bool" where
  "fstring_bool s \<longleftrightarrow> s = fstring_default (length s)"

definition substr :: "nat \<Rightarrow> nat \<Rightarrow> bytes \<Rightarrow> bytes option" where
  "substr start sz s =
     (if start + sz \<le> length s then fstring sz (chunk start sz s) else None)"

definition sv_substr2 :: "bytes \<Rightarrow> int \<Rightarrow> int \<Rightarrow> bytes option" where
  "sv_substr2 v start sz =
     (if sz \<ge> 0 \<and> start \<ge> 0 \<and> start \<le> int (length v) \<and> start + sz \<le> int (length v)
      then Some (chunk (nat start) (nat sz) v) else None)"

definition sv_substr :: "bytes \<Rightarrow> int \<Rightarrow> bytes option" where
  "sv_substr v start =
     (if start \<ge> 0 \<and> start \<le> int (length v) then Some (drop (nat start) v) else None)"

definition sv_index :: "bytes \<Rightarrow> int \<Rightarrow> byte option" where
  "sv_index v index =
     (if index \<ge> 0 \<and> index < int (length v) then Some (v ! nat index) else None)"

definition sv_equal :: "bytes \<Rightarrow> bytes \<Rightarrow> bool" where
  "sv_equal a b =
     (if length a \<noteq> length b then False else list_all2 (=) a (take (length a) b))"

definition sv_append :: "bytes \<Rightarrow> bytes \<Rightarrow> bytes" where
  "sv_append s v = take (length s) (s @ replicate (length v) 0) @ v"

lemma substr_Some [simp]:
  "start + sz \<le> length s \<Longrightarrow> substr start sz s = Some (chunk start sz s)"
  by (simp add: substr_def fstring_def)

lemma substr_eq_Some:
  "substr start sz s = Some r \<longleftrightarrow> start + sz \<le> length s \<and> r = chunk start sz s"
  by (auto simp: substr_def fstring_def)

lemma sv_equal_iff: "sv_equal a b \<longleftrightarrow> a = b"
  by (auto simp: sv_equal_def list_all2_eq [symmetric])

lemma sv_append_eq: "sv_append s v = s @ v"
  by (simp add: sv_append_def)

section \<open>Packing\<close>

definition pack :: "'a::len word \<Rightarrow> bytes" where
  "pack t = le_bytes (LENGTH('a) div 8) t"

definition unpack :: "bytes \<Rightarrow> 'a::len word option" where
  "unpack s = (if length s = LENGTH('a) div 8 then Some (le_word s) else None)"

lemma length_pack [simp]: "length (pack (t :: 'a::len word)) = LENGTH('a) div 8"
  by (simp add: pack_def)

lemma unpack_pack [simp]:
  assumes "8 dvd LENGTH('a::len)"
  shows "unpack (pack (t :: 'a word)) = Some t"
  using assms by (simp add: unpack_def pack_def le_word_le_bytes dvd_mult_div_cancel
      take_bit_word_eq_self)

lemma pack_unpack:
  assumes "8 dvd LENGTH('a::len)" and "unpack s = Some (t :: 'a word)"
  shows "pack t = s"
proof -
  have "length s = LENGTH('a) div 8" and t: "t = le_word s"
    using assms(2) by (auto simp: unpack_def split: if_splits)
  moreover from this(1) have "8 * length s \<le> LENGTH('a)" using assms(1) by simp
  ultimately show ?thesis
    using le_bytes_le_word [of s, where 'a = 'a] by (simp add: pack_def)
qed

lemma unpack_Some: "length s = LENGTH('a::len) div 8 \<Longrightarrow> \<exists>t :: 'a word. unpack s = Some t"
  by (simp add: unpack_def)

section \<open>Hexadecimal\<close>

definition hexLetters :: bytes where
  "hexLetters = str ''0123456789abcdef''"

definition hex_find :: "byte \<Rightarrow> nat" where
  "hex_find c = length (takeWhile (\<lambda>x. x \<noteq> c) hexLetters)"

primrec encodeHex_loop :: "bytes \<Rightarrow> bytes \<Rightarrow> bytes" where
  "encodeHex_loop ret [] = ret"
| "encodeHex_loop ret (ch # s) =
     encodeHex_loop
       (ret @ [hexLetters ! unat (drop_bit 4 ch AND 0xF), hexLetters ! unat (ch AND 0xF)]) s"

definition encodeHex :: "bytes \<Rightarrow> bytes" where
  "encodeHex s = encodeHex_loop [] s"

fun decodeHex_loop :: "bytes \<Rightarrow> bytes \<Rightarrow> bytes" where
  "decodeHex_loop ret (x # y # s) =
     (let a = hex_find x; b = hex_find y in
      if a = 16 \<or> b = 16 then []
      else decodeHex_loop (ret @ [push_bit 4 (word_of_nat a) OR word_of_nat b]) s)"
| "decodeHex_loop ret s = ret"

definition decodeHex :: "bytes \<Rightarrow> bytes" where
  "decodeHex s = (if length s mod 2 \<noteq> 0 then [] else decodeHex_loop [] s)"

abbreviation hex_hi :: "byte \<Rightarrow> byte" where
  "hex_hi ch \<equiv> hexLetters ! unat (drop_bit 4 ch AND 0xF)"

abbreviation hex_lo :: "byte \<Rightarrow> byte" where
  "hex_lo ch \<equiv> hexLetters ! unat (ch AND 0xF)"

lemma encodeHex_loop: "encodeHex_loop ret s = ret @ concat (map (\<lambda>ch. [hex_hi ch, hex_lo ch]) s)"
  by (induction s arbitrary: ret) simp_all

lemma encodeHex_Nil [simp]: "encodeHex [] = []"
  by (simp add: encodeHex_def)

lemma encodeHex_Cons [simp]: "encodeHex (ch # s) = hex_hi ch # hex_lo ch # encodeHex s"
  by (simp add: encodeHex_def encodeHex_loop)

lemma length_encodeHex [simp]: "length (encodeHex s) = 2 * length s"
  by (induction s) simp_all

lemma nibble_bound: "unat ((w :: byte) AND 0xF) < 16"
proof -
  have "unat (w AND 15) \<le> unat (15 :: byte)"
    by (rule word_and_le1 [THEN word_le_nat_alt [THEN iffD1]])
  then show ?thesis by simp
qed

lemma length_takeWhile_neq:
  "distinct xs \<Longrightarrow> n < length xs \<Longrightarrow> length (takeWhile (\<lambda>x. x \<noteq> xs ! n) xs) = n"
proof (induction xs arbitrary: n)
  case (Cons x xs)
  then show ?case by (cases n) (auto simp: nth_mem)
qed simp

lemma hexLetters_distinct: "distinct hexLetters" and length_hexLetters [simp]: "length hexLetters = 16"
  by code_simp+

lemma hex_find_nth: "n < 16 \<Longrightarrow> hex_find (hexLetters ! n) = n"
  by (simp add: hex_find_def length_takeWhile_neq hexLetters_distinct)

lemma hex_find_le: "hex_find c \<le> 16"
proof -
  have "length (takeWhile (\<lambda>x. x \<noteq> c) hexLetters) \<le> length hexLetters"
    by (rule length_takeWhile_le)
  then show ?thesis by (simp add: hex_find_def hexLetters_def)
qed

lemma nth_hex_find: "hex_find c \<noteq> 16 \<Longrightarrow> hexLetters ! hex_find c = c"
proof -
  assume "hex_find c \<noteq> 16"
  then have "hex_find c < length hexLetters"
    using hex_find_le [of c] by (simp add: hexLetters_def)
  then show ?thesis
    unfolding hex_find_def using nth_length_takeWhile [of "\<lambda>x. x \<noteq> c" hexLetters] by simp
qed

lemma nibbles_join: "push_bit 4 (drop_bit 4 ch) AND 0xF0 OR ch AND 0xF = (ch :: byte)"
proof (rule bit_word_eqI)
  fix n assume "n < LENGTH(8)"
  then have "n \<in> {0, 1, 2, 3, 4, 5, 6, 7}" by auto
  then show "bit (push_bit 4 (drop_bit 4 ch) AND 0xF0 OR ch AND 0xF) n = bit ch n"
    by (auto simp: bit_simps)
qed

lemma decodeHex_loop_encodeHex: "decodeHex_loop ret (encodeHex s) = ret @ s"
  by (induction s arbitrary: ret)
    (simp_all add: hex_find_nth nibble_bound nibble_bound [THEN less_imp_neq] nibbles_join Let_def)

lemma decodeHex_encodeHex [simp]: "decodeHex (encodeHex s) = s"
  by (simp add: decodeHex_def decodeHex_loop_encodeHex)

lemma encodeHex_no_control: "c \<in> set (encodeHex a) \<Longrightarrow> c \<in> set hexLetters"
proof -
  have "unat (w AND 0xF) < 16" for w :: byte
  proof -
    have m: "(0xF :: byte) = mask 4" by (simp add: mask_eq_exp_minus_1)
    show ?thesis unfolding m take_bit_eq_mask [symmetric] by (simp add: take_bit_eq_mod unat_mod_distrib)
  qed
  moreover have "length hexLetters = 16" by (simp add: hexLetters_def)
  ultimately have "hexLetters ! unat (w AND 0xF) \<in> set hexLetters" for w :: byte by simp
  then show "c \<in> set (encodeHex a) \<Longrightarrow> c \<in> set hexLetters" by (auto simp: encodeHex_def encodeHex_loop)
qed

lemma nibble_split:
  assumes "a < 16" and "b < (16 :: nat)"
  shows nibble_split_hi:
      "drop_bit 4 (push_bit 4 (word_of_nat a) OR word_of_nat b) AND 0xF = (word_of_nat a :: byte)"
    and nibble_split_lo:
      "(push_bit 4 (word_of_nat a) OR word_of_nat b) AND 0xF = (word_of_nat b :: byte)"
proof -
  have small: "n < 4" if "c < 16" and "bit (c :: nat) n" for c n
  proof -
    have "take_bit 4 c = c" using that(1) by (simp add: take_bit_nat_eq_self)
    then show ?thesis using that(2) by (metis bit_take_bit_iff)
  qed
  have mask: "(0xF :: byte) = mask 4" by (simp add: mask_eq_exp_minus_1)
  show "drop_bit 4 (push_bit 4 (word_of_nat a) OR word_of_nat b) AND 0xF = (word_of_nat a :: byte)"
    unfolding mask using small [OF assms(1)] small [OF assms(2)]
    by (intro bit_word_eqI) (fastforce simp: bit_simps)
  show "(push_bit 4 (word_of_nat a) OR word_of_nat b) AND 0xF = (word_of_nat b :: byte)"
    unfolding mask using small [OF assms(1)] small [OF assms(2)]
    by (intro bit_word_eqI) (fastforce simp: bit_simps)
qed

lemma decodeHex_loop_sound:
  "even (length s) \<Longrightarrow> decodeHex_loop ret s \<noteq> [] \<Longrightarrow>
     \<exists>r. decodeHex_loop ret s = ret @ r \<and> encodeHex r = s"
proof (induction ret s rule: decodeHex_loop.induct)
  case (1 ret x y s)
  let ?a = "hex_find x" and ?b = "hex_find y"
  let ?ch = "push_bit 4 (word_of_nat ?a) OR word_of_nat ?b :: byte"
  have ab: "?a \<noteq> 16" "?b \<noteq> 16" using "1.prems" by (auto simp: Let_def split: if_splits)
  then have lt: "?a < 16" "?b < 16" using hex_find_le [of x] hex_find_le [of y] by auto
  obtain r where r: "decodeHex_loop (ret @ [?ch]) s = (ret @ [?ch]) @ r" "encodeHex r = s"
    using "1.IH" [OF refl refl] "1.prems" ab by (auto simp: Let_def)
  have "unat (drop_bit 4 ?ch AND 0xF) = ?a" "unat (?ch AND 0xF) = ?b"
    unfolding nibble_split_hi [OF lt] nibble_split_lo [OF lt]
    using lt by (simp_all add: unat_of_nat)
  then have "encodeHex (?ch # r) = x # y # s"
    using r(2) ab by (simp add: nth_hex_find)
  then show ?case using r(1) ab by (auto simp: Let_def)
qed auto

section \<open>Base64\<close>

definition base64_characters :: bytes where
  "base64_characters =
     str ''ABCDEFGHIJKLMNOPQRSTUVWXYZabcdefghijklmnopqrstuvwxyz0123456789+/''"

definition base64_charmap :: "int list" where
  "base64_charmap =
     foldl (\<lambda>charmap i. charmap[unat (base64_characters ! i) := int i])
       (replicate 256 (-1)) [0 ..< length base64_characters]"

primrec base64_loop :: "u32 \<Rightarrow> int \<Rightarrow> bytes \<Rightarrow> bytes \<Rightarrow> bytes" where
  "base64_loop val pos result [] = result"
| "base64_loop val pos result (c # s) =
     (if base64_charmap ! unat c = -1 then base64_loop val pos result s
      else
        let val = push_bit 6 val + word_of_int (base64_charmap ! unat c); pos = pos + 6 in
        if pos \<ge> 0
        then base64_loop val (pos - 8) (result @ [ucast (drop_bit (nat pos) val AND 0xFF)]) s
        else base64_loop val pos result s)"

definition base64Decode :: "bytes \<Rightarrow> bytes" where
  "base64Decode s = base64_loop 0 (-8) [] s"

section \<open>Prefixes, splitting, trimming\<close>

definition startsWith :: "bytes \<Rightarrow> bytes \<Rightarrow> bool" where
  "startsWith s pre \<longleftrightarrow> length s \<ge> length pre \<and> chunk 0 (length pre) s = pre"

definition endsWith :: "bytes \<Rightarrow> bytes \<Rightarrow> bool" where
  "endsWith s suf \<longleftrightarrow> length s \<ge> length suf \<and> drop (length s - length suf) s = suf"

definition removePrefix :: "bytes \<Rightarrow> bytes \<Rightarrow> bytes" where
  "removePrefix s prefix = (if \<not> startsWith s prefix then s else drop (length prefix) s)"

definition push_back_char :: "bytes list \<Rightarrow> byte \<Rightarrow> bytes list" where
  "push_back_char res ch = butlast res @ [last res @ [ch]]"

primrec splitWhitespace_loop :: "bytes list \<Rightarrow> bytes \<Rightarrow> bytes list" where
  "splitWhitespace_loop res [] = res"
| "splitWhitespace_loop res (ch # s) =
     (if isspace ch
      then splitWhitespace_loop (if length (last res) > 0 then res @ [[]] else res) s
      else splitWhitespace_loop (push_back_char res ch) s)"

definition splitWhitespace :: "bytes \<Rightarrow> bytes list" where
  "splitWhitespace s =
     (let res = splitWhitespace_loop [[]] s in
      if length (last res) = 0 then butlast res else res)"

text \<open>
  \<open>res.size() <= maxSplit\<close> compares a \<open>size_t\<close> with an \<open>int\<close>: a negative \<open>maxSplit\<close>
  becomes a huge unsigned number and never stops the splitting.
\<close>

definition under_limit :: "int \<Rightarrow> nat \<Rightarrow> bool" where
  "under_limit maxSplit n \<longleftrightarrow> maxSplit < 0 \<or> n \<le> nat maxSplit"

primrec split_loop :: "byte \<Rightarrow> int \<Rightarrow> bytes list \<Rightarrow> bytes \<Rightarrow> bytes list" where
  "split_loop byChar maxSplit res [] = res"
| "split_loop byChar maxSplit res (ch # s) =
     (if ch = byChar \<and> under_limit maxSplit (length res)
      then split_loop byChar maxSplit (res @ [[]]) s
      else split_loop byChar maxSplit (push_back_char res ch) s)"

definition split :: "bytes \<Rightarrow> byte \<Rightarrow> int \<Rightarrow> bytes list" where
  "split s byChar maxSplit = split_loop byChar maxSplit [[]] s"

definition strToUpper :: "bytes \<Rightarrow> bytes" where
  "strToUpper input = map toupper input"

definition strToLower :: "bytes \<Rightarrow> bytes" where
  "strToLower input = map tolower input"

definition ltrim :: "bytes \<Rightarrow> bytes" where
  "ltrim s = dropWhile isspace s"

definition rtrim :: "bytes \<Rightarrow> bytes" where
  "rtrim s = rev (dropWhile isspace (rev s))"

definition trim :: "bytes \<Rightarrow> bytes" where
  "trim s = ltrim (rtrim s)"

primrec camelCase_loop :: "byte \<Rightarrow> bytes \<Rightarrow> bytes" where
  "camelCase_loop prev [] = []"
| "camelCase_loop prev (c # rest) =
     (if isupper c \<and> islower prev then [95] else []) @ [c] @ camelCase_loop c rest"

definition camelCaseToUnderscores :: "bytes \<Rightarrow> bytes option" where
  "camelCaseToUnderscores camel =
     (case camel of [] \<Rightarrow> None | c # rest \<Rightarrow> Some (c # camelCase_loop c rest))"

definition strToBool :: "bytes \<Rightarrow> bool" where
  "strToBool s =
     (let r = trim s in
      r = str ''true'' \<or> r = str ''1'' \<or> r = str ''yes'' \<or> r = str ''on'')"

text \<open>
  With a negative \<open>minLength\<close> the comparison with the unsigned \<open>text.length()\<close> succeeds and
  \<open>padSize\<close> is negative, on which the \<open>std::string\<close> constructor throws: the value \<open>None\<close>.
\<close>

definition padSize :: "int \<Rightarrow> bytes \<Rightarrow> nat option" where
  "padSize minLength text =
     (if minLength < 0 then None
      else Some (if length text < nat minLength then nat minLength - length text else 0))"

definition padRight :: "int \<Rightarrow> bytes \<Rightarrow> byte \<Rightarrow> bytes option" where
  "padRight minLength text paddingChar =
     map_option (\<lambda>n. text @ replicate n paddingChar) (padSize minLength text)"

definition padLeft :: "int \<Rightarrow> bytes \<Rightarrow> byte \<Rightarrow> bytes option" where
  "padLeft minLength text paddingChar =
     map_option (\<lambda>n. replicate n paddingChar @ text) (padSize minLength text)"

definition insertIfNotPresent :: "'a list \<Rightarrow> 'a \<Rightarrow> bool \<times> 'a list" where
  "insertIfNotPresent v t = (if t \<in> set v then (False, v) else (True, v @ [t]))"

primrec mapContains :: "('k \<times> 'v) list \<Rightarrow> 'k \<Rightarrow> bool" where
  "mapContains [] needle = False"
| "mapContains (p # m) needle = (if fst p = needle then True else mapContains m needle)"

definition generateRandomString :: "(nat \<Rightarrow> byte) \<Rightarrow> nat \<Rightarrow> int \<Rightarrow> bytes \<times> nat" where
  "generateRandomString uni k len = (map (\<lambda>i. uni (k + i)) [0 ..< nat len], k + nat len)"

subsection \<open>Splitting and trimming against their reference definitions\<close>

fun joinWith :: "byte \<Rightarrow> bytes list \<Rightarrow> bytes" where
  "joinWith d [] = []"
| "joinWith d [x] = x"
| "joinWith d (x # y # xs) = x @ [d] @ joinWith d (y # xs)"

lemma joinWith_snoc: "res \<noteq> [] \<Longrightarrow> joinWith d (res @ [x]) = joinWith d res @ [d] @ x"
  by (induction d res rule: joinWith.induct) simp_all

lemma joinWith_push_back:
  "res \<noteq> [] \<Longrightarrow> joinWith d (push_back_char res ch) = joinWith d res @ [ch]"
  by (induction d res rule: joinWith.induct) (auto simp: push_back_char_def joinWith_snoc neq_Nil_conv)

lemma push_back_char_not_Nil [simp]: "push_back_char res ch \<noteq> []"
  by (simp add: push_back_char_def)

lemma length_push_back_char [simp]: "res \<noteq> [] \<Longrightarrow> length (push_back_char res ch) = length res"
  by (simp add: push_back_char_def)

lemma joinWith_split_loop:
  "res \<noteq> [] \<Longrightarrow> joinWith d (split_loop d m res s) = joinWith d res @ s"
  by (induction s arbitrary: res) (auto simp: joinWith_snoc joinWith_push_back)

lemma length_split_loop:
  "res \<noteq> [] \<Longrightarrow> length res \<le> m + 1 \<Longrightarrow>
     length (split_loop d (int m) res s) = min (m + 1) (length res + count_list s d)"
  by (induction s arbitrary: res) (auto simp: under_limit_def)

lemma split_join: "joinWith d (split s d m) = s"
  by (simp add: split_def joinWith_split_loop)

lemma length_split: "length (split s d (int m)) = min (m + 1) (count_list s d + 1)"
  by (simp add: split_def length_split_loop)

definition words_ok :: "bytes list \<Rightarrow> bool" where
  "words_ok res \<longleftrightarrow> list_all (\<lambda>w. w \<noteq> [] \<and> list_all (\<lambda>c. \<not> isspace c) w) res"

lemma splitWhitespace_loop_spec:
  assumes "res \<noteq> []" and "words_ok (butlast res)" and "list_all (\<lambda>c. \<not> isspace c) (last res)"
  shows "words_ok (butlast (splitWhitespace_loop res s)) \<and>
    list_all (\<lambda>c. \<not> isspace c) (last (splitWhitespace_loop res s)) \<and>
    splitWhitespace_loop res s \<noteq> [] \<and>
    concat (splitWhitespace_loop res s) = concat res @ filter (\<lambda>c. \<not> isspace c) s"
  using assms
proof (induction s arbitrary: res)
  case Nil
  then show ?case by simp
next
  case (Cons ch s)
  obtain ws w where res: "res = ws @ [w]" using Cons.prems(1) by (metis append_butlast_last_id)
  show ?case
  proof (cases "isspace ch")
    case True
    show ?thesis
    proof (cases "w = []")
      case True
      with \<open>isspace ch\<close> Cons show ?thesis by (simp add: res)
    next
      case False
      with \<open>isspace ch\<close> Cons.prems Cons.IH [of "res @ [[]]"] show ?thesis
        by (simp add: res words_ok_def butlast_append)
    qed
  next
    case False
    with Cons.prems Cons.IH [of "ws @ [w @ [ch]]"] show ?thesis
      by (simp add: res push_back_char_def)
  qed
qed

lemma splitWhitespace_spec:
  "words_ok (splitWhitespace s) \<and> concat (splitWhitespace s) = filter (\<lambda>c. \<not> isspace c) s"
proof -
  define r where "r = splitWhitespace_loop [[]] s"
  have "words_ok (butlast r)" "list_all (\<lambda>c. \<not> isspace c) (last r)" "r \<noteq> []"
    "concat r = filter (\<lambda>c. \<not> isspace c) s"
    using splitWhitespace_loop_spec [of "[[]]" s] by (simp_all add: r_def words_ok_def)
  moreover from this(3) obtain ws w where "r = ws @ [w]" by (metis append_butlast_last_id)
  ultimately show ?thesis
    by (auto simp: splitWhitespace_def words_ok_def Let_def r_def [symmetric])
qed

lemma trim_decomposition:
  "\<exists>pre post. s = pre @ trim s @ post \<and> list_all isspace pre \<and> list_all isspace post \<and>
     (trim s \<noteq> [] \<longrightarrow> \<not> isspace (hd (trim s)) \<and> \<not> isspace (last (trim s)))"
proof -
  let ?r = "rtrim s"
  have post: "s = ?r @ rev (takeWhile isspace (rev s))"
    unfolding rtrim_def by (metis rev_append rev_rev_ident takeWhile_dropWhile_id)
  have pre: "?r = takeWhile isspace ?r @ trim s"
    unfolding trim_def ltrim_def by simp
  have "list_all isspace (takeWhile isspace ?r)" "list_all isspace (rev (takeWhile isspace (rev s)))"
    by (auto simp: list_all_iff dest: set_takeWhileD)
  moreover have "\<not> isspace (hd (trim s))" if "trim s \<noteq> []"
    using that hd_dropWhile unfolding trim_def ltrim_def by blast
  moreover have "\<not> isspace (last (trim s))" if ne: "trim s \<noteq> []"
  proof -
    have "last (trim s) = last ?r" using pre ne by (metis last_appendR)
    moreover have "?r \<noteq> []" using pre ne by auto
    then have "dropWhile isspace (rev s) \<noteq> []" by (simp add: rtrim_def)
    then have "\<not> isspace (last ?r)"
      unfolding rtrim_def by (simp add: last_rev hd_dropWhile)
    ultimately show ?thesis by simp
  qed
  ultimately show ?thesis using post pre by (metis append.assoc)
qed

subsection \<open>Base64 decoding inverts the RFC 4648 encoding\<close>

abbreviation b64c :: "byte \<Rightarrow> byte" where
  "b64c i \<equiv> base64_characters ! unat i"

fun base64Encode :: "bytes \<Rightarrow> bytes" where
  "base64Encode (x # y # z # s) =
     [b64c (drop_bit 2 x), b64c (push_bit 4 x AND 48 OR drop_bit 4 y),
      b64c (push_bit 2 y AND 60 OR drop_bit 6 z), b64c (z AND 63)] @ base64Encode s"
| "base64Encode [x, y] =
     [b64c (drop_bit 2 x), b64c (push_bit 4 x AND 48 OR drop_bit 4 y), b64c (push_bit 2 y AND 60), 61]"
| "base64Encode [x] = [b64c (drop_bit 2 x), b64c (push_bit 4 x AND 48), 61, 61]"
| "base64Encode [] = []"

lemma base64_charmap_characters:
  "i < 64 \<Longrightarrow> base64_charmap ! unat (base64_characters ! i) = int i"
proof -
  have "list_all (\<lambda>i. base64_charmap ! unat (base64_characters ! i) = int i) [0 ..< 64]"
    by code_simp
  then show "i < 64 \<Longrightarrow> ?thesis" by (simp add: list_all_iff)
qed

lemma base64_charmap_pad: "base64_charmap ! 61 = -1"
  by code_simp

lemma byte_below_64: "\<not> bit w 6 \<Longrightarrow> \<not> bit w 7 \<Longrightarrow> unat (w :: byte) < 64"
proof -
  assume "\<not> bit w 6" "\<not> bit w 7"
  then have "take_bit 6 w = w" by (intro byte_eqI) (auto simp: bit_simps)
  then have "unat w < 2 ^ 6" by (metis take_bit_nat_less_exp unsigned_take_bit_eq)
  then show ?thesis by simp
qed

lemma base64_indices:
  fixes x y z :: byte
  shows "unat (drop_bit 2 x) < 64" "unat (push_bit 4 x AND 48 OR drop_bit 4 y) < 64"
    "unat (push_bit 2 y AND 60 OR drop_bit 6 z) < 64" "unat (z AND 63) < 64"
    "unat (push_bit 4 x AND 48) < 64" "unat (push_bit 2 y AND 60) < 64"
  by (rule byte_below_64; simp add: bit_simps)+

lemma base64_loop_char:
  assumes lt: "unat (i :: byte) < 64"
  shows "base64_loop val pos result (b64c i # s) =
    (let val = push_bit 6 val OR ucast i; pos = pos + 6 in
     if pos \<ge> 0
     then base64_loop val (pos - 8) (result @ [ucast (drop_bit (nat pos) val)]) s
     else base64_loop val pos result s)"
proof -
  have small: "n < 6" if "bit i n" for n using bit_below [of i 6 n] lt that by simp
  have idx: "base64_charmap ! unat (b64c i) = int (unat i)"
    using lt by (rule base64_charmap_characters)
  have "push_bit 6 val AND (ucast i :: u32) = 0"
    using small by (intro bit_word_eqI) (fastforce simp: bit_simps)
  then have add: "push_bit 6 val + (ucast i :: u32) = push_bit 6 val OR ucast i"
    by (rule disjunctive_add_eq_or)
  have mask: "ucast (w AND 0xFF) = (ucast w :: byte)" for w :: u32
    by (rule byte_eqI) (simp_all add: bit_simps)
  have i: "word_of_int (int (unat i)) = (ucast i :: u32)" by (simp add: unsigned_ucast_eq)
  have "int (unat i) \<noteq> -1" using of_nat_0_le_iff [of "unat i"] by linarith
  then show ?thesis
    by (simp only: base64_loop.simps idx i add mask Let_def if_False)
qed

lemmas base64_steps = base64_loop_char base64_indices Let_def

lemma base64_loop_pad [simp]: "base64_loop v pos result (61 # s) = base64_loop v pos result s"
  by (simp add: base64_charmap_pad)

lemma base64_loop_encode: "base64_loop v (-8) result (base64Encode s) = result @ s"
  by (induction s arbitrary: v result rule: base64Encode.induct)
    (simp_all only: base64Encode.simps base64_steps base64_loop_pad append_Cons append_Nil, simp_all,
      (intro conjI byte_eqI; simp add: bit_simps)+)

lemma base64_decode_encode: "base64Decode (base64Encode s) = s"
  by (simp add: base64Decode_def base64_loop_encode)

section \<open>Properties\<close>

text \<open>\<open>decodeHex\<close> inverts \<open>encodeHex\<close> on every byte string, and whatever it accepts (a
  non-empty result) is the encoding of its result: no other spelling of the same bytes is
  accepted.\<close>

theorem hex_roundtrip:
  "decodeHex (encodeHex s) = s \<and> (decodeHex t \<noteq> [] \<longrightarrow> encodeHex (decodeHex t) = t)"
  using decodeHex_loop_sound [of t "[]"] by (auto simp: decodeHex_def decodeHex_loop_encodeHex split: if_splits)

theorem hex_roundtrip_witness:
  "decodeHex (encodeHex [1, 0xAB]) = [1, 0xAB] \<and>
   decodeHex (str ''fc94'') \<noteq> [] \<and> encodeHex (decodeHex (str ''fc94'')) = str ''fc94''"
proof -
  have "decodeHex (str ''fc94'') \<noteq> []" by code_simp
  then show ?thesis using hex_roundtrip [of "[1, 0xAB]" "str ''fc94''"] by blast
qed

text \<open>\<open>base64Decode\<close> inverts the RFC 4648 encoding with padding, on every byte string.\<close>

theorem base64_roundtrip: "base64Decode (base64Encode s) = s"
  by (rule base64_decode_encode)

text \<open>Joining the pieces of \<open>split\<close> with the delimiter gives the input back, and there are
  one more piece than delimiters, at most \<open>maxSplit + 1\<close>; \<open>splitWhitespace\<close> returns non-empty
  words without white space whose concatenation is the input less its white space.\<close>

theorem split_correct:
  "joinWith d (split s d (int m)) = s \<and>
   length (split s d (int m)) = min (m + 1) (count_list s d + 1) \<and>
   words_ok (splitWhitespace s) \<and>
   concat (splitWhitespace s) = filter (\<lambda>c. \<not> isspace c) s"
  using splitWhitespace_spec by (simp add: split_join length_split)

end
