(* ===== verification/IpAddress.thy ===== *)
theory IpAddress
  imports Util
begin

text \<open>
  \<open>ipaddress.h\<close> and \<open>ipaddress.cpp\<close>: the 16-byte \<open>IpAddress\<close> (IPv4 addresses are kept as
  IPv4-mapped IPv6 ones), its classification predicates, the textual parsers taken from lwIP
  and the printers, and \<open>InetAddress\<close>, an address with a port.

  The IPv6 parser is modelled with the local array \<open>addr\<close> it leaves uninitialised as a
  parameter (\<open>junk\<close>) and with every array access checked: a write or read outside the array is
  the result \<open>Ip6_Fault\<close>.  The refinement lemma \<open>husarnet_ip6addr_aton_ref\<close> shows that the
  parser computes \<open>ip6_ref\<close>, a list-level specification that has neither: it never leaves the
  array and never reads an uninitialised cell.  Both printers are inverted by the parsers.
\<close>

section \<open>Addresses\<close>

datatype ipaddress = IpAddress (ip_data: bytes)

type_synonym HusarnetAddress = ipaddress
type_synonym InternetAddress = ipaddress

datatype inetaddress = InetAddress (ip_of: ipaddress) (port_of: u16)

definition ip_wf :: "ipaddress \<Rightarrow> bool" where
  "ip_wf a \<longleftrightarrow> length (ip_data a) = 16"

text \<open>The order of \<open>IpAddress\<close> is that of \<open>std::array\<close>, lexicographic on unsigned bytes.\<close>

instantiation ipaddress :: linorder
begin

definition less_ipaddress :: "ipaddress \<Rightarrow> ipaddress \<Rightarrow> bool" where
  "less_ipaddress a b \<longleftrightarrow> ip_data a < ip_data b"

definition less_eq_ipaddress :: "ipaddress \<Rightarrow> ipaddress \<Rightarrow> bool" where
  "less_eq_ipaddress a b \<longleftrightarrow> ip_data a \<le> ip_data b"

instance
  by standard (auto simp: less_ipaddress_def less_eq_ipaddress_def ipaddress.expand)

end

instantiation inetaddress :: linorder
begin

definition less_inetaddress :: "inetaddress \<Rightarrow> inetaddress \<Rightarrow> bool" where
  "less_inetaddress a b \<longleftrightarrow>
     ip_of a < ip_of b \<or> \<not> ip_of b < ip_of a \<and> port_of a < port_of b"

definition less_eq_inetaddress :: "inetaddress \<Rightarrow> inetaddress \<Rightarrow> bool" where
  "less_eq_inetaddress a b \<longleftrightarrow> a = b \<or> a < b"

instance
  by standard (auto simp: less_inetaddress_def less_eq_inetaddress_def not_less_iff_gr_or_eq
      inetaddress.expand)

end

definition IpAddress_default :: ipaddress where
  "IpAddress_default = IpAddress ([0x3f, 0xff] @ replicate 14 0)"

definition isMappedV4 :: "ipaddress \<Rightarrow> bool" where
  "isMappedV4 a \<longleftrightarrow> take 12 (ip_data a) = replicate 10 0 @ [0xFF, 0xFF]"

definition isLinkLocal :: "ipaddress \<Rightarrow> bool" where
  "isLinkLocal a =
     (let d = ip_data a in
      if isMappedV4 a then d ! 12 = 169 \<and> d ! 13 = 254
      else d ! 0 = 0xfe \<and> d ! 1 = 0x80)"

definition isPrivateV4 :: "ipaddress \<Rightarrow> bool" where
  "isPrivateV4 a =
     (let d = ip_data a in
      if \<not> isMappedV4 a then False
      else if d ! 12 = 127 then True
      else if d ! 12 = 10 then True
      else if d ! 12 = 192 \<and> d ! 13 = 168 then True
      else if d ! 12 = 172 \<and> d ! 13 AND 0xF0 = 16 then True
      else False)"

definition isFC94 :: "ipaddress \<Rightarrow> bool" where
  "isFC94 a \<longleftrightarrow> ip_data a ! 0 = 0xfc \<and> ip_data a ! 1 = 0x94"

definition isZero :: "ipaddress \<Rightarrow> bool" where
  "isZero a \<longleftrightarrow> take 16 (ip_data a) = replicate 16 0"

definition isInvalid :: "ipaddress \<Rightarrow> bool" where
  "isInvalid a \<longleftrightarrow> take 2 (ip_data a) = [0x3f, 0xff]"

definition isValid :: "ipaddress \<Rightarrow> bool" where
  "isValid a \<longleftrightarrow> \<not> isInvalid a"

definition isWildcard :: "ipaddress \<Rightarrow> bool" where
  "isWildcard a = (if isMappedV4 a then ip_data a ! 12 = 0 else isZero a)"

definition isLoopback :: "ipaddress \<Rightarrow> bool" where
  "isLoopback a =
     (if isMappedV4 a then ip_data a ! 12 = 127
      else take 16 (ip_data a) = replicate 15 0 @ [1])"

definition isMulticast :: "ipaddress \<Rightarrow> bool" where
  "isMulticast a =
     (if isMappedV4 a then ip_data a ! 12 AND 0xf0 = 224 else ip_data a ! 0 = 0xff)"

definition isPrivateNetworkV4 :: "ipaddress \<Rightarrow> bool" where
  "isPrivateNetworkV4 a =
     (let d = ip_data a in
      if \<not> isMappedV4 a then False
      else if d ! 12 = 10 then True
      else if d ! 12 = 172 \<and> d ! 13 AND 0xf0 = 16 then True
      else if d ! 12 = 192 \<and> d ! 13 = 168 then True
      else False)"

definition isReservedNotPrivate :: "ipaddress \<Rightarrow> bool" where
  "isReservedNotPrivate a =
     (let d = ip_data a in
      if isPrivateNetworkV4 a then False
      else if isWildcard a \<or> isLoopback a \<or> isMulticast a \<or> isLinkLocal a \<or> isFC94 a then True
      else if isMappedV4 a then
        (if d ! 12 = 100 \<and> d ! 13 AND 0xC0 = 64 then True
         else if d ! 12 = 192 \<and> d ! 13 = 0 \<and> d ! 14 = 0 then True
         else if d ! 12 = 192 \<and> d ! 13 = 0 \<and> d ! 14 = 2 then True
         else if d ! 12 = 198 \<and> d ! 13 AND 0xfe = 18 then True
         else if d ! 12 = 198 \<and> d ! 13 = 88 \<and> d ! 14 = 99 then True
         else if d ! 12 = 198 \<and> d ! 13 = 51 \<and> d ! 14 = 100 then True
         else if d ! 12 = 203 \<and> d ! 13 = 0 \<and> d ! 14 = 113 then True
         else if d ! 12 = 233 \<and> d ! 13 = 252 \<and> d ! 15 = 0 then True
         else if d ! 12 AND 0xf0 = 240 then True
         else if d ! 12 = 255 \<and> d ! 13 = 255 \<and> d ! 14 = 255 \<and> d ! 15 = 255 then True
         else False)
      else
        (if take 12 d = [0x00, 0x64, 0xff, 0x9b, 0, 0, 0, 0, 0, 0, 0, 0] then True
         else if take 6 d = [0x00, 0x64, 0xff, 0x9b, 0x00, 0x01] then True
         else if take 8 d = [0x01, 0x00, 0, 0, 0, 0, 0, 0] then True
         else if take 4 d = [0x20, 0x01, 0x00, 0x00] then True
         else if d ! 0 = 0x20 \<and> d ! 1 = 0x01 \<and> d ! 2 = 0 \<and> d ! 3 AND 0xF0 = 0x20 then True
         else if take 4 d = [0x20, 0x01, 0x0d, 0xb8] then True
         else if take 2 d = [0x20, 0x02] then True
         else False))"

section \<open>The IPv6 text parser\<close>

text \<open>
  A C string is the list of the characters before its terminating NUL; \<open>c_str\<close> gives it for a
  \<open>std::string\<close>.
\<close>

definition c_str :: "bytes \<Rightarrow> bytes" where
  "c_str s = takeWhile (\<lambda>c. c \<noteq> 0) s"

record ip6_parser =
  addr :: "u32 list"
  addr_index :: nat
  zero_blocks :: u32
  current_block_index :: nat
  current_block_value :: u32

datatype 'a ip6_result = Ip6_Ok 'a | Ip6_Reject | Ip6_Fault

fun ip6_bind :: "'a ip6_result \<Rightarrow> ('a \<Rightarrow> 'b ip6_result) \<Rightarrow> 'b ip6_result" where
  "ip6_bind (Ip6_Ok x) f = f x"
| "ip6_bind Ip6_Reject f = Ip6_Reject"
| "ip6_bind Ip6_Fault f = Ip6_Fault"

primrec ip6_count :: "u32 \<Rightarrow> bytes \<Rightarrow> u32" where
  "ip6_count zb [] = zb"
| "ip6_count zb (c # s) =
     (if c = 58 then ip6_count (zb - 1) s
      else if \<not> isxdigit c then zb else ip6_count zb s)"

definition ip6_put_block :: "ip6_parser \<Rightarrow> ip6_parser ip6_result" where
  "ip6_put_block st =
     (let ai = addr_index st; v = current_block_value st in
      if ai \<ge> 4 then Ip6_Fault
      else if odd (current_block_index st)
      then Ip6_Ok (st\<lparr>addr := (addr st)[ai := addr st ! ai OR v], addr_index := ai + 1\<rparr>)
      else Ip6_Ok (st\<lparr>addr := (addr st)[ai := push_bit 16 v]\<rparr>))"

definition ip6_zero_step :: "ip6_parser \<Rightarrow> ip6_parser ip6_result" where
  "ip6_zero_step st =
     (let st = st\<lparr>zero_blocks := zero_blocks st - 1\<rparr>; ai = addr_index st in
      ip6_bind
        (if odd (current_block_index st) then Ip6_Ok (st\<lparr>addr_index := ai + 1\<rparr>)
         else if ai \<ge> 4 then Ip6_Fault
         else Ip6_Ok (st\<lparr>addr := (addr st)[ai := 0]\<rparr>))
        (\<lambda>st. let st = st\<lparr>current_block_index := current_block_index st + 1\<rparr> in
          if current_block_index st > 7 then Ip6_Reject else Ip6_Ok st))"

lemma ip6_zero_step_blocks:
  "ip6_zero_step st = Ip6_Ok st' \<Longrightarrow> zero_blocks st' = zero_blocks st - 1"
  by (auto simp: ip6_zero_step_def Let_def split: if_splits)

function ip6_zero_fill :: "ip6_parser \<Rightarrow> ip6_parser ip6_result" where
  "ip6_zero_fill st =
     (if zero_blocks st > 0
      then (case ip6_zero_step st of
          Ip6_Ok st' \<Rightarrow> ip6_zero_fill st'
        | Ip6_Reject \<Rightarrow> Ip6_Reject
        | Ip6_Fault \<Rightarrow> Ip6_Fault)
      else Ip6_Ok st)"
  by pat_completeness auto

termination
  by (relation "measure (\<lambda>st. unat (zero_blocks st))")
    (auto dest!: ip6_zero_step_blocks simp: measure_unat)

declare ip6_zero_fill.simps [simp del]

definition ip6_digit :: "byte \<Rightarrow> u32" where
  "ip6_digit c =
     (if isdigit c then ucast c - 48
      else 10 + (if islower c then ucast c - 97 else ucast c - 65))"

fun ip6_loop :: "ip6_parser \<Rightarrow> bytes \<Rightarrow> ip6_parser ip6_result" where
  "ip6_loop st [] = Ip6_Ok st"
| "ip6_loop st (c # s) =
     (if c = 58 then
        ip6_bind (ip6_put_block st) (\<lambda>st.
          let st = st\<lparr>current_block_index := current_block_index st + 1, current_block_value := 0\<rparr> in
          if current_block_index st > 7 then Ip6_Reject
          else if s \<noteq> [] \<and> hd s = 58 then
            (let s' = tl s in
             if s' \<noteq> [] \<and> hd s' = 58 then Ip6_Reject
             else ip6_bind (ip6_zero_fill st) (\<lambda>st. ip6_loop st s'))
          else ip6_loop st s)
      else if isxdigit c then
        ip6_loop (st\<lparr>current_block_value := push_bit 4 (current_block_value st) + ip6_digit c\<rparr>) s
      else Ip6_Ok st)"

definition husarnet_ip6addr_aton :: "u32 list \<Rightarrow> bytes \<Rightarrow> bytes ip6_result" where
  "husarnet_ip6addr_aton junk cp =
     ip6_bind
       (ip6_loop \<lparr>addr = junk, addr_index = 0, zero_blocks = ip6_count 8 cp,
          current_block_index = 0, current_block_value = 0\<rparr> cp)
       (\<lambda>st. ip6_bind (ip6_put_block st) (\<lambda>st.
          if current_block_index st \<noteq> 7 then Ip6_Reject
          else Ip6_Ok (concat (map be_bytes32 (addr st)))))"

section \<open>The IPv4 text parser\<close>

fun ip4_digits :: "u32 \<Rightarrow> u32 \<Rightarrow> bytes \<Rightarrow> u32 \<times> bytes" where
  "ip4_digits base val [] = (val, [])"
| "ip4_digits base val (c # s) =
     (if isdigit c then ip4_digits base (val * base + (ucast c - 48)) s
      else if base = 16 \<and> isxdigit c
      then ip4_digits base (push_bit 4 val OR (ucast c + 10 - (if islower c then 97 else 65))) s
      else (val, c # s))"

definition ip4_base :: "bytes \<Rightarrow> u32 \<times> bytes" where
  "ip4_base s =
     (case s of
        c # s1 \<Rightarrow>
          if c = 48
          then (case s1 of
              x # s2 \<Rightarrow> if x = 120 \<or> x = 88 then (16, s2) else (8, s1)
            | [] \<Rightarrow> (8, s1))
          else (10, s)
      | [] \<Rightarrow> (10, s))"

function ip4_parts :: "u32 list \<Rightarrow> bytes \<Rightarrow> (u32 list \<times> u32 \<times> bytes) option" where
  "ip4_parts parts s =
     (if s = [] \<or> \<not> isdigit (hd s) then None
      else
        let (base, t) = ip4_base s; (val, r) = ip4_digits base 0 t in
        if r \<noteq> [] \<and> hd r = 46
        then (if length parts \<ge> 3 then None else ip4_parts (parts @ [val]) (tl r))
        else Some (parts, val, r))"
  by pat_completeness auto

termination
  by (relation "measure (\<lambda>(parts, s). 4 - length parts)") auto

declare ip4_parts.simps [simp del]

definition ip4_concoct :: "u32 list \<Rightarrow> u32 \<Rightarrow> u32 option" where
  "ip4_concoct parts val =
     (case parts of
        [] \<Rightarrow> Some val
      | [a] \<Rightarrow> if val > 0xffffff then None else if a > 0xff then None
          else Some (val OR push_bit 24 a)
      | [a, b] \<Rightarrow> if val > 0xffff then None else if a > 0xff \<or> b > 0xff then None
          else Some (val OR (push_bit 24 a OR push_bit 16 b))
      | [a, b, c] \<Rightarrow> if val > 0xff then None else if a > 0xff \<or> b > 0xff \<or> c > 0xff then None
          else Some (val OR (push_bit 24 a OR push_bit 16 b OR push_bit 8 c))
      | _ \<Rightarrow> None)"

definition husarnet_ip4addr_aton :: "bytes \<Rightarrow> bytes option" where
  "husarnet_ip4addr_aton cp =
     (case ip4_parts [] cp of
        None \<Rightarrow> None
      | Some (parts, val, r) \<Rightarrow>
          if r \<noteq> [] \<and> \<not> isspace (hd r) then None
          else map_option be_bytes32 (ip4_concoct parts val))"

section \<open>Parsing and printing addresses\<close>

definition IpAddress_parse_c :: "u32 list \<Rightarrow> bytes \<Rightarrow> ipaddress option" where
  "IpAddress_parse_c junk s =
     (case husarnet_ip4addr_aton s of
        Some b4 \<Rightarrow>
          (let d = take 12 (ip_data IpAddress_default) @ b4 in
           Some (IpAddress (d[0 := 0, 1 := 0, 10 := 0xFF, 11 := 0xFF])))
      | None \<Rightarrow>
          (case husarnet_ip6addr_aton junk s of
             Ip6_Ok b \<Rightarrow> Some (IpAddress b)
           | Ip6_Reject \<Rightarrow> Some IpAddress_default
           | Ip6_Fault \<Rightarrow> None))"

definition IpAddress_parse :: "u32 list \<Rightarrow> bytes \<Rightarrow> ipaddress option" where
  "IpAddress_parse junk s = IpAddress_parse_c junk (c_str s)"

definition toBinaryString :: "ipaddress \<Rightarrow> bytes" where
  "toBinaryString a = take 16 (ip_data a)"

definition toString_ip :: "ipaddress \<Rightarrow> bytes" where
  "toString_ip a =
     (let d = ip_data a in
      if isMappedV4 a
      then to_string (unat (d ! 12)) @ [46] @ to_string (unat (d ! 13)) @ [46] @
           to_string (unat (d ! 14)) @ [46] @ to_string (unat (d ! 15))
      else foldl (\<lambda>res i. (if i \<noteq> 0 then res @ [58] else res) @
             [hex_hi (d ! i), hex_lo (d ! i), hex_hi (d ! (i + 1)), hex_lo (d ! (i + 1))])
           [] [0, 2, 4, 6, 8, 10, 12, 14])"

definition fromBinaryString :: "bytes \<Rightarrow> ipaddress option" where
  "fromBinaryString s = (if length s = 16 then Some (IpAddress s) else None)"

definition fromBinary :: "bytes \<Rightarrow> ipaddress option" where
  "fromBinary d = (if length d \<ge> 16 then Some (IpAddress (take 16 d)) else None)"

definition fromBinary4 :: "bytes \<Rightarrow> ipaddress option" where
  "fromBinary4 d =
     (if length d \<ge> 4
      then Some (IpAddress (((take 12 (ip_data IpAddress_default))
              [0 := 0, 1 := 0, 10 := 0xFF, 11 := 0xFF]) @ take 4 d))
      else None)"

definition fromBinary4_u32 :: "u32 \<Rightarrow> ipaddress option" where
  "fromBinary4_u32 a = fromBinary4 (pack a)"

definition wildcard :: ipaddress where
  "wildcard = IpAddress (replicate 16 0)"

section \<open>Addresses with ports\<close>

definition InetAddress_default :: inetaddress where
  "InetAddress_default = InetAddress IpAddress_default 0"

definition InetAddress_bool :: "inetaddress \<Rightarrow> bool" where
  "InetAddress_bool a = isValid (ip_of a)"

definition InetAddress_str :: "inetaddress \<Rightarrow> bytes" where
  "InetAddress_str a =
     (if isMappedV4 (ip_of a)
      then toString_ip (ip_of a) @ [58] @ to_string (unat (port_of a))
      else [91] @ toString_ip (ip_of a) @ [93, 58] @ to_string (unat (port_of a)))"

definition rfind :: "byte \<Rightarrow> bytes \<Rightarrow> nat option" where
  "rfind c s =
     (if c \<in> set s then Some (length s - 1 - length (takeWhile (\<lambda>x. x \<noteq> c) (rev s))) else None)"

definition InetAddress_parse :: "u32 list \<Rightarrow> bytes \<Rightarrow> inetaddress option" where
  "InetAddress_parse junk s =
     (case rfind 58 s of
        None \<Rightarrow> Some InetAddress_default
      | Some pos \<Rightarrow>
          let ipstr = take pos s;
              ipstr = (if length ipstr > 2 \<and> hd ipstr = 91 \<and> last ipstr = 93
                       then chunk 1 (length ipstr - 2) ipstr else ipstr)
          in map_option (\<lambda>a. InetAddress a (word_of_int (atoi (c_str (drop (pos + 1) s)))))
               (IpAddress_parse junk ipstr))"

definition hashpair :: "u64 \<Rightarrow> u64 \<Rightarrow> u64" where
  "hashpair a b = (a + b + 0x64e9c409) XOR push_bit 1 a"

definition iphash :: "ipaddress \<Rightarrow> u64" where
  "iphash a = foldl (\<lambda>v i. hashpair v (le_word (chunk (i * 4) 4 (ip_data a)))) 0 [0 ..< 4]"

definition iphash_inet :: "inetaddress \<Rightarrow> u64" where
  "iphash_inet a = hashpair (iphash (ip_of a)) (ucast (port_of a))"

section \<open>Specification of the IPv6 parser\<close>

fun ip6_ref :: "nat \<Rightarrow> u32 list \<Rightarrow> u32 \<Rightarrow> bytes \<Rightarrow> u32 list option" where
  "ip6_ref zb bs v [] = Some (bs @ [v])"
| "ip6_ref zb bs v (c # s) =
     (if c = 58 then
        if length bs \<ge> 7 then None
        else if s \<noteq> [] \<and> hd s = 58 then
          (if tl s \<noteq> [] \<and> hd (tl s) = 58 then None
           else if length bs + 1 + zb > 7 then None
           else ip6_ref 0 (bs @ [v] @ replicate zb 0) 0 (tl s))
        else ip6_ref zb (bs @ [v]) 0 s
      else if isxdigit c then ip6_ref zb bs (push_bit 4 v + ip6_digit c) s
      else Some (bs @ [v]))"

fun pair_words :: "u32 list \<Rightarrow> u32 list" where
  "pair_words (a # b # bs) = (push_bit 16 a OR b) # pair_words bs"
| "pair_words [a] = [push_bit 16 a]"
| "pair_words [] = []"

definition ip6_spec :: "bytes \<Rightarrow> bytes option" where
  "ip6_spec cp =
     (case ip6_ref (unat (ip6_count 8 cp)) [] 0 cp of
        Some bs \<Rightarrow> if length bs = 8 then Some (concat (map be_bytes32 (pair_words bs))) else None
      | None \<Rightarrow> None)"

definition ip6_rel :: "ip6_parser \<Rightarrow> u32 list \<Rightarrow> bool" where
  "ip6_rel st bs \<longleftrightarrow>
     length (addr st) = 4 \<and> current_block_index st = length bs \<and> length bs \<le> 7 \<and>
     addr_index st = length bs div 2 \<and>
     take ((length bs + 1) div 2) (addr st) = pair_words bs"

lemma length_pair_words [simp]: "length (pair_words bs) = (length bs + 1) div 2"
  by (induction bs rule: pair_words.induct) simp_all

lemma pair_words_snoc_even: "even (length bs) \<Longrightarrow> pair_words (bs @ [v]) = pair_words bs @ [push_bit 16 v]"
  by (induction bs rule: pair_words.induct) simp_all

lemma pair_words_snoc_odd:
  "odd (length bs) \<Longrightarrow> pair_words (bs @ [v]) = butlast (pair_words bs) @ [last (pair_words bs) OR v]"
proof (induction bs rule: pair_words.induct)
  case (1 a b bs)
  then have "pair_words bs \<noteq> []" by (cases bs rule: pair_words.cases) auto
  with 1 show ?case by simp
qed simp_all

lemma pair_words_not_Nil: "bs \<noteq> [] \<Longrightarrow> pair_words bs \<noteq> []"
  by (cases bs rule: pair_words.cases) auto

lemma take_Suc_update: "i < length xs \<Longrightarrow> take (Suc i) (xs[i := x]) = take i xs @ [x]"
  by (simp add: take_Suc_conv_app_nth)

lemma ip6_rel_put:
  assumes "ip6_rel st bs"
  shows "\<exists>st'. ip6_put_block st = Ip6_Ok st' \<and>
    zero_blocks st' = zero_blocks st \<and> current_block_index st' = length bs \<and>
    length (addr st') = 4 \<and> addr_index st' = (length bs + 1) div 2 \<and>
    take ((length bs + 2) div 2) (addr st') = pair_words (bs @ [current_block_value st])"
proof (cases "odd (length bs)")
  case True
  then obtain k where k: "length bs = 2 * k + 1" by (rule oddE)
  let ?st = "st\<lparr>addr := (addr st)[k := addr st ! k OR current_block_value st], addr_index := k + 1\<rparr>"
  have k4: "k < 4" "k < length (addr st)" "addr_index st = k" using assms k by (auto simp: ip6_rel_def)
  have p: "take (Suc k) (addr st) = pair_words bs" using assms k by (simp add: ip6_rel_def)
  then have "butlast (pair_words bs) = take k (addr st)" "last (pair_words bs) = addr st ! k"
    using k4 by (simp_all add: p [symmetric] take_Suc_conv_app_nth)
  then have "take (Suc k) (addr ?st) = pair_words (bs @ [current_block_value st])"
    using True k4 by (simp add: pair_words_snoc_odd take_Suc_update)
  moreover have "ip6_put_block st = Ip6_Ok ?st"
    using assms True k k4 by (simp add: ip6_put_block_def ip6_rel_def)
  ultimately show ?thesis using assms k by (simp add: ip6_rel_def)
next
  case False
  then obtain k where k: "length bs = 2 * k" by (auto elim: evenE)
  let ?st = "st\<lparr>addr := (addr st)[k := push_bit 16 (current_block_value st)]\<rparr>"
  have k4: "k < 4" "k < length (addr st)" "addr_index st = k" using assms k by (auto simp: ip6_rel_def)
  have "take k (addr st) = pair_words bs" using assms k by (simp add: ip6_rel_def)
  then have "take (Suc k) (addr ?st) = pair_words (bs @ [current_block_value st])"
    using False k4 by (simp add: pair_words_snoc_even take_Suc_update)
  moreover have "ip6_put_block st = Ip6_Ok ?st"
    using assms False k k4 by (simp add: ip6_put_block_def ip6_rel_def)
  ultimately show ?thesis using assms k by (simp add: ip6_rel_def)
qed


lemma ip6_rel_zero_step:
  assumes "ip6_rel st bs"
  shows "(length bs = 7 \<longrightarrow> ip6_zero_step st = Ip6_Reject) \<and>
    (length bs < 7 \<longrightarrow> (\<exists>st'. ip6_zero_step st = Ip6_Ok st' \<and> ip6_rel st' (bs @ [0]) \<and>
       zero_blocks st' = zero_blocks st - 1 \<and> current_block_value st' = current_block_value st))"
proof (cases "odd (length bs)")
  case True
  then obtain k where k: "length bs = 2 * k + 1" by (rule oddE)
  have p: "take (Suc k) (addr st) = pair_words bs" using assms k by (simp add: ip6_rel_def)
  then have "pair_words (bs @ [0]) = take (Suc k) (addr st)"
    using True pair_words_not_Nil [of bs] by (simp add: pair_words_snoc_odd p) (cases bs, auto)
  then show ?thesis using assms k True
    by (simp add: ip6_zero_step_def ip6_rel_def Let_def)
next
  case False
  then obtain k where k: "length bs = 2 * k" by (auto elim: evenE)
  then have "2 * k \<noteq> 7" by presburger
  have "take k (addr st) = pair_words bs" using assms k by (simp add: ip6_rel_def)
  with \<open>2 * k \<noteq> 7\<close> show ?thesis using assms k False
    by (auto simp add: ip6_zero_step_def ip6_rel_def Let_def pair_words_snoc_even take_Suc_update)
qed

lemma ip6_rel_zero_fill:
  assumes "ip6_rel st bs"
  shows "length bs + unat (zero_blocks st) > 7 \<Longrightarrow> ip6_zero_fill st = Ip6_Reject"
    and "length bs + unat (zero_blocks st) \<le> 7 \<Longrightarrow>
      \<exists>st'. ip6_zero_fill st = Ip6_Ok st' \<and>
        ip6_rel st' (bs @ replicate (unat (zero_blocks st)) 0) \<and> zero_blocks st' = 0 \<and>
        current_block_value st' = current_block_value st"
  using assms
proof (induction "unat (zero_blocks st)" arbitrary: st bs)
  case 0
  then have z: "zero_blocks st = 0" by (simp add: unat_eq_0)
  { case 1 then show ?case using 0 by (simp add: ip6_rel_def) }
  { case 2 then show ?case using z by (simp add: ip6_zero_fill.simps [of st]) }
next
  case (Suc n)
  have z: "zero_blocks st > 0" using Suc.hyps by (simp add: word_less_nat_alt)
  then have u: "unat (zero_blocks st - 1) = n"
    using Suc.hyps by (metis unat_minus_one diff_Suc_1 word_not_simps(1))
  have sz: "unat (zero_blocks st) = Suc n" using Suc.hyps(3) by simp
  { case 1
    show ?case
    proof (cases "length bs = 7")
      case True
      then show ?thesis using z 1 ip6_rel_zero_step [of st bs] by (simp add: ip6_zero_fill.simps [of st])
    next
      case False
      have lt: "6 < length bs + n" using "1"(1) Suc.hyps(3) by linarith
      obtain st' where "ip6_zero_step st = Ip6_Ok st'" "ip6_rel st' (bs @ [0])"
        "zero_blocks st' = zero_blocks st - 1"
        using False ip6_rel_zero_step [of st bs] 1 by (auto simp: ip6_rel_def)
      then show ?thesis
        using z u Suc.hyps(1) [of st' "bs @ [0]"] lt by (simp add: ip6_zero_fill.simps [of st])
    qed }
  { case 2
    then have "length bs < 7" using Suc.hyps(3) by linarith
    then obtain st' where "ip6_zero_step st = Ip6_Ok st'" "ip6_rel st' (bs @ [0])"
        "zero_blocks st' = zero_blocks st - 1" "current_block_value st' = current_block_value st"
      using ip6_rel_zero_step [of st bs] 2 by (auto simp: ip6_rel_def)
    then show ?case
      using z u 2(1) sz Suc.hyps(2) [of st' "bs @ [0]"]
      by (simp add: ip6_zero_fill.simps [of st]) }
qed



fun ip6_agree :: "ip6_parser ip6_result \<Rightarrow> u32 list option \<Rightarrow> bool" where
  "ip6_agree r None \<longleftrightarrow> r = Ip6_Reject"
| "ip6_agree r (Some bs) \<longleftrightarrow>
     (\<exists>st bs0. r = Ip6_Ok st \<and> ip6_rel st bs0 \<and> bs = bs0 @ [current_block_value st])"

lemma ip6_rel_loop:
  "ip6_rel st bs \<Longrightarrow>
     ip6_agree (ip6_loop st s) (ip6_ref (unat (zero_blocks st)) bs (current_block_value st) s)"
proof (induction s arbitrary: st bs rule: length_induct)
  case (1 s)
  note IH = "1.IH" [rule_format]
  show ?case
  proof (cases s)
    case Nil
    then show ?thesis using "1.prems" by auto
  next
    case s: (Cons c s1)
    show ?thesis
    proof (cases "c = 58 \<and> length bs < 7")
      case False
      then show ?thesis
        using s "1.prems" IH [of s1 "st\<lparr>current_block_value := push_bit 4 (current_block_value st) + ip6_digit c\<rparr>" bs]
          ip6_rel_put [OF "1.prems"] by (auto simp: ip6_rel_def)
    next
      case True
      obtain st1 where st1: "ip6_put_block st = Ip6_Ok st1" "zero_blocks st1 = zero_blocks st"
        "current_block_index st1 = length bs" "length (addr st1) = 4"
        "addr_index st1 = (length bs + 1) div 2"
        "take ((length bs + 2) div 2) (addr st1) = pair_words (bs @ [current_block_value st])"
        using ip6_rel_put [OF "1.prems"] by blast
      define st2 where "st2 = st1\<lparr>current_block_index := current_block_index st1 + 1, current_block_value := 0\<rparr>"
      let ?bs = "bs @ [current_block_value st]"
      have rel: "ip6_rel st2 ?bs" using st1 True by (simp add: st2_def ip6_rel_def)
      have z2: "zero_blocks st2 = zero_blocks st" "current_block_value st2 = 0" "\<not> 7 < current_block_index st2"
        using st1 True by (simp_all add: st2_def)
      have loop: "ip6_loop st (c # s1) =
        (if s1 \<noteq> [] \<and> hd s1 = 58
         then if tl s1 \<noteq> [] \<and> hd (tl s1) = 58 then Ip6_Reject
           else ip6_bind (ip6_zero_fill st2) (\<lambda>st. ip6_loop st (tl s1))
         else ip6_loop st2 s1)"
        using True st1(1) z2(3) unfolding st2_def by (simp add: Let_def)
      show ?thesis
      proof (cases "s1 \<noteq> [] \<and> hd s1 = 58 \<and> (tl s1 = [] \<or> hd (tl s1) \<noteq> 58)")
        case False
        then show ?thesis using IH [of s1 st2 ?bs] rel z2 True s loop by auto
      next
        case dbl: True
        show ?thesis
        proof (cases "length bs + 1 + unat (zero_blocks st) > 7")
          case True
          then have "ip6_zero_fill st2 = Ip6_Reject"
            using ip6_rel_zero_fill(1) [OF rel] z2 by simp
          then show ?thesis using True \<open>c = 58 \<and> length bs < 7\<close> dbl s loop by simp
        next
          case False
          then obtain st3 where st3: "ip6_zero_fill st2 = Ip6_Ok st3"
            "ip6_rel st3 (?bs @ replicate (unat (zero_blocks st)) 0)" "zero_blocks st3 = 0"
            "current_block_value st3 = 0"
            using ip6_rel_zero_fill(2) [OF rel] z2 by auto
          have "length (tl s1) < length s" using s by simp
          from IH [OF this st3(2)]
          have "ip6_agree (ip6_loop st3 (tl s1))
            (ip6_ref 0 (?bs @ replicate (unat (zero_blocks st)) 0) 0 (tl s1))"
            using st3 by simp
          moreover have "ip6_loop st s = ip6_loop st3 (tl s1)"
            using dbl loop st3(1) unfolding s by (simp del: ip6_loop.simps) auto
          moreover have "ip6_ref (unat (zero_blocks st)) bs (current_block_value st) s =
              ip6_ref 0 (?bs @ replicate (unat (zero_blocks st)) 0) 0 (tl s1)"
            using True False dbl s by auto
          ultimately show ?thesis by simp
        qed
      qed
    qed
  qed
qed

lemma husarnet_ip6addr_aton_ref:
  assumes "length junk = 4"
  shows "husarnet_ip6addr_aton junk cp =
    (case ip6_spec cp of Some b \<Rightarrow> Ip6_Ok b | None \<Rightarrow> Ip6_Reject)"
proof -
  define st0 where "st0 = \<lparr>addr = junk, addr_index = 0, zero_blocks = ip6_count 8 cp,
          current_block_index = 0, current_block_value = 0\<rparr>"
  have "ip6_rel st0 []" using assms by (simp add: st0_def ip6_rel_def)
  from ip6_rel_loop [OF this, of cp]
  have agree: "ip6_agree (ip6_loop st0 cp) (ip6_ref (unat (ip6_count 8 cp)) [] 0 cp)"
    by (simp add: st0_def)
  show ?thesis
  proof (cases "ip6_ref (unat (ip6_count 8 cp)) [] 0 cp")
    case None
    then show ?thesis using agree by (simp add: husarnet_ip6addr_aton_def ip6_spec_def st0_def)
  next
    case (Some bs)
    then obtain st bs0 where st: "ip6_loop st0 cp = Ip6_Ok st" "ip6_rel st bs0"
      "bs = bs0 @ [current_block_value st]" using agree by auto
    obtain st1 where "ip6_put_block st = Ip6_Ok st1" "current_block_index st1 = length bs0"
      "length (addr st1) = 4" "take ((length bs0 + 2) div 2) (addr st1) = pair_words bs"
      using ip6_rel_put [OF st(2)] st(3) by blast
    then show ?thesis using st(1,3) Some
      by (auto simp add: husarnet_ip6addr_aton_def ip6_spec_def st0_def)
  qed
qed

text \<open>Every text gives some address, of 16 bytes.\<close>

lemma IpAddress_parse_wf:
  assumes "length junk = 4"
  shows "\<exists>a. IpAddress_parse junk s = Some a \<and> ip_wf a"
proof -
  have b: "length (be_bytes32 w) = 4" for w by (simp add: be_bytes32_def)
  have four: "length d = 4" if "husarnet_ip4addr_aton t = Some d" for t d
    using that b by (auto simp: husarnet_ip4addr_aton_def split: option.splits prod.splits if_splits)
  have "length (concat (map be_bytes32 ws)) = 4 * length ws" for ws by (induction ws) (simp_all add: b)
  then have six: "length d = 16" if "ip6_spec t = Some d" for t d
    using that by (auto simp: ip6_spec_def split: option.splits if_splits)
  show ?thesis
    using four six unfolding IpAddress_parse_def IpAddress_parse_c_def husarnet_ip6addr_aton_ref [OF assms]
    by (auto simp: ip_wf_def IpAddress_default_def Let_def split: option.splits)
qed

section \<open>The printers and their inverses\<close>

lemma ip4_digits_run:
  "list_all isdigit ds \<Longrightarrow> rest = [] \<or> \<not> isdigit (hd rest) \<Longrightarrow>
   ip4_digits 10 (word_of_nat v) (ds @ rest) =
     (word_of_nat (foldl (\<lambda>v c. v * 10 + (unat c - 48)) v ds), rest)"
proof (induction ds arbitrary: v)
  case Nil
  then show ?case by (cases rest) auto
next
  case (Cons c ds)
  then have "48 \<le> unat c" by (simp add: isdigit_def word_le_nat_alt)
  then have "word_of_nat v * 10 + (ucast c - 48) = (word_of_nat (v * 10 + (unat c - 48)) :: u32)"
    by (simp add: unsigned_ucast_eq of_nat_diff flip: word_unat_eq_iff)
  then show ?case using Cons.prems Cons.IH [of "v * 10 + (unat c - 48)"] by (simp del: of_nat_add of_nat_mult)
qed


lemma ip4_base_to_string:
  "rest = [] \<or> hd rest = 46 \<Longrightarrow>
   (case ip4_base (to_string n @ rest) of (base, t) \<Rightarrow> ip4_digits base 0 t) = (word_of_nat n, rest)"
proof (cases "n = 0")
  case True
  assume "rest = [] \<or> hd rest = 46"
  then show ?thesis using True
    by (cases rest) (auto simp: to_string.simps [of 0] ip4_base_def isdigit_def)
next
  case False
  assume rest: "rest = [] \<or> hd rest = 46"
  obtain c ds where ds: "to_string n = c # ds" by (cases "to_string n") auto
  have "c \<noteq> 48" using hd_to_string [of n] False ds by simp
  then have "ip4_base (to_string n @ rest) = (10, to_string n @ rest)"
    by (simp add: ip4_base_def ds)
  moreover have "rest = [] \<or> \<not> isdigit (hd rest)" using rest by (auto simp: isdigit_def)
  then have "ip4_digits 10 0 (to_string n @ rest) = (word_of_nat n, rest)"
    using ip4_digits_run [of "to_string n" rest 0] to_string_digits [of n] dec_value_to_string [of n]
    by (simp add: dec_value_def)
  ultimately show ?thesis by simp
qed

lemma ip4_parts_to_string:
  assumes "rest = [] \<or> hd rest = 46"
  shows "ip4_parts parts (to_string n @ rest) =
    (if rest \<noteq> [] then if length parts \<ge> 3 then None else ip4_parts (parts @ [word_of_nat n]) (tl rest)
     else Some (parts, word_of_nat n, []))"
proof -
  have "isdigit (hd (to_string n))" using to_string_digits [of n] to_string_not_Nil [of n]
    by (cases "to_string n") auto
  then show ?thesis using assms ip4_base_to_string [OF assms, of n]
    by (subst ip4_parts.simps) (auto split: prod.splits)
qed

lemma be_bytes32_unfold:
  "be_bytes32 w = [ucast (drop_bit 24 w), ucast (drop_bit 16 w), ucast (drop_bit 8 w), ucast w]"
  unfolding be_bytes32_def eval_nat_numeral(2) eval_nat_numeral(3)
  by (simp add: eval_nat_numeral)

lemma be_bytes32_concoct:
  "be_bytes32 (ucast d OR (push_bit 24 (ucast a) OR push_bit 16 (ucast b) OR push_bit 8 (ucast c))) =
     [a, b, c, d]"
  unfolding be_bytes32_unfold list.inject
  by (intro conjI refl; rule byte_eqI; simp add: bit_simps)

lemma ip4_aton_print:
  "husarnet_ip4addr_aton (to_string (unat a) @ [46] @ to_string (unat b) @ [46] @
     to_string (unat c) @ [46] @ to_string (unat d)) = Some [a, b, c, d]"
proof -
  have small: "\<not> (ucast x :: u32) > 255" for x :: byte
  proof -
    have "unat x < 256" using unsigned_less [of x, where 'a = nat] by simp
    then show ?thesis by (simp add: word_less_nat_alt unsigned_ucast_eq take_bit_nat_eq_self)
  qed
  show ?thesis
    using be_bytes32_concoct [of d a b c] ip4_parts_to_string [of "[]" "[ucast a, ucast b, ucast c]" "unat d"]
    by (simp add: husarnet_ip4addr_aton_def ip4_parts_to_string ip4_concoct_def small)
qed


subsection \<open>Hexadecimal groups\<close>

lemma hexLetters_class:
  assumes "n < 16"
  shows "isxdigit (hexLetters ! n)" "hexLetters ! n \<noteq> 58" "ip6_digit (hexLetters ! n) = word_of_nat n"
    "\<not> isspace (hexLetters ! n)" "hexLetters ! n \<noteq> 46" "hexLetters ! n \<noteq> 120" "hexLetters ! n \<noteq> 88"
    "hexLetters ! n \<noteq> 0"
proof -
  have "list_all (\<lambda>n. isxdigit (hexLetters ! n) \<and> hexLetters ! n \<noteq> 58 \<and>
      ip6_digit (hexLetters ! n) = word_of_nat n \<and> \<not> isspace (hexLetters ! n) \<and> hexLetters ! n \<noteq> 46 \<and>
      hexLetters ! n \<noteq> 120 \<and> hexLetters ! n \<noteq> 88 \<and> hexLetters ! n \<noteq> 0) [0 ..< 16]"
    by code_simp
  with assms show "isxdigit (hexLetters ! n)" "hexLetters ! n \<noteq> 58" "ip6_digit (hexLetters ! n) = word_of_nat n"
    "\<not> isspace (hexLetters ! n)" "hexLetters ! n \<noteq> 46" "hexLetters ! n \<noteq> 120" "hexLetters ! n \<noteq> 88"
    "hexLetters ! n \<noteq> 0"
    by (simp_all add: list_all_iff)
qed

abbreviation hex4 :: "byte \<Rightarrow> byte \<Rightarrow> bytes" where
  "hex4 a b \<equiv> [hex_hi a, hex_lo a, hex_hi b, hex_lo b]"

lemma ip6_digit_add:
  fixes v :: u32 and x :: byte
  shows "push_bit 4 v + ip6_digit (hexLetters ! unat (x AND 0xF)) = push_bit 4 v OR ucast (x AND 0xF)"
proof -
  have "n < 4" if "bit (x AND 0xF) n" for n
    using bit_below [of "x AND 0xF" 4 n] nibble_bound [of x] that by simp
  then have "push_bit 4 v AND ucast (x AND 0xF) = 0"
    by (intro bit_word_eqI) (fastforce simp: bit_simps)
  moreover have "ip6_digit (hexLetters ! unat (x AND 0xF)) = ucast (x AND 0xF)"
    by (simp add: hexLetters_class nibble_bound)
  ultimately show ?thesis by (simp only: disjunctive_add_eq_or)
qed

lemma ip6_ref_hex4:
  "ip6_ref zb bs 0 (hex4 a b @ rest) = ip6_ref zb bs (push_bit 8 (ucast a) OR ucast b) rest"
proof -
  have "push_bit 4 (push_bit 4 (push_bit 4 (push_bit 4 0 OR ucast (drop_bit 4 a AND 0xF)) OR ucast (a AND 0xF)) OR
      ucast (drop_bit 4 b AND 0xF)) OR ucast (b AND 0xF) = (push_bit 8 (ucast a) OR ucast b :: u32)"
    (is "?l = ?r")
  proof (rule bit_word_eqI)
    fix n
    show "bit ?l n = bit ?r n"
    proof (cases "n < 16")
      case True
      then have "n \<in> {0, 1, 2, 3, 4, 5, 6, 7, 8, 9, 10, 11, 12, 13, 14, 15}"
        unfolding insert_iff empty_iff by presburger
      then show ?thesis by (elim insertE emptyE; simp add: bit_simps)
    next
      case False
      then show ?thesis by (simp add: bit_simps)
    qed
  qed
  then show ?thesis
    by (simp only: append_Cons append_Nil ip6_ref.simps hexLetters_class(1,2) nibble_bound ip6_digit_add
        if_True if_False)
qed

lemma be_bytes32_groups:
  "be_bytes32 ((push_bit 24 (ucast a) OR push_bit 16 (ucast b)) OR (push_bit 8 (ucast c) OR ucast d)) =
     [a, b, c, d]"
  unfolding be_bytes32_unfold list.inject
  by (intro conjI refl; rule byte_eqI; simp add: bit_simps)


fun hex_groups :: "(byte \<times> byte) list \<Rightarrow> bytes" where
  "hex_groups [] = []"
| "hex_groups [(a, b)] = hex4 a b"
| "hex_groups ((a, b) # p # ps) = hex4 a b @ 58 # hex_groups (p # ps)"

abbreviation group_value :: "byte \<times> byte \<Rightarrow> u32" where
  "group_value \<equiv> \<lambda>(a, b). push_bit 8 (ucast a) OR ucast b"

lemma hd_hex_groups: "hex_groups ((a, b) # ps) \<noteq> []" "hd (hex_groups ((a, b) # ps)) = hex_hi a"
  by (cases ps; simp)+

lemma ip6_ref_groups:
  "ps \<noteq> [] \<Longrightarrow> length bs + length ps \<le> 8 \<Longrightarrow>
   ip6_ref zb bs 0 (hex_groups ps) = Some (bs @ map group_value ps)"
proof (induction ps arbitrary: bs rule: hex_groups.induct)
  case 1
  then show ?case by simp
next
  case (2 a b)
  then show ?case using ip6_ref_hex4 [of zb bs a b "[]"] by simp
next
  case (3 a b p ps)
  obtain c d where p: "p = (c, d)" by (cases p)
  have "hd (hex_groups (p # ps)) \<noteq> 58"
    unfolding p hd_hex_groups by (simp add: hexLetters_class nibble_bound)
  then have "ip6_ref zb bs (group_value (a, b)) (58 # hex_groups (p # ps)) =
      ip6_ref zb (bs @ [group_value (a, b)]) 0 (hex_groups (p # ps))"
    using "3.prems" by simp
  then show ?case
    using "3.prems" "3.IH" [of "bs @ [group_value (a, b)]"]
    by (simp only: hex_groups.simps ip6_ref_hex4) simp
qed

fun group_bytes :: "(byte \<times> byte) list \<Rightarrow> bytes" where
  "group_bytes [] = []"
| "group_bytes ((a, b) # ps) = a # b # group_bytes ps"

lemma pair_words_groups:
  "even (length ps) \<Longrightarrow> concat (map be_bytes32 (pair_words (map group_value ps))) = group_bytes ps"
  by (induction ps rule: induct_list012) (auto simp: be_bytes32_groups)

lemma ip6_spec_groups:
  "length ps = 8 \<Longrightarrow> ip6_spec (hex_groups ps) = Some (group_bytes ps)"
  using ip6_ref_groups [of ps "[]"] by (cases "ps = []") (auto simp: ip6_spec_def pair_words_groups)

lemma ip4_digits_subset: "ip4_digits b v s = (w, r) \<Longrightarrow> set r \<subseteq> set s"
  by (induction b v s rule: ip4_digits.induct) (auto split: if_splits)

lemma ip4_digits_stop:
  "ip4_digits b v s = (w, r) \<Longrightarrow> (c :: byte) \<in> set s \<Longrightarrow> \<not> isdigit c \<Longrightarrow> \<not> isxdigit c \<Longrightarrow> c \<in> set r"
  by (induction b v s rule: ip4_digits.induct) (auto split: if_splits)

lemma ip4_aton_hex:
  assumes hex: "list_all (\<lambda>c. (isxdigit c \<or> c = 58) \<and> \<not> isspace c \<and> c \<noteq> 46 \<and> c \<noteq> 120 \<and> c \<noteq> 88) s"
    and colon: "58 \<in> set s"
  shows "husarnet_ip4addr_aton s = None"
proof (cases "s = [] \<or> \<not> isdigit (hd s)")
  case True
  then show ?thesis by (simp add: husarnet_ip4addr_aton_def ip4_parts.simps [of "[]" s])
next
  case False
  obtain base t where bt: "ip4_base s = (base, t)" by (cases "ip4_base s")
  obtain val r where vr: "ip4_digits base 0 t = (val, r)" by (cases "ip4_digits base 0 t")
  have t: "t = s \<or> t = tl s" "58 \<in> set t"
    using bt hex colon False by (auto simp: ip4_base_def isdigit_def split: list.splits if_splits)
  have "58 \<in> set r" using ip4_digits_stop [OF vr t(2)] by (simp add: ctype)
  moreover have "set r \<subseteq> set s"
    using ip4_digits_subset [OF vr] t(1) by (cases s) auto
  ultimately have "r \<noteq> []" "hd r \<noteq> 46" "\<not> isspace (hd r)"
    using hex by (cases r; auto simp: list_all_iff)+
  then show ?thesis using False bt vr
    by (simp add: husarnet_ip4addr_aton_def ip4_parts.simps [of "[]" s])
qed


subsection \<open>Round trips\<close>

lemma nth_16:
  "length d = 16 \<Longrightarrow>
   [d ! 0, d ! 1, d ! 2, d ! 3, d ! 4, d ! 5, d ! 6, d ! 7, d ! 8, d ! 9, d ! 10, d ! 11,
    d ! 12, d ! 13, d ! 14, d ! 15] = d"
  by (auto simp: numeral_eq_Suc length_Suc_conv)

definition ip_groups :: "bytes \<Rightarrow> (byte \<times> byte) list" where
  "ip_groups d = [(d ! 0, d ! 1), (d ! 2, d ! 3), (d ! 4, d ! 5), (d ! 6, d ! 7), (d ! 8, d ! 9),
     (d ! 10, d ! 11), (d ! 12, d ! 13), (d ! 14, d ! 15)]"

lemma length_ip_groups: "length (ip_groups d) = 8"
  by (simp add: ip_groups_def)

lemma group_bytes_ip_groups: "length d = 16 \<Longrightarrow> group_bytes (ip_groups d) = d"
  using nth_16 [of d] by (simp add: ip_groups_def)

lemma toString_groups:
  "\<not> isMappedV4 a \<Longrightarrow> toString_ip a = hex_groups (ip_groups (ip_data a))"
  by (simp add: toString_ip_def ip_groups_def Let_def)

lemma hex_groups_class:
  "list_all (\<lambda>c. (isxdigit c \<or> c = 58) \<and> \<not> isspace c \<and> c \<noteq> 46 \<and> c \<noteq> 120 \<and> c \<noteq> 88) (hex_groups ps)"
proof (induction ps rule: hex_groups.induct)
  case (3 a b p ps)
  then show ?case by (simp add: hexLetters_class nibble_bound) (simp add: isspace_def)
qed (simp_all add: hexLetters_class nibble_bound)

lemma c_str_id: "0 \<notin> set s \<Longrightarrow> c_str s = s"
  unfolding c_str_def by (rule takeWhile_eq_all_conv [THEN iffD2]) auto

lemma mapped_image:
  "(take 12 (ip_data IpAddress_default) @ [a, b, c, d]) [0 := 0, 1 := 0, 10 := 0xFF, 11 := 0xFF] =
     replicate 10 0 @ [0xFF, 0xFF] @ [a, b, c, d]"
  by (simp add: IpAddress_default_def numeral_eq_Suc)

lemma IpAddress_parse_toString:
  assumes wf: "ip_wf a" and junk: "length junk = 4"
  shows "IpAddress_parse junk (toString_ip a) = Some a"
proof (cases "isMappedV4 a")
  case True
  let ?d = "ip_data a"
  have len: "length ?d = 16" using wf by (simp add: ip_wf_def)
  have "drop 12 ?d = [?d ! 12, ?d ! 13, ?d ! 14, ?d ! 15]"
    using arg_cong [OF nth_16 [OF len], of "drop 12"] by simp
  then have d: "?d = replicate 10 0 @ [0xFF, 0xFF] @ [?d ! 12, ?d ! 13, ?d ! 14, ?d ! 15]"
    using True append_take_drop_id [of 12 ?d] by (simp add: isMappedV4_def)
  let ?s = "to_string (unat (?d ! 12)) @ [46] @ to_string (unat (?d ! 13)) @ [46] @
           to_string (unat (?d ! 14)) @ [46] @ to_string (unat (?d ! 15))"
  have s: "toString_ip a = ?s" using True by (simp add: toString_ip_def Let_def)
  have "c_str ?s = ?s" by (rule c_str_id) (simp add: not_digit)
  then have "IpAddress_parse junk (toString_ip a) =
      Some (IpAddress (replicate 10 0 @ [0xFF, 0xFF] @ [?d ! 12, ?d ! 13, ?d ! 14, ?d ! 15]))"
    by (simp only: s IpAddress_parse_def IpAddress_parse_c_def ip4_aton_print option.case mapped_image Let_def)
  then show ?thesis using d by simp
next
  case False
  let ?s = "hex_groups (ip_groups (ip_data a))"
  have "\<not> (isxdigit 0 \<or> (0 :: byte) = 58)" by (simp add: ctype)
  then have "0 \<notin> set ?s" using hex_groups_class unfolding list_all_iff by blast
  moreover have "58 \<in> set ?s" by (simp add: ip_groups_def)
  then have "husarnet_ip4addr_aton ?s = None" by (intro ip4_aton_hex hex_groups_class)
  moreover have "ip6_spec ?s = Some (ip_data a)"
    using wf ip6_spec_groups [OF length_ip_groups] group_bytes_ip_groups unfolding ip_wf_def by metis
  ultimately show ?thesis
    using False junk
    by (simp only: toString_groups IpAddress_parse_def IpAddress_parse_c_def c_str_id
        husarnet_ip6addr_aton_ref option.case ip6_result.case ipaddress.collapse not_False_eq_True)
qed

lemma rfind_last: "c \<notin> set t \<Longrightarrow> rfind c (s @ c # t) = Some (length s)"
proof -
  assume "c \<notin> set t"
  then have "takeWhile (\<lambda>x. x \<noteq> c) (rev t @ c # rev s) = rev t"
    by (subst takeWhile_append2) auto
  then show ?thesis by (simp add: rfind_def)
qed

lemma InetAddress_parse_str:
  assumes wf: "ip_wf (ip_of a)" and junk: "length junk = 4"
  shows "InetAddress_parse junk (InetAddress_str a) = Some a"
proof -
  let ?p = "to_string (unat (port_of a))" and ?i = "toString_ip (ip_of a)"
  have 58: "58 \<notin> set ?p" by (simp add: not_digit)
  have "unat (port_of a) < 2 ^ 31"
    using unsigned_less [of "port_of a", where 'a = nat] by simp
  then have port: "word_of_int (atoi (c_str ?p)) = port_of a"
    by (simp add: c_str_id not_digit atoi_to_string)
  show ?thesis
  proof (cases "isMappedV4 (ip_of a)")
    case True
    then have "hd ?i \<noteq> 91"
      using to_string_digits [of "unat (ip_data (ip_of a) ! 12)"]
      by (cases "to_string (unat (ip_data (ip_of a) ! 12))") (auto simp: toString_ip_def ctype Let_def word_le_nat_alt)
    then show ?thesis
      using True rfind_last [OF 58, of ?i] port IpAddress_parse_toString [OF wf junk]
      by (simp add: InetAddress_parse_def InetAddress_str_def Let_def inetaddress.expand)
  next
    case False
    have "length (91 # ?i @ [93]) > 2" using False by (simp add: toString_groups ip_groups_def)
    moreover have "chunk 1 (length ?i) (91 # ?i @ [93]) = ?i" by (simp add: chunk_def)
    ultimately show ?thesis
      using False rfind_last [OF 58, of "91 # ?i @ [93]"] port IpAddress_parse_toString [OF wf junk]
      by (simp add: InetAddress_parse_def InetAddress_str_def Let_def inetaddress.expand)
  qed
qed

subsection \<open>Compressed notation\<close>

lemma ip6_count_groups:
  "ps \<noteq> [] \<Longrightarrow> ip6_count zb (hex_groups ps @ rest) = ip6_count (zb - word_of_nat (length ps - 1)) rest"
  by (induction ps arbitrary: zb rule: hex_groups.induct)
    (simp_all add: hexLetters_class nibble_bound algebra_simps)

lemma ip6_ref_groups_gap:
  assumes "t = [] \<or> hd t \<noteq> 58"
  shows "ps \<noteq> [] \<Longrightarrow> length bs + length ps + zb \<le> 7 \<Longrightarrow>
   ip6_ref zb bs 0 (hex_groups ps @ 58 # 58 # t) =
     ip6_ref 0 (bs @ map group_value ps @ replicate zb 0) 0 t"
proof (induction ps arbitrary: bs rule: hex_groups.induct)
  case 1
  then show ?case by simp
next
  case (2 a b)
  then show ?case using ip6_ref_hex4 [of zb bs a b "58 # 58 # t"] assms by auto
next
  case (3 a b p ps)
  obtain c d where p: "p = (c, d)" by (cases p)
  let ?r = "hex_groups (p # ps) @ 58 # 58 # t"
  have "hd ?r \<noteq> 58" "?r \<noteq> []"
    unfolding p using hd_hex_groups [of c d ps] by (auto simp: hexLetters_class nibble_bound)
  then have "ip6_ref zb bs (group_value (a, b)) (58 # ?r) =
      ip6_ref zb (bs @ [group_value (a, b)]) 0 ?r"
    using "3.prems" by simp
  then show ?case
    using "3.prems" "3.IH" [of "bs @ [group_value (a, b)]"] ip6_ref_hex4 [of zb bs a b "58 # ?r"]
    by (simp only: hex_groups.simps append_Cons append_Nil append.assoc) simp
qed

definition compressed :: "(byte \<times> byte) list \<Rightarrow> (byte \<times> byte) list \<Rightarrow> bytes" where
  "compressed pre post = hex_groups pre @ [58, 58] @ hex_groups post"

definition expanded :: "(byte \<times> byte) list \<Rightarrow> (byte \<times> byte) list \<Rightarrow> bytes" where
  "expanded pre post =
     group_bytes pre @ replicate (2 * (8 - length pre - length post)) 0 @ group_bytes post"

lemma group_bytes_append: "group_bytes (ps @ qs) = group_bytes ps @ group_bytes qs"
  by (induction ps rule: group_bytes.induct) simp_all

lemma group_bytes_zeros: "group_bytes (replicate n (0, 0)) = replicate (2 * n) 0"
  by (induction n) simp_all

lemma map_group_value_zeros: "map group_value (replicate n (0, 0)) = replicate n 0"
  by simp

lemma ip6_count_compressed:
  assumes "length pre + length post \<le> 7"
  shows "unat (ip6_count 8 (compressed pre post)) = 8 - (length pre - 1 + 2 + (length post - 1))"
proof -
  let ?c = "length pre - 1 + 2 + (length post - 1)"
  have "ip6_count zb (58 # 58 # hex_groups post) = zb - 2 - word_of_nat (length post - 1)" for zb
    using ip6_count_groups [of post "zb - 2" "[]"] by (cases "post = []") simp_all
  note tail = this
  have "ip6_count 8 (compressed pre post) = 8 - word_of_nat ?c"
  proof (cases "pre = []")
    case True
    then show ?thesis using tail [of 8] by (simp add: compressed_def)
  next
    case False
    then have "ip6_count 8 (compressed pre post) =
        8 - word_of_nat (length pre - 1) - 2 - word_of_nat (length post - 1)"
      unfolding compressed_def by (simp only: ip6_count_groups append_Cons append_Nil tail not_False_eq_True)
    then show ?thesis by (simp only: of_nat_add of_nat_numeral diff_diff_eq)
  qed
  also have "\<dots> = word_of_nat (8 - ?c)" using assms by (simp add: of_nat_diff)
  finally have "unat (ip6_count 8 (compressed pre post)) = unat (word_of_nat (8 - ?c) :: u32)" by (rule arg_cong)
  then show ?thesis by (simp only: unat_of_nat) simp
qed

lemma ip6_ref_compressed:
  assumes len: "length pre + length post \<le> 7"
  shows "ip6_ref (unat (ip6_count 8 (compressed pre post))) [] 0 (compressed pre post) =
    Some (map group_value (pre @ replicate (8 - length pre - length post) (0, 0) @ post))"
proof -
  let ?zb = "unat (ip6_count 8 (compressed pre post))" and ?t = "hex_groups post"
  let ?bs = "(if pre = [] then [0] else map group_value pre) @ replicate ?zb 0"
  note zb = ip6_count_compressed [OF len]
  have t: "?t = [] \<or> hd ?t \<noteq> 58"
    by (cases post) (auto simp: hd_hex_groups hexLetters_class nibble_bound)
  have len_bs: "length ?bs + length post \<le> 8" "length ?bs \<le> 7"
    using len zb by (cases "pre = []"; cases "post = []"; simp; arith)+
  have "ip6_ref ?zb [] 0 (compressed pre post) = ip6_ref 0 ?bs 0 ?t"
  proof (cases "pre = []")
    case True
    then show ?thesis using t len_bs(2) by (auto simp: compressed_def)
  next
    case False
    then show ?thesis using ip6_ref_groups_gap [OF t False, of "[]"] len_bs(2)
      by (simp add: compressed_def)
  qed
  also have "\<dots> = Some (?bs @ (if post = [] then [0] else map group_value post))"
    using ip6_ref_groups [OF _ len_bs(1), of 0] by (cases "post = []") (simp_all only: hex_groups.simps ip6_ref.simps if_True if_False not_False_eq_True simp_thms)
  also have "?bs @ (if post = [] then [0] else map group_value post) =
      map group_value (pre @ replicate (8 - length pre - length post) (0, 0) @ post)"
    using len zb by (cases "pre = []"; cases "post = []")
      (simp_all flip: replicate_Suc add: replicate_append_same, cases post, simp_all)
  finally show ?thesis .
qed

lemma ip6_spec_compressed:
  assumes "length pre + length post \<le> 7"
  shows "ip6_spec (compressed pre post) = Some (expanded pre post)"
proof -
  let ?ps = "pre @ replicate (8 - length pre - length post) (0, 0) @ post"
  have "length ?ps = 8" using assms by simp
  moreover have "group_bytes ?ps = expanded pre post"
    by (simp add: group_bytes_append group_bytes_zeros expanded_def)
  ultimately show ?thesis
    using ip6_ref_compressed [OF assms] pair_words_groups [of ?ps]
    by (simp add: ip6_spec_def del: map_append)
qed


lemma compressed_class:
  "list_all (\<lambda>c. (isxdigit c \<or> c = 58) \<and> \<not> isspace c \<and> c \<noteq> 46 \<and> c \<noteq> 120 \<and> c \<noteq> 88) (compressed pre post)"
  using hex_groups_class [of pre] hex_groups_class [of post]
  by (simp add: compressed_def isspace_def)

subsection \<open>The unit tests of the addresses, and leniencies\<close>

abbreviation shown :: "string \<Rightarrow> bytes option" where
  "shown s \<equiv> map_option toString_ip (IpAddress_parse [0, 0, 0, 0] (str s))"

lemma ipaddress_tests:
  "shown ''127.0.0.1'' = Some (str ''127.0.0.1'')"
  "shown ''123:4567::90'' = Some (str ''0123:4567:0000:0000:0000:0000:0000:0090'')"
  "shown ''::ffff:5:6'' = Some (str ''0.5.0.6'')"
  "map_option isInvalid (IpAddress_parse [0, 0, 0, 0] (str ''xxx'')) = Some True"
  "map_option isPrivateV4 (IpAddress_parse [0, 0, 0, 0] (str ''172.31.5.0'')) = Some True"
  "map_option isPrivateV4 (IpAddress_parse [0, 0, 0, 0] (str ''172.32.0.0'')) = Some False"
  "map_option InetAddress_str (InetAddress_parse [0, 0, 0, 0] (str ''[127.0.0.1]:80'')) =
     Some (str ''127.0.0.1:80'')"
  by code_simp+

text \<open>
  The parsers take more than the notations their comments describe: the digits 8 and 9 in an
  octal part, text after an IPv6 address, and IPv6 groups of more than four digits, whose
  excess digits are or-ed into the group before.
\<close>

lemma parser_leniency:
  "shown ''10.0.0.09'' = Some (str ''10.0.0.9'')"
  "shown ''1::2 and more'' = shown ''1::2''"
  "shown ''1:20003:0:0:0:0:0:0'' = shown ''3:3:0:0:0:0:0:0''"
  by code_simp+

section \<open>Properties\<close>

text \<open>C15: Parsing the printed form of an address gives the address back, for every IPv4-mapped
  and every IPv6 address, whatever the parser's uninitialised local array holds.\<close>

theorem parse_toString_roundtrip:
  assumes "ip_wf a" and "length junk = 4"
  shows "IpAddress_parse junk (toString_ip a) = Some a"
  using assms by (rule IpAddress_parse_toString)

theorem parse_toString_roundtrip_witness:
  "ip_wf (IpAddress (replicate 10 0 @ [255, 255, 10, 0, 0, 1])) \<and> length [7, 7, 7, 7 :: u32] = 4 \<and>
   IpAddress_parse [7, 7, 7, 7] (toString_ip (IpAddress (replicate 10 0 @ [255, 255, 10, 0, 0, 1]))) =
     Some (IpAddress (replicate 10 0 @ [255, 255, 10, 0, 0, 1]))"
  using parse_toString_roundtrip [of "IpAddress (replicate 10 0 @ [255, 255, 10, 0, 0, 1])" "[7, 7, 7, 7]"]
  by (simp add: ip_wf_def)

text \<open>C16: The IPv6 parser is memory safe on every input string: it never reads or writes outside
  its four-word array, and its result is the one of the list specification \<open>ip6_spec\<close>, which
  does not depend on the initial contents of that array.\<close>

theorem ip6_parser_safe:
  assumes "length junk = 4"
  shows "husarnet_ip6addr_aton junk cp \<noteq> Ip6_Fault \<and>
    husarnet_ip6addr_aton junk cp = (case ip6_spec cp of Some b \<Rightarrow> Ip6_Ok b | None \<Rightarrow> Ip6_Reject)"
  using husarnet_ip6addr_aton_ref [OF assms, of cp] by (simp split: option.split)

theorem ip6_parser_safe_witness:
  "length [1, 2, 3, 4 :: u32] = 4 \<and>
   husarnet_ip6addr_aton [1, 2, 3, 4] (str ''1:2:3:4:5:6:7:8:9'') \<noteq> Ip6_Fault"
proof -
  have "length [1, 2, 3, 4 :: u32] = 4" by simp
  with ip6_parser_safe [OF this, of "str ''1:2:3:4:5:6:7:8:9''"] show ?thesis by blast
qed

text \<open>An address in the compressed notation of RFC 4291 (the groups before the double colon,
  the groups after it, at most seven in all) is parsed to those groups with the missing ones
  zero.\<close>

theorem parse_compressed:
  assumes "length pre + length post \<le> 7" and "length junk = 4"
  shows "IpAddress_parse junk (compressed pre post) = Some (IpAddress (expanded pre post))"
proof -
  let ?s = "compressed pre post"
  have "\<not> (isxdigit 0 \<or> (0 :: byte) = 58)" by (simp add: ctype)
  then have "0 \<notin> set ?s" using compressed_class unfolding list_all_iff by blast
  moreover have "58 \<in> set ?s" by (simp add: compressed_def)
  then have "husarnet_ip4addr_aton ?s = None" by (intro ip4_aton_hex compressed_class)
  ultimately show ?thesis
    using assms(2) ip6_spec_compressed [OF assms(1)]
    by (simp only: IpAddress_parse_def IpAddress_parse_c_def c_str_id husarnet_ip6addr_aton_ref
        option.case ip6_result.case not_False_eq_True)
qed

theorem parse_compressed_witness:
  "IpAddress_parse [9, 9, 9, 9] (str ''fc94::0001'') = Some (IpAddress ([0xfc, 0x94] @ replicate 13 0 @ [1]))"
proof -
  have "compressed [(0xfc, 0x94)] [(0, 1)] = str ''fc94::0001''"
    "expanded [(0xfc, 0x94)] [(0, 1)] = [0xfc, 0x94] @ replicate 13 0 @ [1]" by code_simp+
  then show ?thesis using parse_compressed [of "[(0xfc, 0x94)]" "[(0, 1)]" "[9, 9, 9, 9]"] by simp
qed

text \<open>\<open>InetAddress::parse\<close> inverts \<open>InetAddress::str\<close>, for every address and every port, with
  the brackets of the IPv6 form and without them in the IPv4 form.\<close>

theorem inet_parse_str_roundtrip:
  assumes "ip_wf (ip_of a)" and "length junk = 4"
  shows "InetAddress_parse junk (InetAddress_str a) = Some a"
  using assms by (rule InetAddress_parse_str)

theorem inet_parse_str_roundtrip_witness:
  "InetAddress_parse [0, 0, 0, 0] (InetAddress_str (InetAddress (IpAddress (replicate 16 1)) 65535)) =
     Some (InetAddress (IpAddress (replicate 16 1)) 65535)"
  using inet_parse_str_roundtrip [of "InetAddress (IpAddress (replicate 16 1)) 65535" "[0, 0, 0, 0]"]
  by (simp add: ip_wf_def)

end
