(* ===== verification/Identity.thy ===== *)
theory Identity
  imports IpAddress
begin

text \<open>
  \<open>ngsocket_crypto.cpp\<close> and \<open>identity.cpp\<close>.  libsodium is not part of the sources: the record
  \<open>crypto\<close> holds the functions the code calls, and every definition that uses them takes it as
  a parameter.  Random draws are numbered: the generators take the number of the draw, and
  the state of each component counts the draws made.

  \<open>crypto_sizes\<close> states the documented output sizes and \<open>crypto_laws\<close> the documented
  correctness of signatures, authenticated encryption and key exchange.  They are hypotheses
  of the theorems that need them, and \<open>toy_crypto\<close> shows that they can hold.

  The results: an identity written by \<open>serialize\<close> is read back by \<open>deserialize\<close>; \<open>create\<close>
  returns as soon as some draw of the generator gives a Husarnet address; \<open>init\<close> yields a valid
  identity and the one it saved is the one the next start loads.
\<close>

section \<open>The cryptographic library\<close>

record crypto =
  sha256 :: "bytes \<Rightarrow> bytes"
  ed_sign :: "bytes \<Rightarrow> bytes \<Rightarrow> bytes"
  ed_verify :: "bytes \<Rightarrow> bytes \<Rightarrow> bytes \<Rightarrow> bool"
  ed_keypair :: "nat \<Rightarrow> bytes \<times> bytes"
  kx_keypair :: "nat \<Rightarrow> bytes \<times> bytes"
  kx_client :: "bytes \<times> bytes \<Rightarrow> bytes \<Rightarrow> bytes \<Rightarrow> bytes \<Rightarrow> bool \<times> bytes \<times> bytes"
  kx_server :: "bytes \<times> bytes \<Rightarrow> bytes \<Rightarrow> bytes \<Rightarrow> bytes \<Rightarrow> bool \<times> bytes \<times> bytes"
  secretbox :: "bytes \<Rightarrow> bytes \<Rightarrow> bytes \<Rightarrow> bytes"
  secretbox_open :: "bytes \<Rightarrow> bytes \<Rightarrow> bytes \<Rightarrow> bytes option"
  randombytes :: "nat \<Rightarrow> nat \<Rightarrow> bytes"
  uni_az :: "nat \<Rightarrow> byte"

text \<open>
  \<open>kx_client (rx, tx) pk sk peer_pk\<close> is \<open>crypto_kx_client_session_keys\<close> on output buffers that
  hold \<open>rx\<close> and \<open>tx\<close> before the call: whether the call returned 0, and the buffers after it.
\<close>

definition crypto_sizes :: "crypto \<Rightarrow> bool" where
  "crypto_sizes c \<longleftrightarrow>
     (\<forall>m. length (sha256 c m) = 32) \<and>
     (\<forall>sk m. length (ed_sign c sk m) = 64) \<and>
     (\<forall>k. length (fst (ed_keypair c k)) = 32 \<and> length (snd (ed_keypair c k)) = 64) \<and>
     (\<forall>k. length (fst (kx_keypair c k)) = 32 \<and> length (snd (kx_keypair c k)) = 32) \<and>
     (\<forall>k n m. length (secretbox c k n m) = length m + 16) \<and>
     (\<forall>k n. length (randombytes c k n) = n)"

definition crypto_laws :: "crypto \<Rightarrow> bool" where
  "crypto_laws c \<longleftrightarrow>
     (\<forall>k m. ed_verify c (fst (ed_keypair c k)) m (ed_sign c (snd (ed_keypair c k)) m)) \<and>
     (\<forall>k n m. secretbox_open c k n (secretbox c k n m) = Some m) \<and>
     (\<forall>k n x m. secretbox_open c k n x = Some m \<longrightarrow> x = secretbox c k n m) \<and>
     (\<forall>i j old old'. \<exists>rx tx.
        kx_client c old (fst (kx_keypair c i)) (snd (kx_keypair c i)) (fst (kx_keypair c j)) =
          (True, rx, tx) \<and>
        kx_server c old' (fst (kx_keypair c j)) (snd (kx_keypair c j)) (fst (kx_keypair c i)) =
          (True, tx, rx))"

definition toy_crypto :: crypto where
  "toy_crypto =
     \<lparr>sha256 = (\<lambda>m. take 32 ([0, 0, 0] @ m @ replicate 32 0)),
      ed_sign = (\<lambda>sk m. take 64 (sk @ replicate 64 0)),
      ed_verify = (\<lambda>pk m s. s = take 32 (pk @ replicate 32 0) @ replicate 32 1),
      ed_keypair = (\<lambda>k. (word_of_nat k # replicate 31 5, word_of_nat k # replicate 31 5 @ replicate 32 1)),
      kx_keypair = (\<lambda>k. (word_of_nat k # replicate 31 6, word_of_nat k # replicate 31 7)),
      kx_client = (\<lambda>old pk sk pk'. (True, take 32 (pk' @ replicate 32 0), take 32 (pk @ replicate 32 0))),
      kx_server = (\<lambda>old pk sk pk'. (True, take 32 (pk' @ replicate 32 0), take 32 (pk @ replicate 32 0))),
      secretbox = (\<lambda>k n m. replicate 16 9 @ m),
      secretbox_open = (\<lambda>k n x.
        if length x \<ge> 16 \<and> take 16 x = replicate 16 9 then Some (drop 16 x) else None),
      randombytes = (\<lambda>k n. replicate n (word_of_nat k)),
      uni_az = (\<lambda>k. 97)\<rparr>"

lemma toy_crypto_sizes: "crypto_sizes toy_crypto"
  by (auto simp: crypto_sizes_def toy_crypto_def min_def)

lemma toy_crypto_laws: "crypto_laws toy_crypto"
  unfolding crypto_laws_def
proof (intro conjI allI impI)
  fix k n x m assume "secretbox_open toy_crypto k n x = Some m"
  then have "take 16 x = replicate 16 9" "m = drop 16 x"
    by (simp_all add: toy_crypto_def split: if_splits)
  then show "x = secretbox toy_crypto k n m"
    using append_take_drop_id [of 16 x] by (simp add: toy_crypto_def)
qed (simp_all add: toy_crypto_def)

text \<open>The facts about sizes, one by one.\<close>

lemma crypto_sizesD:
  assumes "crypto_sizes c"
  shows "length (sha256 c m) = 32" "length (ed_sign c sk m) = 64"
    "length (fst (ed_keypair c k)) = 32" "length (snd (ed_keypair c k)) = 64"
    "length (fst (kx_keypair c k)) = 32" "length (snd (kx_keypair c k)) = 32"
    "length (secretbox c key nonce m) = length m + 16" "length (randombytes c k n) = n"
  using assms by (simp_all add: crypto_sizes_def)

section \<open>NgSocketCrypto\<close>

definition makeMessage :: "bytes \<Rightarrow> bytes \<Rightarrow> bytes" where
  "makeMessage d kind = kind @ [10] @ d"

definition pubkeyToDeviceId :: "crypto \<Rightarrow> bytes \<Rightarrow> HusarnetAddress" where
  "pubkeyToDeviceId c pubkey =
     (let hash = sha256 c pubkey in
      if \<not> (hash ! 0 = 0 \<and> hash ! 1 < 50) then IpAddress_default
      else IpAddress (take 16 ([0xfc, 0x94] @ chunk 3 14 hash)))"

definition verifySignature :: "crypto \<Rightarrow> bytes \<Rightarrow> bytes \<Rightarrow> bytes \<Rightarrow> bytes \<Rightarrow> bool" where
  "verifySignature c d kind pubkey sig = ed_verify c pubkey (makeMessage d kind) sig"

definition safeEquals :: "bytes \<Rightarrow> bytes \<Rightarrow> bool" where
  "safeEquals a b = (if length a \<noteq> length b then False else take (length b) a = b)"

section \<open>Identity\<close>

record identity =
  pubkey :: bytes
  privkey :: bytes
  deviceId :: HusarnetAddress

definition Identity_default :: identity where
  "Identity_default =
     \<lparr>pubkey = fstring_default 32, privkey = fstring_default 64, deviceId = IpAddress_default\<rparr>"

definition Identity_sign :: "crypto \<Rightarrow> identity \<Rightarrow> bytes \<Rightarrow> bytes" where
  "Identity_sign c i msg = ed_sign c (privkey i) msg"

definition ngc_sign :: "crypto \<Rightarrow> bytes \<Rightarrow> bytes \<Rightarrow> identity \<Rightarrow> bytes" where
  "ngc_sign c d kind i = Identity_sign c i (makeMessage d kind)"

definition Identity_isValid :: "identity \<Rightarrow> bool" where
  "Identity_isValid i = isFC94 (deviceId i)"

text \<open>
  \<open>Identity::create\<close> draws key pairs until one hashes to a Husarnet address; \<open>k\<close> numbers the
  draws.  Not returning is the value \<open>None\<close>.
\<close>

partial_function (option) Identity_create_loop ::
  "crypto \<Rightarrow> nat \<Rightarrow> identity \<Rightarrow> (identity \<times> nat) option" where
  "Identity_create_loop c k i =
     (if isFC94 (deviceId i) then Some (i, k)
      else Identity_create_loop c (k + 1)
        (i\<lparr>pubkey := fst (ed_keypair c k), privkey := snd (ed_keypair c k),
           deviceId := pubkeyToDeviceId c (fst (ed_keypair c k))\<rparr>))"

definition Identity_create :: "crypto \<Rightarrow> nat \<Rightarrow> (identity \<times> nat) option" where
  "Identity_create c k = Identity_create_loop c k Identity_default"

definition Identity_serialize :: "crypto \<Rightarrow> identity \<Rightarrow> bytes" where
  "Identity_serialize c i =
     toString_ip (pubkeyToDeviceId c (pubkey i)) @ [32] @ encodeHex (pubkey i) @ [32] @
     encodeHex (privkey i) @ [10]"

text \<open>\<open>buffer >> s\<close>: skip white space, take characters up to the next white space.\<close>

definition stream_token :: "bytes \<Rightarrow> bytes \<times> bytes" where
  "stream_token s =
     (let s = dropWhile isspace s in
      (takeWhile (\<lambda>c. \<not> isspace c) s, dropWhile (\<lambda>c. \<not> isspace c) s))"

definition Identity_deserialize :: "u32 list \<Rightarrow> bytes \<Rightarrow> identity option" where
  "Identity_deserialize junk d =
     (if d = [] then Some Identity_default
      else
        let (ipStr, s1) = stream_token d; (pubkeyStr, s2) = stream_token s1;
            (privkeyStr, s3) = stream_token s2
        in do {
          pk \<leftarrow> fstring 32 (decodeHex pubkeyStr);
          sk \<leftarrow> fstring 64 (decodeHex privkeyStr);
          a \<leftarrow> IpAddress_parse_c junk (c_str ipStr);
          Some \<lparr>pubkey = pk, privkey = sk, deviceId = a\<rparr>
        })"

text \<open>
  \<open>Identity::init\<close>: \<open>stored\<close> is what \<open>Port::readStorage(StorageKey::id)\<close> returns and \<open>writable\<close>
  whether \<open>Port::writeStorage\<close> succeeds; the result is the identity, the contents of the
  storage afterwards and the number of the next draw.
\<close>

definition Identity_init ::
  "crypto \<Rightarrow> u32 list \<Rightarrow> bytes \<Rightarrow> bool \<Rightarrow> nat \<Rightarrow> (identity \<times> bytes \<times> nat) option" where
  "Identity_init c junk stored writable k = do {
     i \<leftarrow> (if stored = [] then Some Identity_default else Identity_deserialize junk stored);
     if \<not> Identity_isValid i then do {
       (i', k') \<leftarrow> Identity_create c k;
       Some (i', (if writable then Identity_serialize c i' else stored), k')
     } else Some (i, stored, k)
   }"

section \<open>Lemmas\<close>

lemma pubkeyToDeviceId_wf:
  assumes "crypto_sizes c"
  shows "ip_wf (pubkeyToDeviceId c pk)"
  using assms by (simp add: pubkeyToDeviceId_def ip_wf_def IpAddress_default_def Let_def crypto_sizesD)

text \<open>Identities as \<open>create\<close> makes them: the address belongs to the public key.\<close>

definition identity_wf :: "crypto \<Rightarrow> identity \<Rightarrow> bool" where
  "identity_wf c i \<longleftrightarrow>
     length (pubkey i) = 32 \<and> length (privkey i) = 64 \<and>
     deviceId i = pubkeyToDeviceId c (pubkey i)"

lemma hex_not_space: "c \<in> set (encodeHex s) \<Longrightarrow> \<not> isspace c"
  by (induction s) (auto simp: hexLetters_class nibble_bound)

lemma stream_token_run:
  assumes "\<And>c. c \<in> set t \<Longrightarrow> \<not> isspace c" and "t \<noteq> []" and "isspace d"
  shows "stream_token (t @ d # r) = (t, d # r)" "stream_token (d # t @ e # r) =
    (if isspace e then (t, e # r) else stream_token (t @ e # r))"
proof -
  have *: "stream_token (t @ d # r) = (t, d # r)" if "isspace d" for d
  proof -
    obtain x t' where t: "t = x # t'" using assms(2) by (cases t) auto
    have "dropWhile isspace (t @ d # r) = t @ d # r" using assms(1) [of x] by (simp add: t)
    moreover have "takeWhile (\<lambda>c. \<not> isspace c) (t @ d # r) = t"
      "dropWhile (\<lambda>c. \<not> isspace c) (t @ d # r) = d # r"
      using assms(1) that by (simp_all add: takeWhile_append2 dropWhile_append2)
    ultimately show ?thesis by (simp add: stream_token_def)
  qed
  then show "stream_token (t @ d # r) = (t, d # r)" using assms(3) .
  show "stream_token (d # t @ e # r) = (if isspace e then (t, e # r) else stream_token (t @ e # r))"
    using * [of e] assms(3) by (auto simp: stream_token_def)
qed

lemma toString_ip_class:
  "c \<in> set (toString_ip a) \<Longrightarrow> \<not> isspace c" "0 \<notin> set (toString_ip a)" "toString_ip a \<noteq> []"
proof -
  have d: "\<not> isspace c" if "c \<in> set (to_string n)" for c n
    using to_string_set [OF that] by (auto simp: ctype word_le_nat_alt)
  have h: "\<not> isspace c" if "c \<in> set (hex_groups ps)" for c ps
    using hex_groups_class that unfolding list_all_iff by blast
  show "c \<in> set (toString_ip a) \<Longrightarrow> \<not> isspace c"
    using d h by (cases "isMappedV4 a") (auto simp: toString_groups, auto simp: toString_ip_def Let_def isspace_def)
  have "\<not> (isxdigit 0 \<or> (0 :: byte) = 58)" by (simp add: ctype)
  then have "0 \<notin> set (hex_groups ps)" for ps
    using hex_groups_class unfolding list_all_iff by blast
  then show "0 \<notin> set (toString_ip a)"
    by (cases "isMappedV4 a") (simp add: toString_ip_def Let_def not_digit, simp add: toString_groups)
  show "toString_ip a \<noteq> []"
    by (cases "isMappedV4 a") (simp add: toString_ip_def Let_def, simp add: toString_groups ip_groups_def)
qed

lemma encodeHex_not_Nil: "s \<noteq> [] \<Longrightarrow> encodeHex s \<noteq> []"
  by (cases s) simp_all

text \<open>What follows the last line is not looked at.\<close>

lemma deserialize_serialize_append:
  assumes "crypto_sizes c" and "identity_wf c i" and "length junk = 4"
  shows "Identity_deserialize junk (Identity_serialize c i @ r) = Some i"
proof -
  have len: "length (pubkey i) = 32" "length (privkey i) = 64"
    and dev: "deviceId i = pubkeyToDeviceId c (pubkey i)"
    using assms(2) by (simp_all add: identity_wf_def)
  let ?ip = "toString_ip (deviceId i)" and ?pk = "encodeHex (pubkey i)" and ?sk = "encodeHex (privkey i)"
  have ne: "?pk \<noteq> []" "?sk \<noteq> []" using len by (auto intro!: encodeHex_not_Nil)
  have sp: "isspace 32" "isspace 10" by (simp_all add: isspace_def)
  have s: "Identity_serialize c i @ r = ?ip @ 32 # ?pk @ 32 # ?sk @ 10 # r"
    by (simp add: Identity_serialize_def dev)
  have t1: "stream_token (?ip @ 32 # ?pk @ 32 # ?sk @ 10 # r) = (?ip, 32 # ?pk @ 32 # ?sk @ 10 # r)"
    by (rule stream_token_run) (use toString_ip_class sp in auto)
  have t2: "stream_token (32 # ?pk @ 32 # ?sk @ 10 # r) = (?pk, 32 # ?sk @ 10 # r)"
    using stream_token_run(2) [of ?pk 32 32 "?sk @ 10 # r"] hex_not_space ne sp by auto
  have t3: "stream_token (32 # ?sk @ 10 # r) = (?sk, 10 # r)"
    using stream_token_run(2) [of ?sk 32 10 r] hex_not_space ne sp by auto
  have "IpAddress_parse_c junk (c_str ?ip) = Some (deviceId i)"
    using IpAddress_parse_toString [OF pubkeyToDeviceId_wf [OF assms(1)] assms(3), of "pubkey i"]
    by (simp add: IpAddress_parse_def dev)
  then show ?thesis
    unfolding s Identity_deserialize_def t1 t2 t3 Let_def prod.case
    using len toString_ip_class(3) by (simp add: fstring_def t2 t3)
qed

lemma deserialize_serialize:
  assumes "crypto_sizes c" and "identity_wf c i" and "length junk = 4"
  shows "Identity_deserialize junk (Identity_serialize c i) = Some i"
  using deserialize_serialize_append [OF assms, of "[]"] by simp

lemma Identity_create_loop_returns:
  assumes "isFC94 (pubkeyToDeviceId c (fst (ed_keypair c n)))" and "k \<le> n"
    and "identity_wf c i \<or> \<not> isFC94 (deviceId i)" and "crypto_sizes c"
  shows "\<exists>i' k'. Identity_create_loop c k i = Some (i', k') \<and> k' \<le> n + 1 \<and> Identity_isValid i' \<and> identity_wf c i'"
  using assms
proof (induction "n + 1 - k" arbitrary: k i)
  case 0
  then show ?case by simp
next
  case (Suc m)
  show ?case
  proof (cases "isFC94 (deviceId i)")
    case True
    then show ?thesis using Suc.prems
      by (subst Identity_create_loop.simps) (simp add: Identity_isValid_def)
  next
    case False
    let ?i = "i\<lparr>pubkey := fst (ed_keypair c k), privkey := snd (ed_keypair c k),
           deviceId := pubkeyToDeviceId c (fst (ed_keypair c k))\<rparr>"
    have wf: "identity_wf c ?i" using Suc.prems(4) by (simp add: identity_wf_def crypto_sizesD)
    have step: "Identity_create_loop c k i = Identity_create_loop c (k + 1) ?i"
      using False by (subst Identity_create_loop.simps) simp
    show ?thesis
    proof (cases "k = n")
      case True
      then show ?thesis using wf Suc.prems(1) step
        by (subst (asm) (2) Identity_create_loop.simps) (simp add: Identity_isValid_def)
    next
      case False
      then show ?thesis using Suc.hyps(1) [of "k + 1" ?i] Suc.hyps(2) Suc.prems wf step by simp
    qed
  qed
qed

lemma Identity_create_returns:
  assumes "crypto_sizes c" and "isFC94 (pubkeyToDeviceId c (fst (ed_keypair c n)))" and "k \<le> n"
  shows "\<exists>i k'. Identity_create c k = Some (i, k') \<and> k' \<le> n + 1 \<and> Identity_isValid i \<and> identity_wf c i"
proof -
  have "\<not> isFC94 (deviceId Identity_default)"
    by (simp add: Identity_default_def IpAddress_default_def isFC94_def)
  then show ?thesis
    unfolding Identity_create_def using assms by (intro Identity_create_loop_returns) auto
qed

lemma serialize_not_Nil [simp]: "Identity_serialize c i \<noteq> []"
  by (simp add: Identity_serialize_def)

section \<open>Properties\<close>

text \<open>\<open>Identity::deserialize\<close> reads back what \<open>Identity::serialize\<close> wrote, for every identity
  whose address is the one of its public key.\<close>

theorem identity_roundtrip:
  assumes "crypto_sizes c" and "identity_wf c i" and "length junk = 4"
  shows "Identity_deserialize junk (Identity_serialize c i) = Some i"
  using assms by (rule deserialize_serialize)

theorem identity_roundtrip_witness:
  "let i = \<lparr>pubkey = replicate 32 3, privkey = replicate 64 4,
            deviceId = pubkeyToDeviceId toy_crypto (replicate 32 3)\<rparr> in
   Identity_deserialize [0, 0, 0, 0] (Identity_serialize toy_crypto i) = Some i"
  unfolding Let_def
  by (rule identity_roundtrip [OF toy_crypto_sizes]) (simp_all add: identity_wf_def)

text \<open>C17: \<open>Identity::init\<close> on an empty storage returns as soon as the generator can give a Husarnet
  address at all, with a valid identity whose address belongs to its key; if the storage takes
  the write, the next start loads the same identity, draws nothing and writes nothing.\<close>

theorem identity_init_persistent:
  assumes "crypto_sizes c" and "isFC94 (pubkeyToDeviceId c (fst (ed_keypair c n)))" and "k \<le> n"
    and "length junk = 4"
  shows "\<exists>i st k'. Identity_init c junk [] True k = Some (i, st, k') \<and> k' \<le> n + 1 \<and>
    Identity_isValid i \<and> identity_wf c i \<and>
    (\<forall>writable k''. Identity_init c junk st writable k'' = Some (i, st, k''))"
proof -
  obtain i k' where i: "Identity_create c k = Some (i, k')" "k' \<le> n + 1" "Identity_isValid i" "identity_wf c i"
    using Identity_create_returns [OF assms(1-3)] by blast
  let ?st = "Identity_serialize c i"
  have "Identity_init c junk [] True k = Some (i, ?st, k')"
    using i by (simp add: Identity_init_def Identity_default_def Identity_isValid_def
        IpAddress_default_def isFC94_def)
  moreover have "Identity_init c junk ?st writable k'' = Some (i, ?st, k'')" for writable k''
    using i deserialize_serialize [OF assms(1) i(4) assms(4)] by (simp add: Identity_init_def)
  ultimately show ?thesis using i by blast
qed

theorem identity_init_persistent_witness:
  "\<exists>i st k'. Identity_init toy_crypto [0, 0, 0, 0] [] True 3 = Some (i, st, k') \<and> k' \<le> 4 \<and>
    Identity_isValid i \<and>
    (\<forall>writable k''. Identity_init toy_crypto [0, 0, 0, 0] st writable k'' = Some (i, st, k''))"
proof -
  have "isFC94 (pubkeyToDeviceId toy_crypto (fst (ed_keypair toy_crypto 3)))" by code_simp
  from identity_init_persistent [OF toy_crypto_sizes this, of 3 "[0, 0, 0, 0]"]
  show ?thesis by auto
qed

text \<open>
  An identity file whose keys are damaged is not replaced: the assertion in the conversion to
  \<open>fstring<32>\<close> fails before the validity check is reached.
\<close>

lemma damaged_identity_aborts:
  "Identity_init c [0, 0, 0, 0] (str ''fc94::1 00ff 00ff'') True k = None"
proof -
  have "Identity_deserialize [0, 0, 0, 0] (str ''fc94::1 00ff 00ff'') = None" by code_simp
  then show ?thesis by (simp add: Identity_init_def)
qed

end
