(* ===== verification/Peers.thy ===== *)
theory Peers
  imports Identity
begin

text \<open>
  \<open>peer_flags.cpp\<close>, \<open>peer.h\<close>, \<open>peer.cpp\<close> and \<open>peer_container.cpp\<close>: what a node knows of each
  peer, and the container that owns the peers.

  \<open>Peer\<close> objects are shared by pointer between the layers and the container's one-entry cache, so
  the model keeps the objects in a heap, a list in which a pointer is an index (they are never
  freed).  The two hash tables are lists in iteration order, an order the code never relies on.
  \<open>Time\<close> is an \<open>int64_t\<close> of milliseconds and stays far from its bounds; it is an \<open>int\<close> here.

  \<open>pc_inv\<close> is the representation invariant: the cache and the table agree, and every pointer
  is valid and leads to the peer of its key.  The locale \<open>peer_store\<close> states what the layers
  above rely on, and the container is shown to provide it.
\<close>

section \<open>Peer flags\<close>

datatype PeerFlag = supportsFlags | compression

primrec PeerFlag_value :: "PeerFlag \<Rightarrow> u64" where
  "PeerFlag_value supportsFlags = 1"
| "PeerFlag_value compression = 2"

definition setFlag :: "u64 \<Rightarrow> PeerFlag \<Rightarrow> u64" where
  "setFlag flags flag = flags OR PeerFlag_value flag"

definition PeerFlags_default :: u64 where
  "PeerFlags_default = setFlag 0 supportsFlags"

definition checkFlag :: "u64 \<Rightarrow> PeerFlag \<Rightarrow> bool" where
  "checkFlag flags flag \<longleftrightarrow> flags \<noteq> 0 \<and> PeerFlag_value flag \<noteq> 0"

lemma PeerFlags_default_nonzero [simp]: "PeerFlags_default \<noteq> 0"
  by (simp add: PeerFlags_default_def setFlag_def)

section \<open>Peers\<close>

record peer =
  peer_id :: HusarnetAddress
  lastPacket :: int
  lastReestablish :: int
  latency :: int
  connected :: bool
  reestablishing :: bool
  failedEstablishments :: int
  targetAddress :: inetaddress
  helloCookie :: bytes
  targetAddresses :: "inetaddress list"
  linkLocalAddress :: inetaddress
  sourceAddresses :: "inetaddress list"
  packetQueue :: "bytes list"
  negotiated :: bool
  kxPubkey :: bytes
  kxPrivkey :: bytes
  txKey :: bytes
  rxKey :: bytes
  lastLatencyReceived :: int
  lastLatencySent :: int
  lastValidPacket :: int
  heartbeatIdent :: bytes
  peer_flags :: u64

definition TEARDOWN_TIMEOUT :: int where
  "TEARDOWN_TIMEOUT = 120 * 1000"

definition Peer_new :: peer where
  "Peer_new =
     \<lparr>peer_id = IpAddress_default, lastPacket = 0, lastReestablish = 0, latency = -1,
      connected = False, reestablishing = False, failedEstablishments = 0,
      targetAddress = InetAddress_default, helloCookie = [], targetAddresses = [],
      linkLocalAddress = InetAddress_default, sourceAddresses = [], packetQueue = [],
      negotiated = False, kxPubkey = fstring_default 32, kxPrivkey = fstring_default 32,
      txKey = fstring_default 32, rxKey = fstring_default 32, lastLatencyReceived = 0,
      lastLatencySent = 0, lastValidPacket = 0, heartbeatIdent = fstring_default 8,
      peer_flags = PeerFlags_default\<rparr>"

definition isActive :: "int \<Rightarrow> peer \<Rightarrow> bool" where
  "isActive now p \<longleftrightarrow> now - lastPacket p < TEARDOWN_TIMEOUT"

definition isTunelled :: "peer \<Rightarrow> bool" where
  "isTunelled p =
     (if \<not> InetAddress_bool (targetAddress p) then True
      else if \<not> connected p then True else False)"

definition isReestablishing :: "peer \<Rightarrow> bool" where
  "isReestablishing p = reestablishing p"

definition isSecure :: "peer \<Rightarrow> bool" where
  "isSecure p = negotiated p"

definition getIpAddressString :: "peer \<Rightarrow> bytes" where
  "getIpAddressString p = toString_ip (peer_id p)"

section \<open>The peer container\<close>

text \<open>
  What a node is configured with while it handles one event: the library, its identity, its own
  flags and the policy \<open>ConfigManager::isPeerAllowed\<close> in force.
\<close>

record node =
  node_crypto :: crypto
  myIdentity :: identity
  myFlags :: u64
  isPeerAllowed :: "HusarnetAddress \<Rightarrow> bool"

record pc_state =
  heap :: "peer list"
  peers :: "(HusarnetAddress \<times> nat) list"
  cachedPeer :: "nat option"
  cachedPeerId :: HusarnetAddress
  draws :: nat

definition PeerContainer :: "nat \<Rightarrow> pc_state" where
  "PeerContainer k =
     \<lparr>heap = [], peers = [], cachedPeer = None, cachedPeerId = IpAddress_default, draws = k\<rparr>"

text \<open>Access through a pointer: \<open>peer->field\<close> and \<open>peer->field = value\<close>.\<close>

abbreviation deref :: "'a pc_state_scheme \<Rightarrow> nat \<Rightarrow> peer" where
  "deref st p \<equiv> heap st ! p"

definition modify :: "nat \<Rightarrow> (peer \<Rightarrow> peer) \<Rightarrow> 'a pc_state_scheme \<Rightarrow> 'a pc_state_scheme" where
  "modify p f st = st\<lparr>heap := (heap st)[p := f (heap st ! p)]\<rparr>"

definition createPeer :: "node \<Rightarrow> HusarnetAddress \<Rightarrow> 'a pc_state_scheme \<Rightarrow> nat option \<times> 'a pc_state_scheme" where
  "createPeer nd i st =
     (if \<not> isPeerAllowed nd i then (None, st)
      else
        let c = node_crypto nd;
            (ident, k) = generateRandomString (uni_az c) (draws st) 8;
            (pk, sk) = kx_keypair c k;
            p = length (heap st);
            peer = Peer_new\<lparr>heartbeatIdent := ident, peer_id := i, kxPubkey := pk, kxPrivkey := sk\<rparr>
        in (Some p, st\<lparr>heap := heap st @ [peer], peers := AList.update i p (peers st), draws := k + 1\<rparr>))"

definition getPeer :: "node \<Rightarrow> HusarnetAddress \<Rightarrow> 'a pc_state_scheme \<Rightarrow> nat option \<times> 'a pc_state_scheme" where
  "getPeer nd i st =
     (if cachedPeerId st = i then (cachedPeer st, st)
      else if i = deviceId (myIdentity nd) then (None, st)
      else if \<not> isPeerAllowed nd i then (None, st)
      else (case map_of (peers st) i of
          None \<Rightarrow> (None, st)
        | Some p \<Rightarrow> (Some p, st\<lparr>cachedPeerId := i, cachedPeer := Some p\<rparr>)))"

definition getOrCreatePeer :: "node \<Rightarrow> HusarnetAddress \<Rightarrow> 'a pc_state_scheme \<Rightarrow> nat option \<times> 'a pc_state_scheme" where
  "getOrCreatePeer nd i st =
     (let (peer, st) = getPeer nd i st in
      if peer = None then createPeer nd i st else (peer, st))"

definition getPeers :: "'a pc_state_scheme \<Rightarrow> (HusarnetAddress \<times> nat) list" where
  "getPeers st = peers st"

section \<open>The representation invariant\<close>

definition pc_inv :: "node \<Rightarrow> 'a pc_state_scheme \<Rightarrow> bool" where
  "pc_inv nd st \<longleftrightarrow>
     distinct (map fst (peers st)) \<and>
     (\<forall>i p. map_of (peers st) i = Some p \<longrightarrow> p < length (heap st) \<and> peer_id (deref st p) = i) \<and>
     (\<forall>p. cachedPeer st = Some p \<longrightarrow>
        map_of (peers st) (cachedPeerId st) = Some p \<and> cachedPeerId st \<noteq> deviceId (myIdentity nd)) \<and>
     (cachedPeer st = None \<longrightarrow> cachedPeerId st = IpAddress_default)"

lemma pc_inv_PeerContainer: "pc_inv nd (PeerContainer k)"
  by (simp add: pc_inv_def PeerContainer_def)

lemma pc_inv_table:
  "pc_inv nd st \<Longrightarrow> map_of (peers st) i = Some p \<Longrightarrow> p < length (heap st) \<and> peer_id (deref st p) = i"
  by (simp add: pc_inv_def)

lemma pc_inv_cache:
  "pc_inv nd st \<Longrightarrow> cachedPeer st = Some p \<Longrightarrow> map_of (peers st) (cachedPeerId st) = Some p"
  by (simp add: pc_inv_def)

lemma getPeer_inv: "pc_inv nd st \<Longrightarrow> pc_inv nd (snd (getPeer nd i st))"
  by (auto simp: getPeer_def pc_inv_def split: option.split)

lemma getPeer_Some:
  assumes "pc_inv nd st" and "getPeer nd i st = (Some p, st')"
  shows "map_of (peers st) i = Some p" "heap st' = heap st" "peers st' = peers st" "draws st' = draws st"
  using assms by (auto simp: getPeer_def dest: pc_inv_cache split: if_splits option.splits)

lemma getPeer_None:
  "getPeer nd i st = (None, st') \<Longrightarrow> st' = st \<and>
     (cachedPeerId st = i \<longrightarrow> cachedPeer st = None) \<and>
     (i = deviceId (myIdentity nd) \<or> \<not> isPeerAllowed nd i \<or> map_of (peers st) i = None \<or> cachedPeerId st = i)"
  by (auto simp: getPeer_def split: if_splits option.splits)

lemma createPeer_Some:
  assumes "createPeer nd i st = (Some p, st')"
  shows "p = length (heap st)" "isPeerAllowed nd i" "peers st' = AList.update i p (peers st)"
    "cachedPeer st' = cachedPeer st" "cachedPeerId st' = cachedPeerId st"
    "\<exists>peer. heap st' = heap st @ [peer] \<and> peer_id peer = i \<and> \<not> negotiated peer \<and> packetQueue peer = [] \<and>
       sourceAddresses peer = [] \<and> kxPubkey peer = fst (kx_keypair (node_crypto nd) (draws st + 8)) \<and>
       kxPrivkey peer = snd (kx_keypair (node_crypto nd) (draws st + 8))"
    "draws st' = draws st + 9"
  using assms by (auto simp: createPeer_def generateRandomString_def Peer_new_def Let_def
      split: if_splits prod.splits)

lemma createPeer_None: "createPeer nd i st = (None, st') \<Longrightarrow> st' = st \<and> \<not> isPeerAllowed nd i"
  by (auto simp: createPeer_def Let_def split: if_splits prod.splits)

lemma createPeer_inv:
  assumes "pc_inv nd st" and "cachedPeerId st = i \<longrightarrow> cachedPeer st = None"
  shows "pc_inv nd (snd (createPeer nd i st))"
proof (cases "createPeer nd i st")
  case (Pair r st')
  show ?thesis
  proof (cases r)
    case None
    then show ?thesis using Pair createPeer_None [of nd i st st'] assms by simp
  next
    case (Some p)
    note c = createPeer_Some [OF Pair [unfolded Some]]
    obtain peer where peer: "heap st' = heap st @ [peer]" "peer_id peer = i" using c(6) by blast
    show ?thesis
      using assms peer c Pair
      by (fastforce simp: pc_inv_def update_conv' distinct_update nth_append split: if_splits)
  qed
qed

lemma getOrCreatePeer_inv:
  assumes "pc_inv nd st"
  shows "pc_inv nd (snd (getOrCreatePeer nd i st))"
proof (cases "getPeer nd i st")
  case (Pair r st1)
  then show ?thesis
    using getPeer_inv [OF assms, of i] getPeer_None [of nd i st st1] createPeer_inv [of nd st1 i]
    by (cases r) (auto simp: getOrCreatePeer_def)
qed

lemma modify_simps [simp]:
  "length (heap (modify p f st)) = length (heap st)" "peers (modify p f st) = peers st"
  "cachedPeer (modify p f st) = cachedPeer st" "cachedPeerId (modify p f st) = cachedPeerId st"
  "draws (modify p f st) = draws st" "pc_state.more (modify p f st) = pc_state.more st"
  by (simp_all add: modify_def)

lemma deref_modify:
  "q < length (heap st) \<Longrightarrow>
     deref (modify p f st) q = (if q = p then f (deref st p) else deref st q)"
  by (simp add: modify_def)

lemma modify_inv:
  "pc_inv nd st \<Longrightarrow> (\<And>x. peer_id (f x) = peer_id x) \<Longrightarrow> pc_inv nd (modify p f st)"
  by (fastforce simp: pc_inv_def deref_modify)

lemma getOrCreatePeer_Some:
  assumes "pc_inv nd st" and "getOrCreatePeer nd i st = (Some p, st')"
  shows "map_of (peers st') i = Some p" "p < length (heap st')" "peer_id (deref st' p) = i"
    "length (heap st) \<le> length (heap st')" "take (length (heap st)) (heap st') = heap st"
proof -
  obtain r st1 where g: "getPeer nd i st = (r, st1)" by (cases "getPeer nd i st")
  have inv: "pc_inv nd st'" using getOrCreatePeer_inv [OF assms(1), of i] assms(2) by simp
  show m: "map_of (peers st') i = Some p"
  proof (cases r)
    case None
    then show ?thesis using g assms createPeer_Some [of nd i st1 p st']
      by (simp add: getOrCreatePeer_def update_conv')
  next
    case (Some q)
    then show ?thesis using g assms getPeer_Some [OF assms(1), of i q st1]
      by (simp add: getOrCreatePeer_def)
  qed
  from pc_inv_table [OF inv this] show "p < length (heap st')" "peer_id (deref st' p) = i" by auto
  have "\<exists>xs. heap st' = heap st @ xs"
  proof (cases r)
    case None
    then show ?thesis using g assms createPeer_Some(6) [of nd i st1 p st'] getPeer_None [of nd i st st1]
      by (auto simp: getOrCreatePeer_def)
  next
    case (Some q)
    then show ?thesis using g assms getPeer_Some [OF assms(1), of i q st1]
      by (simp add: getOrCreatePeer_def)
  qed
  then show "length (heap st) \<le> length (heap st')" "take (length (heap st)) (heap st') = heap st" by auto
qed

lemma getOrCreatePeer_None:
  "getOrCreatePeer nd i st = (None, st') \<Longrightarrow> st' = st \<and> \<not> isPeerAllowed nd i"
  by (auto simp: getOrCreatePeer_def split: prod.splits if_splits dest!: getPeer_None createPeer_None)

section \<open>What the layers rely on\<close>

text \<open>
  The layers reach a peer only through \<open>getOrCreatePeer\<close> and give up when it returns
  \<open>nullptr\<close>.  \<open>peer_store\<close> is the contract they rely on: the store's invariant survives, the
  pointer is valid and leads to the peer asked for, and a refusal changes nothing.
\<close>

locale peer_store =
  fixes acquire :: "'i \<Rightarrow> 's \<Rightarrow> 'p option \<times> 's"
    and good :: "'s \<Rightarrow> bool"
    and valid :: "'s \<Rightarrow> 'p \<Rightarrow> bool"
    and owner :: "'s \<Rightarrow> 'p \<Rightarrow> 'i"
  assumes acquire_good: "good s \<Longrightarrow> good (snd (acquire i s))"
    and acquire_valid: "good s \<Longrightarrow> acquire i s = (Some p, s') \<Longrightarrow> valid s' p \<and> owner s' p = i"
    and acquire_refused: "acquire i s = (None, s') \<Longrightarrow> s' = s"
begin

lemma with_peer:
  assumes "good s"
    and "acquire i s = (None, s) \<Longrightarrow> Q (refused s)"
    and "\<And>p s'. acquire i s = (Some p, s') \<Longrightarrow> good s' \<Longrightarrow> valid s' p \<Longrightarrow> owner s' p = i \<Longrightarrow> Q (body p s')"
  shows "Q (case acquire i s of (None, s') \<Rightarrow> refused s' | (Some p, s') \<Rightarrow> body p s')"
proof (cases "acquire i s")
  case (Pair r s')
  then show ?thesis
    using assms acquire_good [of s i] acquire_valid [of s i] acquire_refused [of i s s']
    by (cases r) auto
qed

end

interpretation pc: peer_store "getOrCreatePeer nd" "pc_inv nd"
  "\<lambda>st p. p < length (heap st)" "\<lambda>st p. peer_id (deref st p)" for nd
  by unfold_locales (auto simp: getOrCreatePeer_inv dest: getOrCreatePeer_Some getOrCreatePeer_None)

lemma getOrCreatePeer_known:
  assumes "pc_inv nd st" and "map_of (peers st) i = Some p"
    and "i \<noteq> deviceId (myIdentity nd)" and "isPeerAllowed nd i" and "i \<noteq> IpAddress_default"
  shows "\<exists>st'. getOrCreatePeer nd i st = (Some p, st') \<and> heap st' = heap st \<and> peers st' = peers st \<and>
    draws st' = draws st"
  using assms by (auto simp: getOrCreatePeer_def getPeer_def pc_inv_def split: option.splits)

text \<open>A pointer once handed out for another address than the node's own keeps its meaning.\<close>

lemma getOrCreatePeer_stable:
  assumes inv: "pc_inv nd st" and known: "map_of (peers st) i = Some p" and ne: "i \<noteq> deviceId (myIdentity nd)"
    and "i \<noteq> IpAddress_default" and "isPeerAllowed nd i"
  shows "map_of (peers (snd (getOrCreatePeer nd j st))) i = Some p"
proof (cases "getPeer nd j st")
  case (Pair r st1)
  show ?thesis
  proof (cases r)
    case (Some q)
    then show ?thesis using Pair known getPeer_Some(3) [OF inv, of j q st1]
      by (simp add: getOrCreatePeer_def)
  next
    case None
    note none = getPeer_None [OF Pair [unfolded None]]
    show ?thesis
    proof (cases "createPeer nd j st1")
      case c: (Pair r2 st2)
      have "j \<noteq> i" using none assms by (auto simp: pc_inv_def)
      then show ?thesis
        using Pair None c none known createPeer_None [of nd j st1 st2]
          createPeer_Some(3) [of nd j st1 "the r2" st2]
        by (cases r2) (auto simp: getOrCreatePeer_def update_conv')
    qed
  qed
qed

section \<open>Properties\<close>

text \<open>\<open>getOrCreatePeer\<close> keeps the container's invariant (table and cache agree, every pointer
  is valid); when it returns a peer, the peer has the address asked for and is in the table
  under it; when it refuses, the peer is not allowed and nothing has changed.\<close>

theorem peer_container_coherent:
  assumes "pc_inv nd st"
  shows "pc_inv nd (snd (getOrCreatePeer nd i st)) \<and>
    (case getOrCreatePeer nd i st of
       (None, st') \<Rightarrow> st' = st \<and> \<not> isPeerAllowed nd i
     | (Some p, st') \<Rightarrow> p < length (heap st') \<and> peer_id (deref st' p) = i \<and>
         map_of (peers st') i = Some p \<and> take (length (heap st)) (heap st') = heap st)"
  using getOrCreatePeer_inv [OF assms, of i] getOrCreatePeer_Some [OF assms, of i]
    getOrCreatePeer_None [of nd i st]
  by (auto split: prod.split option.split)

theorem peer_container_coherent_witness:
  "let nd = \<lparr>node_crypto = toy_crypto, myIdentity = Identity_default, myFlags = 1, isPeerAllowed = \<lambda>_. True\<rparr>;
       i = IpAddress (replicate 16 7) in
   pc_inv nd (PeerContainer 0) \<and> pc_inv nd (snd (getOrCreatePeer nd i (PeerContainer 0)))"
  unfolding Let_def
  by (intro conjI pc_inv_PeerContainer peer_container_coherent [THEN conjunct1])

text \<open>The guard against connections to oneself does not work through \<open>getOrCreatePeer\<close>: for
  the node's own address, when it is allowed, \<open>getPeer\<close> refuses and \<open>getOrCreatePeer\<close> makes a new
  peer at every call, forgetting the one before.\<close>

theorem getOrCreatePeer_self:
  assumes "pc_inv nd st" and "isPeerAllowed nd (deviceId (myIdentity nd))"
    and "cachedPeerId st \<noteq> deviceId (myIdentity nd)"
  shows "getPeer nd (deviceId (myIdentity nd)) st = (None, st) \<and>
    fst (getOrCreatePeer nd (deviceId (myIdentity nd)) st) = Some (length (heap st)) \<and>
    length (heap (snd (getOrCreatePeer nd (deviceId (myIdentity nd)) st))) = length (heap st) + 1"
  using assms
  by (auto simp: getOrCreatePeer_def getPeer_def createPeer_def Let_def split: prod.split)

theorem getOrCreatePeer_self_witness:
  "let nd = \<lparr>node_crypto = toy_crypto, myIdentity = Identity_default\<lparr>deviceId := wildcard\<rparr>, myFlags = 1,
              isPeerAllowed = \<lambda>_. True\<rparr> in
   fst (getOrCreatePeer nd wildcard (PeerContainer 0)) = Some 0 \<and>
   cachedPeerId (PeerContainer 0) \<noteq> wildcard"
proof -
  let ?nd = "\<lparr>node_crypto = toy_crypto, myIdentity = Identity_default\<lparr>deviceId := wildcard\<rparr>, myFlags = 1,
              isPeerAllowed = \<lambda>_. True\<rparr>"
  have "cachedPeerId (PeerContainer 0) \<noteq> wildcard"
    by code_simp
  then show ?thesis
    using getOrCreatePeer_self [of ?nd "PeerContainer 0", OF pc_inv_PeerContainer]
    by (simp add: Let_def PeerContainer_def)
qed

text \<open>A peer in the one-entry cache is returned without consulting the policy, so a peer whose
  permission was withdrawn stays reachable until another peer replaces it in the cache.\<close>

theorem cached_peer_bypasses_policy:
  assumes "cachedPeerId st = i" and "cachedPeer st = Some p"
  shows "getOrCreatePeer (nd\<lparr>isPeerAllowed := \<lambda>_. False\<rparr>) i st = (Some p, st)"
  using assms by (simp add: getOrCreatePeer_def getPeer_def)

theorem cached_peer_bypasses_policy_witness:
  "getOrCreatePeer (\<lparr>node_crypto = toy_crypto, myIdentity = Identity_default, myFlags = 1,
       isPeerAllowed = \<lambda>_. False\<rparr>) wildcard
     ((PeerContainer 0)\<lparr>cachedPeerId := wildcard, cachedPeer := Some 0\<rparr>) =
   (Some 0, (PeerContainer 0)\<lparr>cachedPeerId := wildcard, cachedPeer := Some 0\<rparr>)"
  using cached_peer_bypasses_policy [of "(PeerContainer 0)\<lparr>cachedPeerId := wildcard, cachedPeer := Some 0\<rparr>"
      wildcard 0 "\<lparr>node_crypto = toy_crypto, myIdentity = Identity_default, myFlags = 1,
       isPeerAllowed = \<lambda>_. True\<rparr>"]
  by simp

end
