(* ===== verification/SecurityLayer.thy ===== *)
theory SecurityLayer
  imports Peers
begin

text \<open>
  \<open>security_layer.cpp\<close>: the layer that negotiates session keys with each peer and encrypts
  the traffic.  A handler returns the frames it hands to the neighbouring layers, in order,
  and the state after it; a failed assertion is \<open>None\<close>.  The frames are delivered to the
  neighbours after the handler (\<open>Stack\<close>): on its way down a frame makes the layer below write
  only fields of the shared peers that this layer neither reads nor writes.  The three scratch buffers are local to a call, their sizes are the constants.

  The results: the counters and queues of waiting packets obey an invariant in every reachable
  state; a handshake of two nodes ends with equal keys on both sides; a negotiation needs a
  signature by the key that belongs to the peer's address, the node's own address and the
  current sequence number, so it cannot be replayed; what is delivered upwards was encrypted
  with the negotiated key, and a payload within the size limits arrives unchanged.
\<close>

section \<open>Frames\<close>

datatype frame = ToLower HusarnetAddress bytes | ToUpper HusarnetAddress bytes

section \<open>State\<close>

record sec_state = pc_state +
  helloseq :: u64
  queuedPackets :: int

definition BOOT_ID_MASK :: u64 where
  "BOOT_ID_MASK = 0xFFFFFFFF00000000"

definition MAX_QUEUED_PACKETS :: int where
  "MAX_QUEUED_PACKETS = 10"

definition decryptedBuffer_size :: nat where
  "decryptedBuffer_size = 2000"

definition ciphertextBuffer_size :: nat where
  "ciphertextBuffer_size = 2100"

definition cleartextBuffer_size :: nat where
  "cleartextBuffer_size = 2010"

declare decryptedBuffer_size_def [code_unfold] ciphertextBuffer_size_def [code_unfold] cleartextBuffer_size_def [code_unfold]

definition SecurityLayer :: "node \<Rightarrow> nat \<Rightarrow> sec_state" where
  "SecurityLayer nd k =
     \<lparr>heap = [], peers = [], cachedPeer = None, cachedPeerId = IpAddress_default, draws = k + 1,
      helloseq = le_word (randombytes (node_crypto nd) k 8) AND BOOT_ID_MASK, queuedPackets = 0\<rparr>"

type_synonym 'a handled = "(frame list \<times> 'a) option"

section \<open>Operations\<close>

definition mixFlags :: "crypto \<Rightarrow> bytes \<Rightarrow> u64 \<Rightarrow> u64 \<Rightarrow> bytes" where
  "mixFlags c key flags1 flags2 = sha256 c (key @ pack flags1 @ pack flags2)"

definition sendHelloPacket :: "node \<Rightarrow> nat \<Rightarrow> nat \<Rightarrow> u64 \<Rightarrow> 'a sec_state_scheme \<Rightarrow> frame option" where
  "sendHelloPacket nd p num seq st =
     (if \<not> (num = 1 \<or> num = 2 \<or> num = 3) then None
      else
        let peer = deref st p;
            packet = [word_of_nat num] @ pubkey (myIdentity nd) @ kxPubkey peer @ ip_data (peer_id peer) @
              pack (helloseq st) @ pack seq @ pack (myFlags nd)
        in Some (ToLower (peer_id peer)
             (packet @ ngc_sign (node_crypto nd) packet (str ''ng-kx-pubkey'') (myIdentity nd))))"

definition doSendDataPacket :: "node \<Rightarrow> nat \<Rightarrow> bytes \<Rightarrow> 'a sec_state_scheme \<Rightarrow> 'a sec_state_scheme handled" where
  "doSendDataPacket nd p d st =
     (let seqnum = (0 :: u64); cleartextSize = length d + 8;
          ciphertextSize = 1 + 24 + 16 + cleartextSize
      in
      if \<not> length d < 10240 then None
      else if length d \<ge> cleartextBuffer_size then Some ([], st)
      else if cleartextSize \<ge> cleartextBuffer_size then Some ([], st)
      else if ciphertextSize \<ge> ciphertextBuffer_size then Some ([], st)
      else
        let c = node_crypto nd; nonce = randombytes c (draws st) 24; peer = deref st p in
        Some ([ToLower (peer_id peer) ([0] @ nonce @ secretbox c (txKey peer) nonce (pack seqnum @ d))],
              st\<lparr>draws := draws st + 1\<rparr>))"

primrec flushQueue :: "node \<Rightarrow> nat \<Rightarrow> bytes list \<Rightarrow> 'a sec_state_scheme \<Rightarrow> 'a sec_state_scheme handled" where
  "flushQueue nd p [] st = Some ([], st)"
| "flushQueue nd p (packet # queue) st = do {
     (out1, st1) \<leftarrow> doSendDataPacket nd p packet (st\<lparr>queuedPackets := queuedPackets st - 1\<rparr>);
     (out2, st2) \<leftarrow> flushQueue nd p queue st1;
     Some (out1 @ out2, st2)
   }"

definition finishNegotiation :: "node \<Rightarrow> nat \<Rightarrow> 'a sec_state_scheme \<Rightarrow> 'a sec_state_scheme handled" where
  "finishNegotiation nd p st = do {
     (out, st) \<leftarrow> flushQueue nd p (packetQueue (deref st p)) (modify p (negotiated_update (\<lambda>_. True)) st);
     Some (out, modify p (packetQueue_update (\<lambda>_. [])) st)
   }"

definition onUpperLayerData_sec ::
  "node \<Rightarrow> HusarnetAddress \<Rightarrow> bytes \<Rightarrow> 'a sec_state_scheme \<Rightarrow> 'a sec_state_scheme handled" where
  "onUpperLayerData_sec nd target d st =
     (case getOrCreatePeer nd target st of
        (None, st) \<Rightarrow> Some ([], st)
      | (Some p, st) \<Rightarrow>
          if negotiated (deref st p) then doSendDataPacket nd p d st
          else
            let st = (if queuedPackets st < MAX_QUEUED_PACKETS
                      then modify p (packetQueue_update (\<lambda>q. q @ [d])) (st\<lparr>queuedPackets := queuedPackets st + 1\<rparr>)
                      else st)
            in do { f \<leftarrow> sendHelloPacket nd p 1 0 st; Some ([f], st) })"

definition handleDataPacket ::
  "node \<Rightarrow> int \<Rightarrow> HusarnetAddress \<Rightarrow> bytes \<Rightarrow> 'a sec_state_scheme \<Rightarrow> 'a sec_state_scheme handled" where
  "handleDataPacket nd now i d st =
     (let headerSize = 1 + 24 + 16 in
      if length d \<le> headerSize + 8 then Some ([], st)
      else case getOrCreatePeer nd i st of
        (None, st) \<Rightarrow> Some ([], st)
      | (Some p, st) \<Rightarrow>
          if \<not> negotiated (deref st p) then do { f \<leftarrow> sendHelloPacket nd p 1 0 st; Some ([f], st) }
          else
            let decryptedSize = length d - headerSize in
            if decryptedBuffer_size < decryptedSize then Some ([], st)
            else
              let r = secretbox_open (node_crypto nd) (rxKey (deref st p)) (chunk 1 24 d) (drop 25 d) in
              if decryptedSize \<le> 8 then Some ([], st)
              else (case r of
                  Some decryptedBuffer \<Rightarrow>
                    Some ([ToUpper i (chunk 8 (decryptedSize - 8) decryptedBuffer)],
                          modify p (lastValidPacket_update (\<lambda>_. now)) st)
                | None \<Rightarrow> Some ([], st)))"

text \<open>
  The branch of \<open>handleHelloPacket\<close> after the checks: the key exchange, with the result
  written to the peer even when it fails, and the completion of the negotiation.
\<close>

definition exchangeKeys ::
  "node \<Rightarrow> HusarnetAddress \<Rightarrow> bytes \<Rightarrow> u64 \<Rightarrow> nat \<Rightarrow> 'a sec_state_scheme \<Rightarrow> bool \<times> 'a sec_state_scheme" where
  "exchangeKeys nd target peerKxPubkey flags_bin p st =
     (let c = node_crypto nd;
          st = modify p (peer_flags_update (\<lambda>_. flags_bin)) st;
          peer = deref st p;
          (r, rx, tx) =
            (if target < deviceId (myIdentity nd)
             then kx_client c (rxKey peer, txKey peer) (kxPubkey peer) (kxPrivkey peer) peerKxPubkey
             else kx_server c (rxKey peer, txKey peer) (kxPubkey peer) (kxPrivkey peer) peerKxPubkey);
          (rx, tx) =
            (if flags_bin \<noteq> 0 then (mixFlags c rx flags_bin (myFlags nd), mixFlags c tx (myFlags nd) flags_bin)
             else (rx, tx))
      in (r, modify p (\<lambda>peer. peer\<lparr>rxKey := rx, txKey := tx\<rparr>) st))"

definition handleHelloPacket ::
  "node \<Rightarrow> HusarnetAddress \<Rightarrow> bytes \<Rightarrow> nat \<Rightarrow> 'a sec_state_scheme \<Rightarrow> 'a sec_state_scheme handled" where
  "handleHelloPacket nd target d helloNum st =
     (let dataLen = 65 + 16 + 16; c = node_crypto nd in
      if length d < dataLen + 64 then Some ([], st)
      else case getOrCreatePeer nd target st of
        (None, st) \<Rightarrow> Some ([], st)
      | (Some p, st) \<Rightarrow> do {
          incomingPubkey \<leftarrow> substr 1 32 d;
          peerKxPubkey \<leftarrow> substr 33 32 d;
          targetId \<leftarrow> substr 65 16 d;
          yourHelloseq \<leftarrow> Option.bind (substr (65 + 16) 8 d) unpack;
          myHelloseq \<leftarrow> Option.bind (substr (65 + 24) 8 d) unpack;
          signature \<leftarrow> Option.bind (sv_substr d (int (length d) - 64)) (fstring 64);
          flags_bin \<leftarrow> (if length d \<ge> 64 + 65 + 32 + 8 then Option.bind (substr (65 + 32) 8 d) unpack
                        else Some 0);
          signed \<leftarrow> sv_substr2 d 0 (int (length d) - 64);
          if IpAddress targetId \<noteq> deviceId (myIdentity nd) then Some ([], st)
          else if pubkeyToDeviceId c incomingPubkey \<noteq> target then Some ([], st)
          else if \<not> verifySignature c signed (str ''ng-kx-pubkey'') incomingPubkey signature then Some ([], st)
          else if helloNum = 1 then do { f \<leftarrow> sendHelloPacket nd p 2 yourHelloseq st; Some ([f], st) }
          else if myHelloseq \<noteq> helloseq st then Some ([], st)
          else
            let (r, st) = exchangeKeys nd target peerKxPubkey flags_bin p st in
            if \<not> r then Some ([], st)
            else do {
              (out, st) \<leftarrow> finishNegotiation nd p st;
              let st = st\<lparr>helloseq := helloseq st + 1\<rparr>;
              if helloNum = 2
              then do { f \<leftarrow> sendHelloPacket nd p 3 yourHelloseq st; Some (out @ [f], st) }
              else Some (out, st)
            }
        })"

definition handleHeartbeat :: "HusarnetAddress \<Rightarrow> bytes \<Rightarrow> frame" where
  "handleHeartbeat source ident = ToLower source ([5] @ ident)"

definition handleHeartbeatReply ::
  "node \<Rightarrow> int \<Rightarrow> HusarnetAddress \<Rightarrow> bytes \<Rightarrow> 'a sec_state_scheme \<Rightarrow> 'a sec_state_scheme" where
  "handleHeartbeatReply nd now source ident st =
     (case getOrCreatePeer nd source st of
        (None, st) \<Rightarrow> st
      | (Some p, st) \<Rightarrow>
          if ident = heartbeatIdent (deref st p)
          then modify p (\<lambda>peer. peer\<lparr>lastLatencyReceived := now,
                 latency := signed_take_bit 31 (now - lastLatencySent peer)\<rparr>) st
          else st)"

definition getLatency ::
  "node \<Rightarrow> int \<Rightarrow> int \<Rightarrow> HusarnetAddress \<Rightarrow> 'a sec_state_scheme \<Rightarrow> int \<times> frame list \<times> 'a sec_state_scheme" where
  "getLatency nd now now' i st =
     (case getOrCreatePeer nd i st of
        (None, st) \<Rightarrow> (-1, [], st)
      | (Some p, st) \<Rightarrow>
          let (ident, k) = generateRandomString (uni_az (node_crypto nd)) (draws st) 8;
              st = modify p (\<lambda>peer. peer\<lparr>heartbeatIdent := ident, lastLatencySent := now\<rparr>) (st\<lparr>draws := k\<rparr>);
              out = [ToLower (peer_id (deref st p)) ([4] @ ident)]
          in if lastLatencyReceived (deref st p) + 10000 < now' then (-1, out, st)
             else (latency (deref st p), out, st))"

definition onLowerLayerData_sec ::
  "node \<Rightarrow> int \<Rightarrow> HusarnetAddress \<Rightarrow> bytes \<Rightarrow> 'a sec_state_scheme \<Rightarrow> 'a sec_state_scheme handled" where
  "onLowerLayerData_sec nd now i d st =
     (if length d \<ge> decryptedBuffer_size then Some ([], st)
      else do {
        d0 \<leftarrow> sv_index d 0;
        if d0 = 0 then
          if length d \<le> 25 then Some ([], st) else handleDataPacket nd now i d st
        else if d0 = 1 \<or> d0 = 2 \<or> d0 = 3 then
          if length d \<le> 25 then Some ([], st) else handleHelloPacket nd i d (unat d0) st
        else if d0 = 4 \<or> d0 = 5 then
          if length d < 9 then Some ([], st)
          else do {
            ident \<leftarrow> substr 1 8 d;
            if d0 = 4 then Some ([handleHeartbeat i ident], st)
            else Some ([], handleHeartbeatReply nd now i ident st)
          }
        else Some ([], st)
      })"

section \<open>Hello packets\<close>

text \<open>The fields of a hello packet, and the checks it has to pass.\<close>

definition hello_signed :: "bytes \<Rightarrow> bytes" where
  "hello_signed d = take (length d - 64) d"

definition hello_flags :: "bytes \<Rightarrow> u64" where
  "hello_flags d = (if length d \<ge> 169 then le_word (chunk 97 8 d) else 0)"

definition hello_accepted :: "node \<Rightarrow> HusarnetAddress \<Rightarrow> bytes \<Rightarrow> bool" where
  "hello_accepted nd target d \<longleftrightarrow>
     IpAddress (chunk 65 16 d) = deviceId (myIdentity nd) \<and>
     pubkeyToDeviceId (node_crypto nd) (chunk 1 32 d) = target \<and>
     verifySignature (node_crypto nd) (hello_signed d) (str ''ng-kx-pubkey'') (chunk 1 32 d)
       (drop (length d - 64) d)"

abbreviation hello_yourseq :: "bytes \<Rightarrow> u64" where
  "hello_yourseq d \<equiv> le_word (chunk 81 8 d)"

abbreviation hello_myseq :: "bytes \<Rightarrow> u64" where
  "hello_myseq d \<equiv> le_word (chunk 89 8 d)"

text \<open>What an accepted hello packet makes the node do, once its peer is known.\<close>

definition hello_effect ::
  "node \<Rightarrow> HusarnetAddress \<Rightarrow> bytes \<Rightarrow> nat \<Rightarrow> nat \<Rightarrow> 'a sec_state_scheme \<Rightarrow> 'a sec_state_scheme handled" where
  "hello_effect nd target d n p st =
     (if n = 1 then map_option (\<lambda>f. ([f], st)) (sendHelloPacket nd p 2 (hello_yourseq d) st)
      else if hello_myseq d \<noteq> helloseq st then Some ([], st)
      else case exchangeKeys nd target (chunk 33 32 d) (hello_flags d) p st of (r, st) \<Rightarrow>
        if \<not> r then Some ([], st)
        else (case finishNegotiation nd p st of
            None \<Rightarrow> None
          | Some (out, st) \<Rightarrow>
              let st = st\<lparr>helloseq := helloseq st + 1\<rparr> in
              if n = 2
              then map_option (\<lambda>f. (out @ [f], st)) (sendHelloPacket nd p 3 (hello_yourseq d) st)
              else Some (out, st)))"

lemma handleHelloPacket_eq:
  "handleHelloPacket nd target d n st =
     (if length d < 161 then Some ([], st)
      else case getOrCreatePeer nd target st of
        (None, st) \<Rightarrow> Some ([], st)
      | (Some p, st) \<Rightarrow> if hello_accepted nd target d then hello_effect nd target d n p st else Some ([], st))"
proof (cases "length d < 161")
  case True
  then show ?thesis by (simp add: handleHelloPacket_def)
next
  case False
  have sub: "substr 1 32 d = Some (chunk 1 32 d)" "substr 33 32 d = Some (chunk 33 32 d)"
    "substr 65 16 d = Some (chunk 65 16 d)" "substr (65 + 16) 8 d = Some (chunk 81 8 d)"
    "substr (65 + 24) 8 d = Some (chunk 89 8 d)"
    using False by simp_all
  have up: "unpack (chunk 81 8 d) = Some (le_word (chunk 81 8 d) :: u64)"
    "unpack (chunk 89 8 d) = Some (le_word (chunk 89 8 d) :: u64)"
    using False by (simp_all add: unpack_def)
  have fl: "(if length d \<ge> 64 + 65 + 32 + 8 then Option.bind (substr (65 + 32) 8 d) unpack else Some 0) =
      Some (hello_flags d)"
    by (simp add: hello_flags_def unpack_def)
  have sg: "Option.bind (sv_substr d (int (length d) - 64)) (fstring 64) = Some (drop (length d - 64) d)"
    using False by (simp add: sv_substr_def fstring_def nat_diff_distrib)
  have sd: "sv_substr2 d 0 (int (length d) - 64) = Some (hello_signed d)"
    using False by (simp add: sv_substr2_def hello_signed_def chunk_def nat_diff_distrib)
  have "handleHelloPacket nd target d n st =
    (case getOrCreatePeer nd target st of
        (None, st) \<Rightarrow> Some ([], st)
      | (Some p, st) \<Rightarrow>
        (if IpAddress (chunk 65 16 d) \<noteq> deviceId (myIdentity nd) then Some ([], st)
          else if pubkeyToDeviceId (node_crypto nd) (chunk 1 32 d) \<noteq> target then Some ([], st)
          else if \<not> verifySignature (node_crypto nd) (hello_signed d) (str ''ng-kx-pubkey'') (chunk 1 32 d)
            (drop (length d - 64) d) then Some ([], st)
          else hello_effect nd target d n p st))"
    using False unfolding handleHelloPacket_def Let_def hello_effect_def sub up fl sg sd
    by (auto simp: up bind_eq_Some_conv split: prod.splits option.splits Option.bind_splits cong: if_cong)
  then show ?thesis using False by (auto simp: hello_accepted_def split: prod.splits option.splits)
qed

section \<open>Effects on the state\<close>

lemma getOrCreatePeer_frame:
  assumes "getOrCreatePeer nd i st = (r, st')"
  shows "helloseq (st' :: 'a sec_state_scheme) = helloseq st" "queuedPackets st' = queuedPackets st"
  using assms
  by (auto simp: getOrCreatePeer_def getPeer_def createPeer_def Let_def split: prod.splits if_splits option.splits)

lemma getOrCreatePeer_heap:
  assumes "getOrCreatePeer nd i st = (r, st')"
  shows "\<exists>xs. heap st' = heap st @ xs \<and> (\<forall>x \<in> set xs. \<not> negotiated x \<and> packetQueue x = [] \<and>
    sourceAddresses x = [])"
  using assms
  by (auto simp: getOrCreatePeer_def getPeer_def createPeer_def Peer_new_def Let_def
      split: prod.splits if_splits option.splits)

lemma doSendDataPacket_Some:
  "doSendDataPacket nd p d st = Some (out, st') \<Longrightarrow> \<exists>k. st' = st\<lparr>draws := k\<rparr>"
  by (auto simp: doSendDataPacket_def Let_def split: if_splits intro: exI [of _ "draws st"])

lemma doSendDataPacket_total:
  "length d < 10240 \<Longrightarrow> \<exists>r. doSendDataPacket nd p d st = Some r"
  by (simp add: doSendDataPacket_def Let_def)

lemma flushQueue_Some:
  "flushQueue nd p q st = Some (out, st') \<Longrightarrow>
     \<exists>k. st' = st\<lparr>queuedPackets := queuedPackets st - int (length q), draws := k\<rparr>"
proof (induction q arbitrary: st out st')
  case Nil
  then show ?case by (auto intro: exI [of _ "draws st'"])
next
  case (Cons d q)
  obtain out1 st1 out2 where 1: "doSendDataPacket nd p d (st\<lparr>queuedPackets := queuedPackets st - 1\<rparr>) = Some (out1, st1)"
    and 2: "flushQueue nd p q st1 = Some (out2, st')"
    using Cons.prems by (auto simp: bind_eq_Some_conv)
  show ?case using doSendDataPacket_Some [OF 1] Cons.IH [OF 2] by (auto simp: algebra_simps)
qed

lemma flushQueue_total:
  "\<forall>x \<in> set q. length x < 10240 \<Longrightarrow> \<exists>r. flushQueue nd p q st = Some r"
proof (induction q arbitrary: st)
  case (Cons d q)
  obtain out1 st1 where "doSendDataPacket nd p d (st\<lparr>queuedPackets := queuedPackets st - 1\<rparr>) = Some (out1, st1)"
    using doSendDataPacket_total [of d nd p] Cons.prems by fastforce
  moreover obtain out2 st2 where "flushQueue nd p q st1 = Some (out2, st2)"
    using Cons by fastforce
  ultimately show ?case by simp
qed simp

lemma modify_modify: "p < length (heap st) \<Longrightarrow> modify p g (modify p f st) = modify p (\<lambda>x. g (f x)) st"
  by (simp add: modify_def)

lemma modify_queuedPackets [simp]:
  "helloseq (modify p f (st :: 'a sec_state_scheme)) = helloseq st" "queuedPackets (modify p f st) = queuedPackets st"
  by (simp_all add: modify_def)

lemma finishNegotiation_Some:
  assumes "finishNegotiation nd p st = Some (out, st')" and "p < length (heap st)"
  shows "\<exists>k. st' = modify p (\<lambda>x. x\<lparr>negotiated := True, packetQueue := []\<rparr>)
    (st\<lparr>queuedPackets := queuedPackets st - int (length (packetQueue (deref st p))), draws := k\<rparr>)"
proof -
  let ?st = "modify p (negotiated_update (\<lambda>_. True)) st"
  obtain st1 where f: "flushQueue nd p (packetQueue (deref st p)) ?st = Some (out, st1)"
    and st': "st' = modify p (packetQueue_update (\<lambda>_. [])) st1"
    using assms(1) by (auto simp: finishNegotiation_def bind_eq_Some_conv)
  obtain k where "st1 = ?st\<lparr>queuedPackets := queuedPackets ?st - int (length (packetQueue (deref st p))), draws := k\<rparr>"
    using flushQueue_Some [OF f] by blast
  then show ?thesis using assms(2) st' by (auto simp: modify_def intro!: exI [of _ k])
qed

lemma finishNegotiation_total:
  "\<forall>x \<in> set (packetQueue (deref st p)). length x < 10240 \<Longrightarrow> \<exists>r. finishNegotiation nd p st = Some r"
  using flushQueue_total [of "packetQueue (deref st p)" nd p "modify p (negotiated_update (\<lambda>_. True)) st"]
  by (auto simp: finishNegotiation_def)

lemma exchangeKeys_eq:
  assumes "exchangeKeys nd i pk fl p st = (r, st')" and "p < length (heap st)"
  shows "\<exists>rx tx. st' = modify p (\<lambda>x. x\<lparr>peer_flags := fl, rxKey := rx, txKey := tx\<rparr>) st"
  using assms
  by (auto simp: exchangeKeys_def Let_def modify_modify split: prod.splits if_splits)

section \<open>The invariant of the waiting packets\<close>

definition waiting :: "peer list \<Rightarrow> int" where
  "waiting h = sum_list (map (\<lambda>x. int (length (packetQueue x))) h)"

definition queue_ok :: "peer \<Rightarrow> bool" where
  "queue_ok x \<longleftrightarrow> (negotiated x \<longrightarrow> packetQueue x = []) \<and> list_all (\<lambda>q. length q < 10240) (packetQueue x)"

definition sec_inv :: "node \<Rightarrow> 'a sec_state_scheme \<Rightarrow> bool" where
  "sec_inv nd st \<longleftrightarrow>
     pc_inv nd st \<and> list_all queue_ok (heap st) \<and>
     queuedPackets st = waiting (heap st) \<and> queuedPackets st \<le> MAX_QUEUED_PACKETS"

lemma waiting_append: "waiting (xs @ ys) = waiting xs + waiting ys"
  by (simp add: waiting_def)

lemma waiting_nonneg: "0 \<le> waiting h"
  unfolding waiting_def by (rule sum_list_nonneg) auto

lemma waiting_update:
  "p < length h \<Longrightarrow>
   waiting (h[p := x]) = waiting h - int (length (packetQueue (h ! p))) + int (length (packetQueue x))"
proof (induction h arbitrary: p)
  case (Cons y h)
  then show ?case by (cases p) (simp_all add: waiting_def)
qed simp

lemma list_all_update: "list_all P h \<Longrightarrow> P x \<Longrightarrow> list_all P (h[p := x])"
  by (auto simp: list_all_iff dest: set_update_subset_insert [THEN subsetD])

lemma waiting_fresh: "\<forall>x \<in> set xs. packetQueue x = [] \<Longrightarrow> waiting xs = 0"
  by (induction xs) (simp_all add: waiting_def)

lemma getOrCreatePeer_sec_inv:
  assumes "sec_inv nd st" and "getOrCreatePeer nd i st = (r, st')"
  shows "sec_inv nd st'"
proof -
  obtain xs where xs: "heap st' = heap st @ xs"
    "\<forall>x \<in> set xs. \<not> negotiated x \<and> packetQueue x = [] \<and> sourceAddresses x = []"
    using getOrCreatePeer_heap [OF assms(2)] by blast
  have "pc_inv nd st'" using assms getOrCreatePeer_inv [of nd st i] by (simp add: sec_inv_def)
  moreover have "list_all queue_ok xs" using xs(2) by (simp add: list_all_iff queue_ok_def)
  ultimately show ?thesis
    using assms xs waiting_fresh [of xs]
    by (simp add: sec_inv_def getOrCreatePeer_frame [OF assms(2)] waiting_append)
qed

lemma modify_sec_inv:
  assumes "sec_inv nd st" and "p < length (heap st)"
    and "peer_id (f (deref st p)) = peer_id (deref st p)"
    and "packetQueue (f (deref st p)) = packetQueue (deref st p)"
    and "negotiated (f (deref st p)) \<Longrightarrow> negotiated (deref st p)"
  shows "sec_inv nd (modify p f st)"
proof -
  have "queue_ok (f (deref st p))" using assms by (auto simp: sec_inv_def queue_ok_def list_all_length)
  moreover have "pc_inv nd (modify p f st)"
    using assms by (fastforce simp: sec_inv_def pc_inv_def deref_modify)
  ultimately show ?thesis
    using assms by (simp add: sec_inv_def list_all_update waiting_update, simp add: modify_def list_all_update waiting_update)
qed


lemma sendHelloPacket_total: "num \<in> {1, 2, 3} \<Longrightarrow> \<exists>f. sendHelloPacket nd p num seq st = Some f"
  by (auto simp: sendHelloPacket_def Let_def)

lemma sec_inv_update:
  "sec_inv nd (st\<lparr>draws := k\<rparr>) = sec_inv nd st" "sec_inv nd (st\<lparr>helloseq := h\<rparr>) = sec_inv nd st"
  by (simp_all add: sec_inv_def pc_inv_def)

text \<open>
  Each handler returns, and keeps the invariant; \<open>returns_inv\<close> says both.
\<close>

definition returns_inv :: "node \<Rightarrow> 'a sec_state_scheme handled \<Rightarrow> bool" where
  "returns_inv nd r \<longleftrightarrow> (\<exists>out st. r = Some (out, st) \<and> sec_inv nd st)"

lemma returns_invI: "sec_inv nd st \<Longrightarrow> returns_inv nd (Some (out, st))"
  by (simp add: returns_inv_def)

lemma doSendDataPacket_inv:
  assumes "sec_inv nd st" and "length d < 10240"
  shows "returns_inv nd (doSendDataPacket nd p d st)"
proof -
  obtain out st' where "doSendDataPacket nd p d st = Some (out, st')"
    using doSendDataPacket_total [OF assms(2), of nd p st] by auto
  moreover from doSendDataPacket_Some [OF this] have "sec_inv nd st'"
    using assms(1) by (auto simp: sec_inv_update)
  ultimately show ?thesis by (simp add: returns_inv_def)
qed

lemma finishNegotiation_inv:
  assumes inv: "sec_inv nd st" and p: "p < length (heap st)"
  shows "returns_inv nd (finishNegotiation nd p st)"
proof -
  have q: "queue_ok (deref st p)" using assms by (simp add: sec_inv_def list_all_length)
  then obtain out st' where f: "finishNegotiation nd p st = Some (out, st')"
    using finishNegotiation_total [of st p nd] by (auto simp: queue_ok_def list_all_iff)
  obtain k where st': "st' = modify p (\<lambda>x. x\<lparr>negotiated := True, packetQueue := []\<rparr>)
    (st\<lparr>queuedPackets := queuedPackets st - int (length (packetQueue (deref st p))), draws := k\<rparr>)"
    using finishNegotiation_Some [OF f p] by blast
  let ?x = "(deref st p)\<lparr>negotiated := True, packetQueue := []\<rparr>"
  have "pc_inv nd st'" unfolding st' using inv by (intro modify_inv) (auto simp: sec_inv_def pc_inv_def)
  moreover have "list_all queue_ok ((heap st)[p := ?x])"
    using inv by (intro list_all_update) (auto simp: sec_inv_def queue_ok_def)
  ultimately have "sec_inv nd st'"
    using inv p by (simp add: sec_inv_def st' modify_def waiting_update)
  then show ?thesis by (simp add: returns_inv_def f)
qed

lemma exchangeKeys_inv:
  assumes "sec_inv nd st" and "p < length (heap st)" and "exchangeKeys nd i pk fl p st = (r, st')"
  shows "sec_inv nd st' \<and> length (heap st') = length (heap st)"
  using exchangeKeys_eq [OF assms(3,2)] assms(1,2) by (auto intro!: modify_sec_inv)

lemma hello_effect_inv:
  assumes inv: "sec_inv nd st" and p: "p < length (heap st)"
  shows "returns_inv nd (hello_effect nd target d n p st)"
proof -
  obtain r st1 where x: "exchangeKeys nd target (chunk 33 32 d) (hello_flags d) p st = (r, st1)"
    by (cases "exchangeKeys nd target (chunk 33 32 d) (hello_flags d) p st")
  note st1 = exchangeKeys_inv [OF inv p x]
  obtain out st2 where f: "finishNegotiation nd p st1 = Some (out, st2)" and st2: "sec_inv nd st2"
    using finishNegotiation_inv [of nd st1 p] st1 p by (auto simp: returns_inv_def)
  obtain f2 where f2: "sendHelloPacket nd p 2 (hello_yourseq d) st = Some f2"
    using sendHelloPacket_total [of 2 nd p "hello_yourseq d" st] by auto
  obtain f3 where f3: "sendHelloPacket nd p 3 (hello_yourseq d) (st2\<lparr>helloseq := helloseq st2 + 1\<rparr>) = Some f3"
    using sendHelloPacket_total [of 3 nd p "hello_yourseq d" "st2\<lparr>helloseq := helloseq st2 + 1\<rparr>"] by auto
  show ?thesis
  proof (cases "n = 1 \<or> hello_myseq d \<noteq> helloseq st \<or> \<not> r")
    case True
    then show ?thesis
      unfolding hello_effect_def x prod.case f2
      by (elim disjE) (simp_all add: returns_inv_def inv st1)
  next
    case False
    then show ?thesis
      unfolding hello_effect_def x prod.case f option.case Let_def f3
      by (simp add: returns_inv_def sec_inv_update st2)
  qed
qed

lemma handleHelloPacket_inv:
  assumes "sec_inv nd st"
  shows "returns_inv nd (handleHelloPacket nd target d n st)"
proof -
  have pc: "pc_inv nd st" using assms by (simp add: sec_inv_def)
  have "returns_inv nd (case getOrCreatePeer nd target st of (None, st) \<Rightarrow> Some ([], st)
      | (Some p, st) \<Rightarrow> if hello_accepted nd target d then hello_effect nd target d n p st else Some ([], st))"
    by (rule pc.with_peer [OF pc])
      (auto intro!: returns_invI hello_effect_inv assms getOrCreatePeer_sec_inv [OF assms])
  then show ?thesis using assms by (simp add: handleHelloPacket_eq returns_invI)
qed

lemma returns_hello:
  "sec_inv nd st \<Longrightarrow> returns_inv nd (Option.bind (sendHelloPacket nd p (Suc 0) 0 st) (\<lambda>f. Some ([f], st)))"
  by (simp add: sendHelloPacket_def Let_def returns_inv_def)

lemma handleDataPacket_inv:
  assumes "sec_inv nd st"
  shows "returns_inv nd (handleDataPacket nd now i d st)"
proof -
  have pc: "pc_inv nd st" using assms by (simp add: sec_inv_def)
  note g = getOrCreatePeer_sec_inv [OF assms]
  show ?thesis
    unfolding handleDataPacket_def Let_def
    by (rule if_split [THEN iffD2], intro conjI impI returns_invI [OF assms],
        rule pc.with_peer [OF pc])
      (use g in \<open>auto intro!: returns_invI returns_hello modify_sec_inv assms split: option.split\<close>)
qed

lemma handleHeartbeatReply_inv:
  assumes "sec_inv nd st"
  shows "sec_inv nd (handleHeartbeatReply nd now i ident st)"
proof -
  have pc: "pc_inv nd st" using assms by (simp add: sec_inv_def)
  show ?thesis
    unfolding handleHeartbeatReply_def
    by (rule pc.with_peer [OF pc])
      (use getOrCreatePeer_sec_inv [OF assms] in \<open>auto intro!: modify_sec_inv assms\<close>)
qed


lemma onLowerLayerData_sec_inv:
  assumes "sec_inv nd st" and "d \<noteq> []"
  shows "returns_inv nd (onLowerLayerData_sec nd now i d st)"
  using assms
  by (auto simp: onLowerLayerData_sec_def sv_index_def handleHeartbeatReply_inv
      intro!: returns_invI handleDataPacket_inv handleHelloPacket_inv)

lemma onUpperLayerData_sec_inv:
  assumes inv: "sec_inv nd st" and len: "length d < 10240"
  shows "returns_inv nd (onUpperLayerData_sec nd i d st)"
proof -
  have pc: "pc_inv nd st" using assms by (simp add: sec_inv_def)
  have push: "sec_inv nd (modify p (packetQueue_update (\<lambda>q. q @ [d])) (st\<lparr>queuedPackets := queuedPackets st + 1\<rparr>))"
    if st: "sec_inv nd st" "p < length (heap st)" "\<not> negotiated (deref st p)"
      "queuedPackets st < MAX_QUEUED_PACKETS" for p and st :: "'a sec_state_scheme"
  proof -
    let ?x = "packetQueue_update (\<lambda>q. q @ [d]) (deref st p)"
    have "pc_inv nd (modify p (packetQueue_update (\<lambda>q. q @ [d])) (st\<lparr>queuedPackets := queuedPackets st + 1\<rparr>))"
      using st(1) by (intro modify_inv) (auto simp: sec_inv_def pc_inv_def)
    moreover have "list_all queue_ok ((heap st)[p := ?x])"
    proof (rule list_all_update)
      have "queue_ok (deref st p)" using st(1,2) by (simp add: sec_inv_def list_all_length)
      then show "queue_ok ?x" using st(3) len by (simp add: queue_ok_def)
    qed (use st(1) in \<open>simp add: sec_inv_def\<close>)
    ultimately show ?thesis
      using st by (simp add: sec_inv_def modify_def waiting_update)
  qed
  show ?thesis
    unfolding onUpperLayerData_sec_def Let_def
    by (rule pc.with_peer [OF pc])
      (use getOrCreatePeer_sec_inv [OF inv] push len in
        \<open>auto intro!: returns_invI returns_hello doSendDataPacket_inv inv\<close>)
qed

lemma getLatency_inv:
  assumes "sec_inv nd st"
  shows "sec_inv nd (snd (snd (getLatency nd now now' i st)))"
proof -
  have pc: "pc_inv nd st" using assms by (simp add: sec_inv_def)
  show ?thesis
    unfolding getLatency_def
    by (rule pc.with_peer [OF pc, where Q = "\<lambda>r. sec_inv nd (snd (snd r))"])
      (use getOrCreatePeer_sec_inv [OF assms] in
        \<open>auto simp: Let_def sec_inv_update intro!: modify_sec_inv assms split: prod.split\<close>)
qed

section \<open>Reachable states\<close>

text \<open>
  The events a node's security layer handles, in any order: frames from above and below and
  latency requests, under a policy that may change from one event to the next.
\<close>

inductive sec_step :: "node \<Rightarrow> sec_state \<Rightarrow> sec_state \<Rightarrow> bool" for nd where
  upper: "onUpperLayerData_sec (nd\<lparr>isPeerAllowed := allowed\<rparr>) i d st = Some (out, st') \<Longrightarrow>
    length d < 10240 \<Longrightarrow> sec_step nd st st'"
| lower: "onLowerLayerData_sec (nd\<lparr>isPeerAllowed := allowed\<rparr>) now i d st = Some (out, st') \<Longrightarrow> sec_step nd st st'"
| ping: "getLatency (nd\<lparr>isPeerAllowed := allowed\<rparr>) now now' i st = (r, out, st') \<Longrightarrow> sec_step nd st st'"

inductive sec_reachable :: "node \<Rightarrow> sec_state \<Rightarrow> bool" for nd where
  start: "sec_reachable nd (SecurityLayer nd k)"
| step: "sec_reachable nd st \<Longrightarrow> sec_step nd st st' \<Longrightarrow> sec_reachable nd st'"

lemma sec_inv_policy: "sec_inv (nd\<lparr>isPeerAllowed := allowed\<rparr>) st = sec_inv nd st"
  by (simp add: sec_inv_def pc_inv_def)

lemma onLowerLayerData_sec_Nil: "onLowerLayerData_sec nd now i [] st = None"
  by (simp add: onLowerLayerData_sec_def decryptedBuffer_size_def sv_index_def)

lemma sec_step_inv: "sec_step nd st st' \<Longrightarrow> sec_inv nd st \<Longrightarrow> sec_inv nd st'"
proof (induction rule: sec_step.induct)
  case (upper allowed i d st out st')
  then show ?case
    using onUpperLayerData_sec_inv [of "nd\<lparr>isPeerAllowed := allowed\<rparr>" st d i]
    by (simp add: returns_inv_def sec_inv_policy)
next
  case (lower allowed now i d st out st')
  have "d \<noteq> []" using lower(1) by (auto simp: onLowerLayerData_sec_Nil)
  then show ?case
    using lower onLowerLayerData_sec_inv [of "nd\<lparr>isPeerAllowed := allowed\<rparr>" st d now i]
    by (simp add: returns_inv_def sec_inv_policy)
next
  case (ping allowed now now' i st r out st')
  then show ?case
    using getLatency_inv [of "nd\<lparr>isPeerAllowed := allowed\<rparr>" st now now' i] by (simp add: sec_inv_policy)
qed

lemma sec_reachable_inv: "sec_reachable nd st \<Longrightarrow> sec_inv nd st"
proof (induction rule: sec_reachable.induct)
  case (start k)
  then show ?case
    by (simp add: sec_inv_def SecurityLayer_def pc_inv_def waiting_def MAX_QUEUED_PACKETS_def)
next
  case (step st st')
  then show ?case using sec_step_inv by blast
qed

section \<open>The layout of a hello packet\<close>

definition helloBody :: "node \<Rightarrow> bytes \<Rightarrow> nat \<Rightarrow> HusarnetAddress \<Rightarrow> u64 \<Rightarrow> u64 \<Rightarrow> bytes" where
  "helloBody nd kx num dest hseq seq =
     [word_of_nat num] @ pubkey (myIdentity nd) @ kx @ ip_data dest @
     pack hseq @ pack seq @ pack (myFlags nd)"

definition helloPacket :: "node \<Rightarrow> bytes \<Rightarrow> nat \<Rightarrow> HusarnetAddress \<Rightarrow> u64 \<Rightarrow> u64 \<Rightarrow> bytes" where
  "helloPacket nd kx num dest hseq seq =
     helloBody nd kx num dest hseq seq @
     ngc_sign (node_crypto nd) (helloBody nd kx num dest hseq seq) (str ''ng-kx-pubkey'') (myIdentity nd)"

lemma sendHelloPacket_eq:
  "num \<in> {1, 2, 3} \<Longrightarrow>
   sendHelloPacket nd p num seq st =
     Some (ToLower (peer_id (deref st p))
       (helloPacket nd (kxPubkey (deref st p)) num (peer_id (deref st p)) (helloseq st) seq))"
  by (auto simp: sendHelloPacket_def helloPacket_def helloBody_def Let_def)

lemma le_word_pack [simp]: "le_word (pack (t :: u64)) = t"
  using unpack_pack [of t] by (simp add: unpack_def)

lemma helloPacket_fields:
  fixes num :: nat and hseq seq :: u64
  assumes "crypto_sizes (node_crypto nd)" and "length (pubkey (myIdentity nd)) = 32"
    and "length kx = 32" and "ip_wf dest"
  defines "d \<equiv> helloPacket nd kx num dest hseq seq"
  shows "length d = 169" "d ! 0 = word_of_nat num" "chunk 1 32 d = pubkey (myIdentity nd)" "chunk 33 32 d = kx"
    "chunk 65 16 d = ip_data dest" "hello_yourseq d = hseq" "hello_myseq d = seq" "hello_flags d = myFlags nd"
    "hello_signed d = helloBody nd kx num dest hseq seq"
    "drop (length d - 64) d =
       ngc_sign (node_crypto nd) (helloBody nd kx num dest hseq seq) (str ''ng-kx-pubkey'') (myIdentity nd)"
proof -
  have sg: "length (ngc_sign (node_crypto nd) b k (myIdentity nd)) = 64" for b k
    using assms(1) by (simp add: ngc_sign_def Identity_sign_def crypto_sizesD)
  have ip: "length (ip_data dest) = 16" using assms(4) by (simp add: ip_wf_def)
  have b: "length (helloBody nd kx num dest hseq seq) = 105"
    using assms(2,3) ip by (simp add: helloBody_def)
  then show len: "length d = 169" by (simp add: d_def helloPacket_def sg)
  show "d ! 0 = word_of_nat num" by (simp add: d_def helloPacket_def helloBody_def)
  show "chunk 1 32 d = pubkey (myIdentity nd)" "chunk 33 32 d = kx"
    "chunk 65 16 d = ip_data dest" "hello_yourseq d = hseq" "hello_myseq d = seq"
    using assms(2,3) ip by (simp_all add: d_def helloPacket_def helloBody_def layout)
  show "hello_flags d = myFlags nd"
    using assms(2,3) ip len by (simp add: hello_flags_def) (simp add: d_def helloPacket_def helloBody_def layout)
  show "hello_signed d = helloBody nd kx num dest hseq seq"
    using b len by (simp add: hello_signed_def) (simp add: d_def helloPacket_def)
  show "drop (length d - 64) d =
       ngc_sign (node_crypto nd) (helloBody nd kx num dest hseq seq) (str ''ng-kx-pubkey'') (myIdentity nd)"
    using b len by simp (simp add: d_def helloPacket_def)
qed

section \<open>Sessions\<close>

definition session :: "peer \<Rightarrow> bool \<times> bytes \<times> bytes" where
  "session x = (negotiated x, rxKey x, txKey x)"

definition session_of :: "'a sec_state_scheme \<Rightarrow> nat \<Rightarrow> bool \<times> bytes \<times> bytes" where
  "session_of st q = (if q < length (heap st) then session (deref st q) else session Peer_new)"

lemma getOrCreatePeer_session:
  assumes "getOrCreatePeer nd i st = (r, st')"
  shows "session_of st' q = session_of (st :: 'a sec_state_scheme) q"
  using assms
  by (auto simp: getOrCreatePeer_def getPeer_def createPeer_def Let_def session_of_def nth_append session_def Peer_new_def
      split: prod.splits if_splits option.splits)

lemma modify_session:
  assumes "\<And>x. session (f x) = session x"
  shows "session_of (modify p f st) q = session_of st q"
  using assms by (auto simp: session_of_def deref_modify)

lemma session_of_updates [simp]:
  "session_of (st\<lparr>draws := k\<rparr>) q = session_of st q" "session_of (st\<lparr>helloseq := h\<rparr>) q = session_of st q"
  "session_of (st\<lparr>queuedPackets := z\<rparr>) q = session_of st q"
  by (simp_all add: session_of_def)

lemma doSendDataPacket_session:
  "doSendDataPacket nd p d st = Some (out, st') \<Longrightarrow> session_of st' q = session_of st q"
  by (auto dest: doSendDataPacket_Some)

text \<open>The packets that may change a session.\<close>

definition hello_fresh :: "node \<Rightarrow> HusarnetAddress \<Rightarrow> bytes \<Rightarrow> 'a sec_state_scheme \<Rightarrow> bool" where
  "hello_fresh nd i d st \<longleftrightarrow>
     161 \<le> length d \<and> (d ! 0 = 2 \<or> d ! 0 = 3) \<and> hello_accepted nd i d \<and> hello_myseq d = helloseq st"

lemma handleDataPacket_session:
  assumes "handleDataPacket nd now i d st = Some (out, st')"
  shows "session_of st' q = session_of st q \<and> helloseq st' = helloseq st"
proof (cases "getOrCreatePeer nd i st")
  case (Pair r st1)
  note g = getOrCreatePeer_session [OF Pair] getOrCreatePeer_frame(1) [OF Pair]
  have m: "session_of (modify p (lastValidPacket_update (\<lambda>_. now)) st1) q = session_of st1 q" for p
    by (rule modify_session) (simp add: session_def)
  show ?thesis using assms g m Pair
    by (auto simp: handleDataPacket_def Let_def bind_eq_Some_conv split: if_splits option.splits)
qed

lemma handleHeartbeatReply_session:
  "session_of (handleHeartbeatReply nd now i ident st) q = session_of st q \<and>
   helloseq (handleHeartbeatReply nd now i ident st) = helloseq st"
proof (cases "getOrCreatePeer nd i st")
  case (Pair r st1)
  note g = getOrCreatePeer_session [OF Pair] getOrCreatePeer_frame(1) [OF Pair]
  have m: "session_of (modify p (\<lambda>peer. peer\<lparr>lastLatencyReceived := now, latency := f peer\<rparr>) st1) q = session_of st1 q" for p f
    by (rule modify_session) (simp add: session_def)
  show ?thesis using g m Pair by (auto simp: handleHeartbeatReply_def split: option.splits)
qed

lemma handleHelloPacket_stale:
  assumes "handleHelloPacket nd i d n st = Some (out, st')"
    and "\<not> (161 \<le> length d \<and> hello_accepted nd i d \<and> n \<noteq> 1 \<and> hello_myseq d = helloseq st)"
  shows "session_of st' q = session_of st q \<and> helloseq st' = helloseq st"
proof (cases "getOrCreatePeer nd i st")
  case (Pair r st1)
  note g = getOrCreatePeer_session [OF Pair] getOrCreatePeer_frame(1) [OF Pair]
  show ?thesis using assms g Pair
    by (auto simp: handleHelloPacket_eq hello_effect_def split: if_splits option.splits)
qed

lemma onLowerLayerData_sec_stale:
  assumes "onLowerLayerData_sec nd now i d st = Some (out, st')" and "\<not> hello_fresh nd i d st"
  shows "session_of st' q = session_of st q \<and> helloseq st' = helloseq st"
proof -
  have "\<not> (161 \<le> length d \<and> hello_accepted nd i d \<and> unat (d ! 0) \<noteq> 1 \<and> hello_myseq d = helloseq st)"
    if "d ! 0 = 1 \<or> d ! 0 = 2 \<or> d ! 0 = 3"
    using assms(2) that by (auto simp: hello_fresh_def)
  then show ?thesis
    using assms(1) handleDataPacket_session [of nd now i d st out st' q]
      handleHeartbeatReply_session [of nd now i _ st q]
      handleHelloPacket_stale [of nd i d "unat (d ! 0)" st out st' q]
    by (auto simp: onLowerLayerData_sec_def sv_index_def bind_eq_Some_conv split: if_splits)
qed

lemma modify_session_other: "q \<noteq> p \<Longrightarrow> session_of (modify p f st) q = session_of st q"
  by (auto simp: session_of_def deref_modify)

lemma peers_updates: "peers (modify p f st) = peers st" "peers (st\<lparr>helloseq := h\<rparr>) = peers (st :: 'a sec_state_scheme)"
  "peers (st\<lparr>queuedPackets := z, draws := k\<rparr>) = peers st"
  by (simp_all add: modify_def)

lemma hello_effect_Some:
  assumes e: "hello_effect nd i d n p st = Some (out, st')" and p: "p < length (heap st)" and n: "n \<noteq> 1"
    and seq: "hello_myseq d = helloseq st"
  obtains rx tx where "exchangeKeys nd i (chunk 33 32 d) (hello_flags d) p st =
      (False, modify p (\<lambda>x. x\<lparr>peer_flags := hello_flags d, rxKey := rx, txKey := tx\<rparr>) st)"
    and "st' = modify p (\<lambda>x. x\<lparr>peer_flags := hello_flags d, rxKey := rx, txKey := tx\<rparr>) st"
  | rx tx k where "exchangeKeys nd i (chunk 33 32 d) (hello_flags d) p st =
      (True, modify p (\<lambda>x. x\<lparr>peer_flags := hello_flags d, rxKey := rx, txKey := tx\<rparr>) st)"
    and "st' = modify p (\<lambda>x. x\<lparr>peer_flags := hello_flags d, rxKey := rx, txKey := tx, negotiated := True, packetQueue := []\<rparr>)
      (st\<lparr>queuedPackets := queuedPackets st - int (length (packetQueue (deref st p))), draws := k,
         helloseq := helloseq st + 1\<rparr>)"
proof -
  obtain r st1 where x: "exchangeKeys nd i (chunk 33 32 d) (hello_flags d) p st = (r, st1)"
    by (cases "exchangeKeys nd i (chunk 33 32 d) (hello_flags d) p st")
  obtain rx tx where st1: "st1 = modify p (\<lambda>x. x\<lparr>peer_flags := hello_flags d, rxKey := rx, txKey := tx\<rparr>) st"
    using exchangeKeys_eq [OF x p] by blast
  show ?thesis
  proof (cases r)
    case False
    then have "st' = st1" using e n seq x by (simp add: hello_effect_def)
    then show ?thesis using that(1) x st1 False by auto
  next
    case True
    obtain out2 st2 where f: "finishNegotiation nd p st1 = Some (out2, st2)"
      and st': "st' = st2\<lparr>helloseq := helloseq st2 + 1\<rparr>"
      using e n seq x True by (auto simp: hello_effect_def Let_def split: option.splits if_splits)
    have p1: "p < length (heap st1)" using p st1 by simp
    obtain k where st2: "st2 = modify p (\<lambda>x. x\<lparr>negotiated := True, packetQueue := []\<rparr>)
      (st1\<lparr>queuedPackets := queuedPackets st1 - int (length (packetQueue (deref st1 p))), draws := k\<rparr>)"
      using finishNegotiation_Some [OF f p1] by blast
    have "st' = modify p (\<lambda>x. x\<lparr>peer_flags := hello_flags d, rxKey := rx, txKey := tx, negotiated := True, packetQueue := []\<rparr>)
      (st\<lparr>queuedPackets := queuedPackets st - int (length (packetQueue (deref st p))), draws := k,
         helloseq := helloseq st + 1\<rparr>)"
      unfolding st' st2 st1 using p by (simp add: modify_def)
    then show ?thesis using that(2) x st1 True by auto
  qed
qed

lemma handleHelloPacket_fresh:
  assumes inv: "sec_inv nd st" and h: "handleHelloPacket nd i d n st = Some (out, st')"
    and acc: "161 \<le> length d" "hello_accepted nd i d" "n \<noteq> 1" "hello_myseq d = helloseq st"
  shows "(\<forall>q. session_of st' q \<noteq> session_of st q \<longrightarrow> q < length (heap st') \<and> peer_id (deref st' q) = i) \<and>
    (helloseq st' = helloseq st \<or> helloseq st' = helloseq st + 1)"
proof (cases "getOrCreatePeer nd i st")
  case (Pair r st1)
  note g = getOrCreatePeer_session [OF Pair] getOrCreatePeer_frame(1) [OF Pair]
  show ?thesis
  proof (cases r)
    case None
    then show ?thesis using Pair h acc g by (auto simp: handleHelloPacket_eq)
  next
    case (Some p)
    have pc: "pc_inv nd st" using inv by (simp add: sec_inv_def)
    note p = getOrCreatePeer_Some [OF pc Pair [unfolded Some]]
    have e: "hello_effect nd i d n p st1 = Some (out, st')"
      using Pair h acc Some by (simp add: handleHelloPacket_eq)
    have seq: "hello_myseq d = helloseq st1" using acc(4) g(2) by simp
    from hello_effect_Some [OF e p(2) acc(3) seq]
    have "(\<forall>q. q \<noteq> p \<longrightarrow> session_of st' q = session_of st1 q) \<and> p < length (heap st') \<and>
      peer_id (deref st' p) = i \<and> (helloseq st' = helloseq st1 \<or> helloseq st' = helloseq st1 + 1)"
      using p(2,3) by cases (auto simp: modify_session_other deref_modify)
    then show ?thesis using g by metis
  qed
qed

lemma onLowerLayerData_sec_fresh:
  assumes inv: "sec_inv nd st" and h: "onLowerLayerData_sec nd now i d st = Some (out, st')"
  shows "(\<forall>q. session_of st' q \<noteq> session_of st q \<longrightarrow>
      hello_fresh nd i d st \<and> q < length (heap st') \<and> peer_id (deref st' q) = i) \<and>
    (helloseq st' = helloseq st \<or> helloseq st' = helloseq st + 1 \<and> hello_fresh nd i d st)"
proof (cases "hello_fresh nd i d st")
  case False
  then show ?thesis using onLowerLayerData_sec_stale [OF h False] by blast
next
  case True
  show ?thesis
  proof (cases "length d < 2000")
    case False
    then show ?thesis using h by (simp add: onLowerLayerData_sec_def decryptedBuffer_size_def)
  next
    case small: True
    have n: "unat (d ! 0) \<noteq> 1" using True by (auto simp: hello_fresh_def)
    have "handleHelloPacket nd i d (unat (d ! 0)) st = Some (out, st')"
      using h True small
      by (auto simp: onLowerLayerData_sec_def sv_index_def hello_fresh_def decryptedBuffer_size_def split: if_splits)
    from handleHelloPacket_fresh [OF inv this _ _ n] show ?thesis
      using True by (auto simp: hello_fresh_def)
  qed
qed

lemma stale_hello_ignored:
  assumes "sec_inv nd s" and "d ! 0 = 2 \<or> d ! 0 = 3" and "hello_myseq d \<noteq> helloseq s" and "d \<noteq> []"
  shows "\<exists>s'. onLowerLayerData_sec nd now i d s = Some ([], s') \<and>
    (\<forall>q. session_of s' q = session_of s q) \<and> helloseq s' = helloseq s"
proof -
  obtain out s' where r: "onLowerLayerData_sec nd now i d s = Some (out, s')"
    using onLowerLayerData_sec_inv [OF assms(1,4), of now i] by (auto simp: returns_inv_def)
  moreover have "\<not> hello_fresh nd i d s" using assms(3) by (simp add: hello_fresh_def)
  moreover have "out = []"
    using r assms(2,3) getOrCreatePeer_frame(1)
    by (fastforce simp: onLowerLayerData_sec_def sv_index_def handleHelloPacket_eq hello_effect_def
        split: if_splits option.splits prod.splits)
  ultimately show ?thesis using onLowerLayerData_sec_stale [OF r] by blast
qed

text \<open>Runs of a given number of events, and how the sequence number advances along them.\<close>

inductive sec_run :: "node \<Rightarrow> nat \<Rightarrow> sec_state \<Rightarrow> sec_state \<Rightarrow> bool" for nd where
  run_none: "sec_run nd 0 st st"
| run_step: "sec_run nd n st st1 \<Longrightarrow> sec_step nd st1 st2 \<Longrightarrow> sec_run nd (Suc n) st st2"

lemma onUpperLayerData_sec_helloseq:
  "onUpperLayerData_sec nd i d st = Some (out, st') \<Longrightarrow> helloseq st' = helloseq st"
  by (auto simp: onUpperLayerData_sec_def Let_def bind_eq_Some_conv
      dest!: doSendDataPacket_Some getOrCreatePeer_frame(1) split: prod.splits option.splits if_splits)

lemma getLatency_helloseq:
  "getLatency nd now now' i st = (r, out, st') \<Longrightarrow> helloseq st' = helloseq st"
  by (auto simp: getLatency_def Let_def dest!: getOrCreatePeer_frame(1) split: prod.splits option.splits if_splits)

lemma sec_step_helloseq:
  "sec_step nd st st' \<Longrightarrow> sec_inv nd st \<Longrightarrow> helloseq st' = helloseq st \<or> helloseq st' = helloseq st + 1"
proof (induction rule: sec_step.induct)
  case (lower allowed now i d st out st')
  then show ?case
    using onLowerLayerData_sec_fresh [of "nd\<lparr>isPeerAllowed := allowed\<rparr>" st now i d out st']
    by (auto simp: sec_inv_policy)
qed (auto dest: onUpperLayerData_sec_helloseq getLatency_helloseq)

lemma sec_run_helloseq:
  "sec_run nd n st st' \<Longrightarrow> sec_inv nd st \<Longrightarrow>
     sec_inv nd st' \<and> (\<exists>j \<le> n. helloseq st' = helloseq st + word_of_nat j)"
proof (induction rule: sec_run.induct)
  case (run_none st)
  then show ?case by auto
next
  case (run_step n st st1 st2)
  then obtain j where j: "j \<le> n" "helloseq st1 = helloseq st + word_of_nat j" and i1: "sec_inv nd st1" by auto
  from sec_step_helloseq [OF run_step.hyps(2) i1]
  have "helloseq st2 = helloseq st + word_of_nat j \<or> helloseq st2 = helloseq st + word_of_nat (Suc j)"
    using j(2) by (auto simp: algebra_simps)
  moreover have "j \<le> Suc n" "Suc j \<le> Suc n" using j(1) by auto
  moreover have "sec_inv nd st2" using sec_step_inv [OF run_step.hyps(2) i1] .
  ultimately show ?case by blast
qed

section \<open>The handshake\<close>

definition node_wf :: "node \<Rightarrow> bool" where
  "node_wf nd \<longleftrightarrow>
     identity_wf (node_crypto nd) (myIdentity nd) \<and> Identity_isValid (myIdentity nd) \<and> myFlags nd \<noteq> 0 \<and>
     (\<exists>k. ed_keypair (node_crypto nd) k = (pubkey (myIdentity nd), privkey (myIdentity nd)))"

definition kx_ok :: "crypto \<Rightarrow> 'a pc_state_scheme \<Rightarrow> bool" where
  "kx_ok c st \<longleftrightarrow>
     (\<forall>x \<in> set (heap st). \<exists>n. kx_keypair c n = (kxPubkey x, kxPrivkey x))"

lemma node_wf_ip:
  assumes "node_wf nd" and "crypto_sizes (node_crypto nd)"
  shows "ip_wf (deviceId (myIdentity nd))" "deviceId (myIdentity nd) \<noteq> IpAddress_default"
    "length (pubkey (myIdentity nd)) = 32"
proof -
  show "ip_wf (deviceId (myIdentity nd))" "length (pubkey (myIdentity nd)) = 32"
    using assms pubkeyToDeviceId_wf [of "node_crypto nd" "pubkey (myIdentity nd)"]
    by (simp_all add: node_wf_def identity_wf_def)
  have "\<not> isFC94 IpAddress_default" by (simp add: isFC94_def IpAddress_default_def)
  then show "deviceId (myIdentity nd) \<noteq> IpAddress_default"
    using assms(1) by (auto simp: node_wf_def Identity_isValid_def)
qed

lemma kx_ok_length:
  assumes "kx_ok c st" and "p < length (heap st)" and "crypto_sizes c"
  shows "length (kxPubkey (deref st p)) = 32"
proof -
  obtain n where "kx_keypair c n = (kxPubkey (deref st p), kxPrivkey (deref st p))"
    using assms(1) nth_mem [OF assms(2)] by (auto simp: kx_ok_def)
  then show ?thesis using crypto_sizesD(5) [OF assms(3), of n] by simp
qed

lemma getOrCreatePeer_kx_ok:
  assumes "kx_ok (node_crypto nd) st" and "getOrCreatePeer nd i st = (r, st')"
  shows "kx_ok (node_crypto nd) st'"
  using assms
  by (auto simp: getOrCreatePeer_def getPeer_def createPeer_def Let_def kx_ok_def
      split: prod.splits if_splits option.splits) (metis)+

text \<open>The other side accepts the packets of \<open>sendHelloPacket\<close>.\<close>

lemma helloPacket_accepted:
  assumes c: "crypto_sizes c" "crypto_laws c" "node_crypto nd = c" "node_crypto nd' = c"
    and wf: "node_wf nd" "node_wf nd'" and kx: "length kx = 32"
    and dest: "dest = deviceId (myIdentity nd')"
  shows "hello_accepted nd' (deviceId (myIdentity nd)) (helloPacket nd kx num dest hseq seq)"
proof -
  have ip: "ip_wf dest" "length (pubkey (myIdentity nd)) = 32"
    using node_wf_ip [OF wf(2)] node_wf_ip [OF wf(1)] c dest by auto
  note f = helloPacket_fields [OF _ ip(2) kx ip(1), where num = num and hseq = hseq and seq = seq]
  obtain k where k: "ed_keypair c k = (pubkey (myIdentity nd), privkey (myIdentity nd))"
    using wf(1) c by (auto simp: node_wf_def)
  have "ed_verify c (pubkey (myIdentity nd)) m (ed_sign c (privkey (myIdentity nd)) m)" for m
    using c(2) k unfolding crypto_laws_def by (metis fst_conv snd_conv)
  then show ?thesis
    using f c wf(1) dest
    by (simp add: hello_accepted_def verifySignature_def ngc_sign_def Identity_sign_def node_wf_def identity_wf_def)
qed

lemma onLower_helloPacket:
  assumes "crypto_sizes (node_crypto nd)" "length (pubkey (myIdentity nd)) = 32"
    and "length kx = 32" and "ip_wf dest" and "num \<in> {1, 2, 3}"
  shows "onLowerLayerData_sec nd' now i (helloPacket nd kx num dest hseq seq) st =
    handleHelloPacket nd' i (helloPacket nd kx num dest hseq seq) num st"
proof -
  let ?d = "helloPacket nd kx num dest hseq seq"
  note f = helloPacket_fields(1,2) [OF assms(1-4), where num = num and hseq = hseq and seq = seq]
  have "?d ! 0 = word_of_nat num" "length ?d = 169" using f by simp_all
  then show ?thesis
    using assms(5)
    by (auto simp: onLowerLayerData_sec_def sv_index_def decryptedBuffer_size_def)
qed

lemma exchangeKeys_keys:
  assumes p: "p < length (heap st)"
    and k: "(if i < deviceId (myIdentity nd)
       then kx_client (node_crypto nd) (rxKey (deref st p), txKey (deref st p)) (kxPubkey (deref st p)) (kxPrivkey (deref st p)) pk
       else kx_server (node_crypto nd) (rxKey (deref st p), txKey (deref st p)) (kxPubkey (deref st p)) (kxPrivkey (deref st p)) pk) =
      (True, rx, tx)"
    and fl: "fl \<noteq> 0"
  shows "exchangeKeys nd i pk fl p st =
    (True, modify p (\<lambda>x. x\<lparr>peer_flags := fl, rxKey := mixFlags (node_crypto nd) rx fl (myFlags nd),
       txKey := mixFlags (node_crypto nd) tx (myFlags nd) fl\<rparr>) st)"
  using assms by (simp add: exchangeKeys_def Let_def deref_modify modify_modify split: if_splits)


text \<open>
  Finishing a negotiation with the packet of the other side: the peer ends up negotiated, with
  the mixed keys, and the sequence number has advanced.
\<close>

lemma negotiate:
  assumes c: "crypto_sizes c" "crypto_laws c" "node_crypto nd = c" "node_crypto nd' = c"
    and wf: "node_wf nd" "node_wf nd'" and ne: "deviceId (myIdentity nd) \<noteq> deviceId (myIdentity nd')"
    and inv: "sec_inv nd st" and known: "map_of (peers st) (deviceId (myIdentity nd')) = Some p"
    and allowed: "isPeerAllowed nd (deviceId (myIdentity nd'))"
    and kx: "length kx = 32" and num: "num = 2 \<or> num = 3"
    and k: "(if deviceId (myIdentity nd') < deviceId (myIdentity nd)
       then kx_client c (rxKey (deref st p), txKey (deref st p)) (kxPubkey (deref st p)) (kxPrivkey (deref st p)) kx
       else kx_server c (rxKey (deref st p), txKey (deref st p)) (kxPubkey (deref st p)) (kxPrivkey (deref st p)) kx) =
      (True, rx, tx)"
  shows "\<exists>out st'. onLowerLayerData_sec nd now (deviceId (myIdentity nd'))
        (helloPacket nd' kx num (deviceId (myIdentity nd)) hseq (helloseq st)) st =
      Some (out @ (if num = 2 then [ToLower (deviceId (myIdentity nd'))
          (helloPacket nd (kxPubkey (deref st p)) 3 (deviceId (myIdentity nd')) (helloseq st + 1) hseq)] else []), st') \<and>
    map_of (peers st') (deviceId (myIdentity nd')) = Some p \<and> negotiated (deref st' p) \<and>
    helloseq st' = helloseq st + 1 \<and> rxKey (deref st' p) = mixFlags c rx (myFlags nd') (myFlags nd) \<and>
    txKey (deref st' p) = mixFlags c tx (myFlags nd) (myFlags nd')"
proof -
  let ?i = "deviceId (myIdentity nd')" and ?me = "deviceId (myIdentity nd)"
  let ?d = "helloPacket nd' kx num ?me hseq (helloseq st)"
  have pc: "pc_inv nd st" using inv by (simp add: sec_inv_def)
  have ip: "ip_wf ?me" "length (pubkey (myIdentity nd')) = 32" "?i \<noteq> IpAddress_default"
    using node_wf_ip [OF wf(1)] node_wf_ip [OF wf(2)] c by auto
  have cs: "crypto_sizes (node_crypto nd')" using c by simp
  note f = helloPacket_fields [OF cs ip(2) kx ip(1), where num = num and hseq = hseq and seq = "helloseq st"]
  obtain st1 where g: "getOrCreatePeer nd ?i st = (Some p, st1)" "heap st1 = heap st" "peers st1 = peers st"
    using getOrCreatePeer_known [OF pc known _ allowed ip(3)] ne by auto
  have p: "p < length (heap st1)" "peer_id (deref st1 p) = ?i"
    using getOrCreatePeer_Some(2,3) [OF pc g(1)] by auto
  note fr = getOrCreatePeer_frame(1) [OF g(1)]
  have inv1: "sec_inv nd st1" using getOrCreatePeer_sec_inv [OF inv g(1)] .
  have acc: "hello_accepted nd ?i ?d"
    by (rule helloPacket_accepted [OF c(1,2,4,3) wf(2,1) kx refl])
  have fl: "myFlags nd' \<noteq> 0" using wf(2) by (simp add: node_wf_def)
  have x: "exchangeKeys nd ?i kx (myFlags nd') p st1 = (True, modify p (\<lambda>x. x\<lparr>peer_flags := myFlags nd',
      rxKey := mixFlags c rx (myFlags nd') (myFlags nd), txKey := mixFlags c tx (myFlags nd) (myFlags nd')\<rparr>) st1)"
    (is "_ = (True, ?st2)")
    using exchangeKeys_keys [OF p(1) _ fl, of ?i nd kx rx tx, unfolded c(3) g(2), OF k] .
  have p2: "p < length (heap ?st2)" "sec_inv nd ?st2" using exchangeKeys_inv [OF inv1 p(1) x] p by auto
  obtain out st3 where fin: "finishNegotiation nd p ?st2 = Some (out, st3)"
    using finishNegotiation_inv [OF p2(2,1)] by (auto simp: returns_inv_def)
  obtain k3 where st3: "st3 = modify p (\<lambda>x. x\<lparr>negotiated := True, packetQueue := []\<rparr>)
    (?st2\<lparr>queuedPackets := queuedPackets ?st2 - int (length (packetQueue (deref ?st2 p))), draws := k3\<rparr>)"
    using finishNegotiation_Some [OF fin p2(1)] by blast
  define st' where "st' = st3\<lparr>helloseq := helloseq st3 + 1\<rparr>"
  have d: "deref st' p = (deref st1 p)\<lparr>peer_flags := myFlags nd',
      rxKey := mixFlags c rx (myFlags nd') (myFlags nd), txKey := mixFlags c tx (myFlags nd) (myFlags nd'),
      negotiated := True, packetQueue := []\<rparr>"
    using p(1) by (simp add: st'_def st3 modify_def)
  have h3: "helloseq st' = helloseq st + 1" "peers st' = peers st"
    by (simp_all add: st'_def st3 fr g(3))
  have s3: "sendHelloPacket nd p 3 hseq st' =
      Some (ToLower ?i (helloPacket nd (kxPubkey (deref st p)) 3 ?i (helloseq st + 1) hseq))"
    using sendHelloPacket_eq [of 3 nd p hseq st'] p(2) h3 g(2) by (simp add: d)
  have "onLowerLayerData_sec nd now ?i ?d st = handleHelloPacket nd ?i ?d num st"
    using num by (intro onLower_helloPacket [OF cs ip(2) kx ip(1)]) auto
  also have "\<dots> = hello_effect nd ?i ?d num p st1"
    using f(1) acc by (simp add: handleHelloPacket_eq g(1))
  also have "\<dots> = Some (out @ (if num = 2 then [ToLower ?i
          (helloPacket nd (kxPubkey (deref st p)) 3 ?i (helloseq st + 1) hseq)] else []), st')"
    using num x fin s3 unfolding hello_effect_def f(4,6,7,8) fr
    by (auto simp: st'_def [symmetric] Let_def)
  finally show ?thesis using d h3 known by auto
qed


lemma kx_agree:
  assumes "crypto_laws c" and "kx_keypair c i = (pk, sk)" and "kx_keypair c j = (pk', sk')"
  shows "\<exists>rx tx. kx_client c old pk sk pk' = (True, rx, tx) \<and> kx_server c old' pk' sk' pk = (True, tx, rx)"
proof -
  have "\<exists>rx tx.
      kx_client c old (fst (kx_keypair c i)) (snd (kx_keypair c i)) (fst (kx_keypair c j)) = (True, rx, tx) \<and>
      kx_server c old' (fst (kx_keypair c j)) (snd (kx_keypair c j)) (fst (kx_keypair c i)) = (True, tx, rx)"
    using assms(1) unfolding crypto_laws_def by blast
  then show ?thesis by (simp add: assms(2,3))
qed

lemma hello1_reply:
  assumes c: "crypto_sizes c" "crypto_laws c" "node_crypto nd = c" "node_crypto nd' = c"
    and wf: "node_wf nd" "node_wf nd'" and inv: "sec_inv nd' st"
    and allowed: "isPeerAllowed nd' (deviceId (myIdentity nd))" and kx: "length kx = 32"
  shows "\<exists>q st1. getOrCreatePeer nd' (deviceId (myIdentity nd)) st = (Some q, st1) \<and>
    onLowerLayerData_sec nd' now (deviceId (myIdentity nd))
      (helloPacket nd kx 1 (deviceId (myIdentity nd')) hseq 0) st =
    Some ([ToLower (deviceId (myIdentity nd)) (helloPacket nd' (kxPubkey (deref st1 q)) 2
       (deviceId (myIdentity nd)) (helloseq st) hseq)], st1)"
proof -
  let ?i = "deviceId (myIdentity nd)" and ?d = "helloPacket nd kx 1 (deviceId (myIdentity nd')) hseq 0"
  have pc: "pc_inv nd' st" using inv by (simp add: sec_inv_def)
  obtain r st1 where g0: "getOrCreatePeer nd' ?i st = (r, st1)" by (cases "getOrCreatePeer nd' ?i st")
  obtain q where r: "r = Some q" using g0 getOrCreatePeer_None [of nd' ?i st st1] allowed by (cases r) auto
  note g = g0 [unfolded r]
  have ip: "ip_wf (deviceId (myIdentity nd'))" "length (pubkey (myIdentity nd)) = 32"
    using node_wf_ip [OF wf(1)] node_wf_ip [OF wf(2)] c by auto
  have cs: "crypto_sizes (node_crypto nd)" using c by simp
  note f = helloPacket_fields [OF cs ip(2) kx ip(1), where num = 1 and hseq = hseq and seq = 0]
  have acc: "hello_accepted nd' ?i ?d" by (rule helloPacket_accepted [OF c wf kx refl])
  have "onLowerLayerData_sec nd' now ?i ?d st = handleHelloPacket nd' ?i ?d 1 st"
    by (intro onLower_helloPacket [OF cs ip(2) kx ip(1)]) auto
  also have "\<dots> = hello_effect nd' ?i ?d 1 q st1"
    using f(1) acc by (simp add: handleHelloPacket_eq g)
  also have "\<dots> = Some ([ToLower ?i (helloPacket nd' (kxPubkey (deref st1 q)) 2 ?i (helloseq st) hseq)], st1)"
    using getOrCreatePeer_Some(3) [OF pc g] sendHelloPacket_eq [of 2 nd' q hseq st1]
    unfolding hello_effect_def f(6) by (simp add: getOrCreatePeer_frame(1) [OF g])
  finally show ?thesis using g by blast
qed

lemma handshake:
  assumes c: "crypto_sizes c" "crypto_laws c" "node_crypto ndA = c" "node_crypto ndB = c"
    and wf: "node_wf ndA" "node_wf ndB"
    and ab: "a = deviceId (myIdentity ndA)" "b = deviceId (myIdentity ndB)" "a \<noteq> b"
    and allowed: "isPeerAllowed ndA b" "isPeerAllowed ndB a"
    and inv: "sec_inv ndA stA" "sec_inv ndB stB" and kx: "kx_ok c stA" "kx_ok c stB"
    and known: "map_of (peers stA) b = Some p" and f1: "sendHelloPacket ndA p 1 0 stA = Some (ToLower b hello1)"
  shows "\<exists>hello2 hello3 outA outB stB1 stA2 stB3 q.
    onLowerLayerData_sec ndB t1 a hello1 stB = Some ([ToLower a hello2], stB1) \<and>
    onLowerLayerData_sec ndA t2 b hello2 stA = Some (outA @ [ToLower b hello3], stA2) \<and>
    onLowerLayerData_sec ndB t3 a hello3 stB1 = Some (outB, stB3) \<and>
    map_of (peers stA2) b = Some p \<and> map_of (peers stB3) a = Some q \<and>
    negotiated (deref stA2 p) \<and> negotiated (deref stB3 q) \<and>
    txKey (deref stA2 p) = rxKey (deref stB3 q) \<and> rxKey (deref stA2 p) = txKey (deref stB3 q)"
proof -
  have pcA: "pc_inv ndA stA" "p < length (heap stA)" "peer_id (deref stA p) = b"
    using inv(1) pc_inv_table [OF _ known, of ndA] by (auto simp: sec_inv_def)
  obtain n where n: "kx_keypair c n = (kxPubkey (deref stA p), kxPrivkey (deref stA p))"
    using kx(1) nth_mem [OF pcA(2)] by (auto simp: kx_ok_def)
  have lA: "length (kxPubkey (deref stA p)) = 32" using kx_ok_length [OF kx(1) pcA(2) c(1)] .
  have h1: "hello1 = helloPacket ndA (kxPubkey (deref stA p)) 1 b (helloseq stA) 0"
    using f1 sendHelloPacket_eq [of 1 ndA p 0 stA] pcA(3) by simp
  obtain q stB1 where g: "getOrCreatePeer ndB a stB = (Some q, stB1)"
    and r1: "onLowerLayerData_sec ndB t1 a hello1 stB =
      Some ([ToLower a (helloPacket ndB (kxPubkey (deref stB1 q)) 2 a (helloseq stB) (helloseq stA))], stB1)"
    using hello1_reply [OF c wf inv(2) _ lA, of t1 "helloseq stA"] allowed(2) ab(1,2) h1 by auto
  have pcB: "pc_inv ndB stB" using inv(2) by (simp add: sec_inv_def)
  note q = getOrCreatePeer_Some [OF pcB g]
  have invB: "sec_inv ndB stB1" using getOrCreatePeer_sec_inv [OF inv(2) g] .
  have kxB: "kx_ok c stB1" using getOrCreatePeer_kx_ok [OF _ g] kx(2) c(4) by simp
  obtain m where m: "kx_keypair c m = (kxPubkey (deref stB1 q), kxPrivkey (deref stB1 q))"
    using kxB nth_mem [OF q(2)] by (auto simp: kx_ok_def)
  have lB: "length (kxPubkey (deref stB1 q)) = 32" using kx_ok_length [OF kxB q(2) c(1)] .
  let ?oA = "(rxKey (deref stA p), txKey (deref stA p))" and ?oB = "(rxKey (deref stB1 q), txKey (deref stB1 q))"
  have "\<exists>rx tx. (if b < a then kx_client c ?oA (kxPubkey (deref stA p)) (kxPrivkey (deref stA p)) (kxPubkey (deref stB1 q))
       else kx_server c ?oA (kxPubkey (deref stA p)) (kxPrivkey (deref stA p)) (kxPubkey (deref stB1 q))) = (True, rx, tx) \<and>
     (if a < b then kx_client c ?oB (kxPubkey (deref stB1 q)) (kxPrivkey (deref stB1 q)) (kxPubkey (deref stA p))
       else kx_server c ?oB (kxPubkey (deref stB1 q)) (kxPrivkey (deref stB1 q)) (kxPubkey (deref stA p))) = (True, tx, rx)"
  proof (cases "b < a")
    case True
    then show ?thesis using kx_agree [OF c(2) n m, of ?oA ?oB] by auto
  next
    case False
    then have "a < b" using ab(3) by simp
    then show ?thesis using kx_agree [OF c(2) m n, of ?oB ?oA] by auto
  qed
  then obtain rx tx where
    kA: "(if b < a then kx_client c ?oA (kxPubkey (deref stA p)) (kxPrivkey (deref stA p)) (kxPubkey (deref stB1 q))
       else kx_server c ?oA (kxPubkey (deref stA p)) (kxPrivkey (deref stA p)) (kxPubkey (deref stB1 q))) = (True, rx, tx)"
    and kB: "(if a < b then kx_client c ?oB (kxPubkey (deref stB1 q)) (kxPrivkey (deref stB1 q)) (kxPubkey (deref stA p))
       else kx_server c ?oB (kxPubkey (deref stB1 q)) (kxPrivkey (deref stB1 q)) (kxPubkey (deref stA p))) = (True, tx, rx)"
    by blast
  obtain outA stA2 where A: "onLowerLayerData_sec ndA t2 b
        (helloPacket ndB (kxPubkey (deref stB1 q)) 2 a (helloseq stB) (helloseq stA)) stA =
      Some (outA @ [ToLower b (helloPacket ndA (kxPubkey (deref stA p)) 3 b (helloseq stA + 1) (helloseq stB))], stA2)"
    "map_of (peers stA2) b = Some p" "negotiated (deref stA2 p)"
    "rxKey (deref stA2 p) = mixFlags c rx (myFlags ndB) (myFlags ndA)"
    "txKey (deref stA2 p) = mixFlags c tx (myFlags ndA) (myFlags ndB)"
    using negotiate [of c ndA ndB stA p "kxPubkey (deref stB1 q)" 2 rx tx t2 "helloseq stB"]
      c wf ab inv(1) known allowed(1) lB kA by auto
  have hB: "helloseq stB1 = helloseq stB" using getOrCreatePeer_frame(1) [OF g] .
  obtain outB stB3 where B: "onLowerLayerData_sec ndB t3 a
        (helloPacket ndA (kxPubkey (deref stA p)) 3 b (helloseq stA + 1) (helloseq stB)) stB1 = Some (outB, stB3)"
    "map_of (peers stB3) a = Some q" "negotiated (deref stB3 q)"
    "rxKey (deref stB3 q) = mixFlags c tx (myFlags ndA) (myFlags ndB)"
    "txKey (deref stB3 q) = mixFlags c rx (myFlags ndB) (myFlags ndA)"
    using negotiate [of c ndB ndA stB1 q "kxPubkey (deref stA p)" 3 tx rx t3 "helloseq stA + 1"]
      c wf ab invB q(1) allowed(2) lA kB hB by auto
  show ?thesis using r1 A B by (intro exI conjI) auto
qed

section \<open>Data packets\<close>

lemma doSendDataPacket_frame:
  assumes "length m \<le> 2001"
  shows "doSendDataPacket nd p m st =
    Some ([ToLower (peer_id (deref st p)) (0 # randombytes (node_crypto nd) (draws st) 24 @
        secretbox (node_crypto nd) (txKey (deref st p)) (randombytes (node_crypto nd) (draws st) 24)
          (pack (0 :: u64) @ m))], st\<lparr>draws := draws st + 1\<rparr>)"
  using assms by (simp add: doSendDataPacket_def Let_def cleartextBuffer_size_def ciphertextBuffer_size_def)

lemma chunk_all_but: "length s = n \<Longrightarrow> length m = k \<Longrightarrow> chunk n k (s @ m) = m"
  by (simp add: chunk_def)

lemma handleDataPacket_accepts:
  assumes c: "crypto_sizes (node_crypto nd)" "crypto_laws (node_crypto nd)"
    and inv: "pc_inv nd st" and known: "map_of (peers st) i = Some p"
    and i: "i \<noteq> deviceId (myIdentity nd)" "isPeerAllowed nd i" "i \<noteq> IpAddress_default"
    and neg: "negotiated (deref st p)" and m: "m \<noteq> []" "length m \<le> 1950"
    and nonce: "length nonce = 24" and s: "length s = 8"
  shows "\<exists>st'. onLowerLayerData_sec nd now i
      (0 # nonce @ secretbox (node_crypto nd) (rxKey (deref st p)) nonce (s @ m)) st = Some ([ToUpper i m], st')"
proof -
  let ?box = "secretbox (node_crypto nd) (rxKey (deref st p)) nonce (s @ m)"
  obtain st1 where g: "getOrCreatePeer nd i st = (Some p, st1)" "heap st1 = heap st"
    using getOrCreatePeer_known [OF inv known i] by blast
  have box: "length ?box = length m + 24" using c(1) s by (simp add: crypto_sizesD)
  have op: "secretbox_open (node_crypto nd) (rxKey (deref st p)) nonce ?box = Some (s @ m)"
    using c(2) by (simp add: crypto_laws_def)
  have ch: "chunk 1 24 (0 # nonce @ ?box) = nonce" "drop 25 (0 # nonce @ ?box) = ?box"
    using nonce by (simp_all add: layout)
  have "length m \<noteq> 0" using m(1) by simp
  then have "handleDataPacket nd now i (0 # nonce @ ?box) st =
      Some ([ToUpper i m], modify p (lastValidPacket_update (\<lambda>_. now)) st1)"
    using m(2) nonce box op ch neg g chunk_all_but [OF s refl, of m]
    by (simp add: handleDataPacket_def Let_def decryptedBuffer_size_def)
  then show ?thesis
    using m(2) nonce box by (simp add: onLowerLayerData_sec_def sv_index_def decryptedBuffer_size_def)
qed

lemma handleDataPacket_upper:
  assumes "pc_inv nd st" and "handleDataPacket nd now i d st = Some (out, st')" and "ToUpper j m \<in> set out"
  shows "\<exists>p st1 b. getOrCreatePeer nd i st = (Some p, st1) \<and> negotiated (deref st1 p) \<and> j = i \<and>
    49 < length d \<and>
    secretbox_open (node_crypto nd) (rxKey (deref st1 p)) (chunk 1 24 d) (drop 25 d) = Some b \<and>
    m = chunk 8 (length d - 49) b \<and> st' = modify p (lastValidPacket_update (\<lambda>_. now)) st1"
proof -
  obtain r st1 where g: "getOrCreatePeer nd i st = (r, st1)" by (cases "getOrCreatePeer nd i st")
  have "ToUpper j m \<notin> set [f]" if "sendHelloPacket nd p (Suc 0) 0 st1 = Some f" for f p
    using that by (auto simp: sendHelloPacket_def Let_def)
  then show ?thesis
    using assms(2,3) g
    by (auto simp: handleDataPacket_def Let_def bind_eq_Some_conv split: if_splits option.splits)
qed

lemma sendHelloPacket_no_upper: "sendHelloPacket nd p num seq st = Some f \<Longrightarrow> f \<noteq> ToUpper j m"
  by (auto simp: sendHelloPacket_def Let_def split: if_splits)

lemma doSendDataPacket_no_upper:
  "doSendDataPacket nd p d st = Some (out, st') \<Longrightarrow> ToUpper j m \<notin> set out"
  by (auto simp: doSendDataPacket_def Let_def split: if_splits)

lemma flushQueue_no_upper:
  "flushQueue nd p q st = Some (out, st') \<Longrightarrow> ToUpper j m \<notin> set out"
proof (induction q arbitrary: st out)
  case (Cons d q)
  then show ?case by (auto simp: bind_eq_Some_conv dest!: doSendDataPacket_no_upper)
qed simp

lemma handleHelloPacket_no_upper:
  "handleHelloPacket nd i d n st = Some (out, st') \<Longrightarrow> ToUpper j m \<notin> set out"
  by (auto simp: handleHelloPacket_eq hello_effect_def finishNegotiation_def Let_def bind_eq_Some_conv
      dest: flushQueue_no_upper sendHelloPacket_no_upper
      split: if_splits option.splits prod.splits)

lemma onLowerLayerData_sec_upper:
  assumes "onLowerLayerData_sec nd now i d st = Some (out, st')" and "ToUpper j m \<in> set out"
  shows "d ! 0 = 0 \<and> d \<noteq> [] \<and> handleDataPacket nd now i d st = Some (out, st')"
  using assms
  by (auto simp: onLowerLayerData_sec_def sv_index_def handleHeartbeat_def bind_eq_Some_conv
      dest: handleHelloPacket_no_upper split: if_splits)

section \<open>Example nodes\<close>

definition toy_node :: "nat \<Rightarrow> node" where
  "toy_node k =
     \<lparr>node_crypto = toy_crypto,
      myIdentity = \<lparr>pubkey = fst (ed_keypair toy_crypto k), privkey = snd (ed_keypair toy_crypto k),
        deviceId = pubkeyToDeviceId toy_crypto (fst (ed_keypair toy_crypto k))\<rparr>,
      myFlags = PeerFlags_default, isPeerAllowed = \<lambda>_. True\<rparr>"

lemma toy_node_wf: "node_wf (toy_node 1)" "node_wf (toy_node 2)"
proof -
  have "Identity_isValid (myIdentity (toy_node 1))" "Identity_isValid (myIdentity (toy_node 2))" by code_simp+
  moreover have "ed_keypair toy_crypto k = (pubkey (myIdentity (toy_node k)), privkey (myIdentity (toy_node k)))" for k
    by (simp add: toy_node_def)
  moreover have "identity_wf toy_crypto (myIdentity (toy_node k))" for k
    by (simp add: toy_node_def identity_wf_def crypto_sizesD toy_crypto_sizes)
  moreover have "node_crypto (toy_node k) = toy_crypto" "myFlags (toy_node k) \<noteq> 0" for k
    by (simp_all add: toy_node_def)
  ultimately show "node_wf (toy_node 1)" "node_wf (toy_node 2)"
    unfolding node_wf_def by metis+
qed

lemma toy_addresses: "deviceId (myIdentity (toy_node 1)) \<noteq> deviceId (myIdentity (toy_node 2))"
  by code_simp

text \<open>Node 1 in a state in which the third hello packet of node 2 completes a negotiation.\<close>

lemma toy_session:
  obtains st p d out st' where "sec_inv (toy_node 1) st"
    "onLowerLayerData_sec (toy_node 1) 0 (deviceId (myIdentity (toy_node 2))) d st = Some (out, st')"
    "session_of st' p \<noteq> session_of (st :: sec_state) p" "helloseq st' = helloseq st + 1"
    "map_of (peers st') (deviceId (myIdentity (toy_node 2))) = Some p" "negotiated (deref st' p)"
    "sec_inv (toy_node 1) st'"
proof -
  let ?A = "toy_node 1" and ?B = "toy_node 2" and ?b = "deviceId (myIdentity (toy_node 2))"
  have cr: "node_crypto (toy_node k) = toy_crypto" "isPeerAllowed (toy_node k) i" for k i
    by (simp_all add: toy_node_def)
  have inv0: "sec_inv ?A (SecurityLayer ?A 0)" by (rule sec_reachable_inv) (rule sec_reachable.start)
  obtain r st where g0: "getOrCreatePeer ?A ?b (SecurityLayer ?A 0) = (r, st)"
    by (cases "getOrCreatePeer ?A ?b (SecurityLayer ?A 0)")
  then obtain p where r: "r = Some p" using getOrCreatePeer_None cr(2) by (cases r) fastforce+
  note g = g0 [unfolded r]
  have inv: "sec_inv ?A st" using getOrCreatePeer_sec_inv [OF inv0 g] .
  have pc0: "pc_inv ?A (SecurityLayer ?A 0)" using inv0 by (simp add: sec_inv_def)
  note p = getOrCreatePeer_Some [OF pc0 g]
  have fresh: "\<not> negotiated (deref st p)"
    using getOrCreatePeer_heap [OF g] p(2) by (auto simp: SecurityLayer_def)
  let ?kx = "fst (kx_keypair toy_crypto 50)" and ?x = "deref st p"
  have "\<exists>rx tx. (if ?b < deviceId (myIdentity ?A)
       then kx_client toy_crypto (rxKey ?x, txKey ?x) (kxPubkey ?x) (kxPrivkey ?x) ?kx
       else kx_server toy_crypto (rxKey ?x, txKey ?x) (kxPubkey ?x) (kxPrivkey ?x) ?kx) = (True, rx, tx)"
    by (simp add: toy_crypto_def)
  then obtain rx tx where k: "(if ?b < deviceId (myIdentity ?A)
       then kx_client toy_crypto (rxKey ?x, txKey ?x) (kxPubkey ?x) (kxPrivkey ?x) ?kx
       else kx_server toy_crypto (rxKey ?x, txKey ?x) (kxPubkey ?x) (kxPrivkey ?x) ?kx) = (True, rx, tx)" by blast
  obtain out st' where *: "onLowerLayerData_sec ?A 0 ?b
      (helloPacket ?B ?kx 3 (deviceId (myIdentity ?A)) 0 (helloseq st)) st = Some (out, st')"
    "map_of (peers st') ?b = Some p" "negotiated (deref st' p)" "helloseq st' = helloseq st + 1"
    using negotiate [OF toy_crypto_sizes toy_crypto_laws cr(1) cr(1) toy_node_wf toy_addresses inv p(1) cr(2) _ _ k,
        of 3 0 0] crypto_sizesD(5) [OF toy_crypto_sizes, of 50] by auto
  have ne: "helloPacket ?B ?kx 3 (deviceId (myIdentity ?A)) 0 (helloseq st) \<noteq> []"
    by (simp add: helloPacket_def helloBody_def)
  have inv': "sec_inv ?A st'" using onLowerLayerData_sec_inv [OF inv ne, of 0 ?b] *(1) by (simp add: returns_inv_def)
  then have "p < length (heap st')" using *(2) by (simp add: sec_inv_def pc_inv_def)
  then have "session_of st' p \<noteq> session_of st p" using fresh *(3) p(2) by (simp add: session_of_def session_def)
  then show ?thesis using that [OF inv *(1) _ *(4,2,3) inv'] by blast
qed

section \<open>Properties\<close>

text \<open>In every reachable state of the security layer, whatever frames and requests arrived
  in whatever order and however the policy changed, the counter of waiting packets is their
  number, it is between 0 and \<open>MAX_QUEUED_PACKETS\<close>, and a peer with a session has none waiting.\<close>

theorem waiting_packets_bounded:
  assumes "sec_reachable nd st"
  shows "queuedPackets st = waiting (heap st) \<and> 0 \<le> queuedPackets st \<and>
    queuedPackets st \<le> MAX_QUEUED_PACKETS \<and>
    list_all (\<lambda>x. negotiated x \<longrightarrow> packetQueue x = []) (heap st)"
  using sec_reachable_inv [OF assms] waiting_nonneg [of "heap st"]
  by (auto simp: sec_inv_def list_all_iff queue_ok_def)

theorem waiting_packets_bounded_witness:
  "sec_reachable (toy_node 1) (SecurityLayer (toy_node 1) 0) \<and>
   queuedPackets (SecurityLayer (toy_node 1) 0) \<le> MAX_QUEUED_PACKETS"
  using waiting_packets_bounded [OF sec_reachable.start [of "toy_node 1" 0]] sec_reachable.start by blast

text \<open>In a reachable state, a frame from below makes the layer fail (an assertion in
  \<open>string_view\<close>) exactly when it is empty; every other byte string is handled.\<close>

theorem lower_data_total:
  assumes "sec_reachable nd st"
  shows "onLowerLayerData_sec nd now i d st = None \<longleftrightarrow> d = []"
  using onLowerLayerData_sec_inv [OF sec_reachable_inv [OF assms], of d now i]
  by (cases "d = []") (auto simp: onLowerLayerData_sec_Nil returns_inv_def)

theorem lower_data_total_witness:
  "onLowerLayerData_sec (toy_node 1) 0 wildcard [] (SecurityLayer (toy_node 1) 0) = None \<and>
   onLowerLayerData_sec (toy_node 1) 0 wildcard [0xFF] (SecurityLayer (toy_node 1) 0) \<noteq> None"
  using lower_data_total [OF sec_reachable.start [of "toy_node 1" 0]] by simp

text \<open>C3: A frame from below changes the session of a peer (whether it is negotiated, and its
  two keys) only if it is a second or third hello packet of at least 161 bytes that is
  addressed to this node, signed by a key whose hash is the sender's address, and carries the
  current sequence number; and then the peer is the one with the sender's address.\<close>

theorem session_change_authenticated:
  assumes "sec_inv nd st" and "onLowerLayerData_sec nd now i d st = Some (out, st')"
    and "session_of st' q \<noteq> session_of st q"
  shows "peer_id (deref st' q) = i \<and> 161 \<le> length d \<and> (d ! 0 = 2 \<or> d ! 0 = 3) \<and>
    IpAddress (chunk 65 16 d) = deviceId (myIdentity nd) \<and>
    pubkeyToDeviceId (node_crypto nd) (chunk 1 32 d) = i \<and>
    verifySignature (node_crypto nd) (take (length d - 64) d) (str ''ng-kx-pubkey'') (chunk 1 32 d)
      (drop (length d - 64) d) \<and>
    hello_myseq d = helloseq st"
  using onLowerLayerData_sec_fresh [OF assms(1,2)] assms(3)
  by (auto simp: hello_fresh_def hello_accepted_def hello_signed_def)

theorem session_change_authenticated_witness:
  "\<exists>st d q. hello_myseq d = helloseq (st :: sec_state) \<and> 161 \<le> length d \<and>
    pubkeyToDeviceId toy_crypto (chunk 1 32 d) = deviceId (myIdentity (toy_node 2))"
proof -
  obtain st p d out st' where "sec_inv (toy_node 1) st"
    "onLowerLayerData_sec (toy_node 1) 0 (deviceId (myIdentity (toy_node 2))) d st = Some (out, st')"
    "session_of st' p \<noteq> session_of (st :: sec_state) p"
    by (rule toy_session)
  from session_change_authenticated [OF this] show ?thesis by (auto simp: toy_node_def)
qed

text \<open>C4: A hello packet that advanced the sequence number is ignored when it is played back
  after any number of events below \<open>2 ^ 64 - 1\<close>: no frame is sent and no session changes.\<close>

theorem hello_replay_ignored:
  assumes "sec_inv nd st" and "onLowerLayerData_sec nd now i d st = Some (out, st1)"
    and "helloseq st1 \<noteq> helloseq st" and "sec_run nd n st1 st2" and "n < 2 ^ 64 - 1"
  shows "\<exists>st3. onLowerLayerData_sec nd now' i d st2 = Some ([], st3) \<and>
    (\<forall>q. session_of st3 q = session_of st2 q) \<and> helloseq st3 = helloseq st2"
proof -
  have fresh: "hello_fresh nd i d st" and h1: "helloseq st1 = helloseq st + 1"
    using onLowerLayerData_sec_fresh [OF assms(1,2)] assms(3) by auto
  have ne: "d \<noteq> []" using fresh by (auto simp: hello_fresh_def)
  have inv1: "sec_inv nd st1"
    using onLowerLayerData_sec_inv [OF assms(1) ne, of now i] assms(2) by (simp add: returns_inv_def)
  obtain j where j: "j \<le> n" "helloseq st2 = helloseq st1 + word_of_nat j" and inv2: "sec_inv nd st2"
    using sec_run_helloseq [OF assms(4) inv1] by blast
  have "word_of_nat (Suc j) \<noteq> (0 :: u64)"
  proof
    assume "word_of_nat (Suc j) = (0 :: u64)"
    then have "unat (word_of_nat (Suc j) :: u64) = 0" by simp
    then show False using j(1) assms(5) by (simp only: unat_of_nat) simp
  qed
  then have "helloseq st2 \<noteq> helloseq st" using h1 j(2) by (simp add: algebra_simps)
  then show ?thesis
    using stale_hello_ignored [OF inv2 _ _ ne, of now' i] fresh by (auto simp: hello_fresh_def)
qed

theorem hello_replay_ignored_witness:
  "\<exists>st st1 out d st3. helloseq st1 = helloseq (st :: sec_state) + 1 \<and>
    onLowerLayerData_sec (toy_node 1) 0 (deviceId (myIdentity (toy_node 2))) d st = Some (out, st1) \<and>
    onLowerLayerData_sec (toy_node 1) 5 (deviceId (myIdentity (toy_node 2))) d st1 = Some ([], st3)"
proof -
  obtain st p d out st' where h: "sec_inv (toy_node 1) st"
    "onLowerLayerData_sec (toy_node 1) 0 (deviceId (myIdentity (toy_node 2))) d st = Some (out, st')"
    "helloseq st' = helloseq (st :: sec_state) + 1"
    by (rule toy_session)
  have ne: "helloseq st' \<noteq> helloseq st" using h(3) by simp
  from hello_replay_ignored [OF h(1,2) ne sec_run.run_none, of 5]
  have "\<exists>st3. onLowerLayerData_sec (toy_node 1) 5 (deviceId (myIdentity (toy_node 2))) d st' = Some ([], st3)" by auto
  then show ?thesis using h by blast
qed

text \<open>C2: The handshake of two nodes ends in agreement.  When a node sends a first hello packet
  to a peer and the three packets are delivered, both sides have a session with each other, and
  the transmission key of either is the reception key of the other, whatever their states were
  before.\<close>

theorem handshake_agreement:
  assumes "crypto_sizes c" and "crypto_laws c" and "node_crypto ndA = c" and "node_crypto ndB = c"
    and "node_wf ndA" and "node_wf ndB"
    and "a = deviceId (myIdentity ndA)" and "b = deviceId (myIdentity ndB)" and "a \<noteq> b"
    and "isPeerAllowed ndA b" and "isPeerAllowed ndB a"
    and "sec_inv ndA stA" and "sec_inv ndB stB" and "kx_ok c stA" and "kx_ok c stB"
    and "map_of (peers stA) b = Some p" and "sendHelloPacket ndA p 1 0 stA = Some (ToLower b hello1)"
  shows "\<exists>hello2 hello3 outA outB stB1 stA2 stB3 q.
    onLowerLayerData_sec ndB t1 a hello1 stB = Some ([ToLower a hello2], stB1) \<and>
    onLowerLayerData_sec ndA t2 b hello2 stA = Some (outA @ [ToLower b hello3], stA2) \<and>
    onLowerLayerData_sec ndB t3 a hello3 stB1 = Some (outB, stB3) \<and>
    map_of (peers stA2) b = Some p \<and> map_of (peers stB3) a = Some q \<and>
    negotiated (deref stA2 p) \<and> negotiated (deref stB3 q) \<and>
    txKey (deref stA2 p) = rxKey (deref stB3 q) \<and> rxKey (deref stA2 p) = txKey (deref stB3 q)"
  using assms by (rule handshake)

theorem handshake_agreement_witness:
  "\<exists>(stA :: sec_state) p hello1 hello2 hello3 outA outB stB1 stA2 stB3 q.
    sendHelloPacket (toy_node 1) p 1 0 stA = Some (ToLower (deviceId (myIdentity (toy_node 2))) hello1) \<and>
    onLowerLayerData_sec (toy_node 2) 1 (deviceId (myIdentity (toy_node 1))) hello1 (SecurityLayer (toy_node 2) 0) =
      Some ([ToLower (deviceId (myIdentity (toy_node 1))) hello2], stB1) \<and>
    onLowerLayerData_sec (toy_node 1) 2 (deviceId (myIdentity (toy_node 2))) hello2 stA =
      Some (outA @ [ToLower (deviceId (myIdentity (toy_node 2))) hello3], stA2) \<and>
    onLowerLayerData_sec (toy_node 2) 3 (deviceId (myIdentity (toy_node 1))) hello3 stB1 = Some (outB, stB3) \<and>
    negotiated (deref stA2 p) \<and> negotiated (deref stB3 q) \<and>
    txKey (deref stA2 p) = rxKey (deref stB3 q) \<and> rxKey (deref stA2 p) = txKey (deref stB3 q)"
proof -
  let ?A = "toy_node 1" and ?B = "toy_node 2"
  let ?a = "deviceId (myIdentity ?A)" and ?b = "deviceId (myIdentity ?B)"
  have cr: "node_crypto (toy_node k) = toy_crypto" "isPeerAllowed (toy_node k) i" for k i
    by (simp_all add: toy_node_def)
  have inv0: "sec_inv (toy_node k) (SecurityLayer (toy_node k) 0)" for k
    by (rule sec_reachable_inv) (rule sec_reachable.start)
  have kx0: "kx_ok toy_crypto (SecurityLayer nd 0)" for nd by (simp add: kx_ok_def SecurityLayer_def)
  obtain r st where g0: "getOrCreatePeer ?A ?b (SecurityLayer ?A 0) = (r, st)"
    by (cases "getOrCreatePeer ?A ?b (SecurityLayer ?A 0)")
  then obtain p where r: "r = Some p" using getOrCreatePeer_None cr(2) by (cases r) fastforce+
  note g = g0 [unfolded r]
  have pc0: "pc_inv ?A (SecurityLayer ?A 0)" using inv0 by (simp add: sec_inv_def)
  note p = getOrCreatePeer_Some [OF pc0 g]
  have kx: "kx_ok toy_crypto st" using getOrCreatePeer_kx_ok [OF _ g] kx0 cr(1) by simp
  obtain hello1 where h: "sendHelloPacket ?A p 1 0 st = Some (ToLower ?b hello1)"
    using sendHelloPacket_eq [of 1 ?A p 0 st] p(3) by simp
  from handshake_agreement [OF toy_crypto_sizes toy_crypto_laws cr(1) cr(1) toy_node_wf refl refl toy_addresses
      cr(2) cr(2) getOrCreatePeer_sec_inv [OF inv0 g] inv0 kx kx0 p(1) h, of 1 2 3]
  show ?thesis using h by blast
qed

text \<open>A payload of 1 to 1950 bytes sent through a session is delivered unchanged to the layer
  above by a peer that holds the matching reception key.\<close>

theorem data_delivery:
  assumes "crypto_sizes c" and "crypto_laws c" and "node_crypto ndA = c" and "node_crypto ndB = c"
    and "pc_inv ndB stB" and "map_of (peers stB) a = Some q" and "a \<noteq> deviceId (myIdentity ndB)"
    and "isPeerAllowed ndB a" and "a \<noteq> IpAddress_default" and "negotiated (deref stB q)"
    and "txKey (deref stA p) = rxKey (deref stB q)" and "m \<noteq> []" and "length m \<le> 1950"
  shows "\<exists>d stA' stB'.
    doSendDataPacket ndA p m stA = Some ([ToLower (peer_id (deref stA p)) d], stA') \<and>
    onLowerLayerData_sec ndB now a d stB = Some ([ToUpper a m], stB')"
  using handleDataPacket_accepts [of ndB stB a q m "randombytes c (draws stA) 24" "pack (0 :: u64)" now]
    doSendDataPacket_frame [of m ndA p stA] assms
  by (auto simp: crypto_sizesD)

theorem data_delivery_witness:
  "\<exists>stA (stB :: sec_state) d stA' stB'.
    doSendDataPacket (toy_node 2) 0 [1, 2, 3] stA = Some ([ToLower (peer_id (deref stA 0)) d], stA' :: sec_state) \<and>
    onLowerLayerData_sec (toy_node 1) 9 (deviceId (myIdentity (toy_node 2))) d stB =
      Some ([ToUpper (deviceId (myIdentity (toy_node 2))) [1, 2, 3]], stB')"
proof -
  let ?b = "deviceId (myIdentity (toy_node 2))"
  have cr: "node_crypto (toy_node k) = toy_crypto" "isPeerAllowed (toy_node k) i" for k i
    by (simp_all add: toy_node_def)
  obtain p stB where B: "map_of (peers stB) ?b = Some p" "negotiated (deref (stB :: sec_state) p)" "sec_inv (toy_node 1) stB"
    by (rule toy_session)
  have pc: "pc_inv (toy_node 1) stB" using B(3) by (simp add: sec_inv_def)
  let ?stA = "(SecurityLayer (toy_node 2) 0)\<lparr>heap := [Peer_new\<lparr>txKey := rxKey (deref stB p)\<rparr>]\<rparr>"
  have k: "txKey (deref ?stA 0) = rxKey (deref stB p)" by simp
  have s: "crypto_sizes (node_crypto (toy_node 2))" by (simp add: cr toy_crypto_sizes)
  have m: "[1, 2, 3 :: byte] \<noteq> []" "length [1, 2, 3 :: byte] \<le> 1950" by simp_all
  from data_delivery [OF toy_crypto_sizes toy_crypto_laws cr(1) cr(1) pc B(1) toy_addresses [symmetric] cr(2)
      node_wf_ip(2) [OF toy_node_wf(2) s] B(2) k m, of 2 9]
  show ?thesis by blast
qed

text \<open>C13: Whatever the layer delivers upwards was encrypted under the reception key of a
  negotiated session with the sender: the frame is the encryption of the delivered bytes,
  preceded by eight others, with the nonce in the frame.\<close>

theorem delivered_is_authentic:
  assumes "crypto_sizes (node_crypto nd)" and "crypto_laws (node_crypto nd)" and "pc_inv nd st"
    and "onLowerLayerData_sec nd now i d st = Some (out, st')" and "ToUpper j m \<in> set out"
  shows "j = i \<and> (\<exists>p s. map_of (peers st') i = Some p \<and> negotiated (deref st' p) \<and> length s = 8 \<and>
    d = 0 # chunk 1 24 d @ secretbox (node_crypto nd) (rxKey (deref st' p)) (chunk 1 24 d) (s @ m))"
proof -
  note u = onLowerLayerData_sec_upper [OF assms(4,5)]
  obtain p st1 b where g: "getOrCreatePeer nd i st = (Some p, st1)" "negotiated (deref st1 p)" "j = i"
    "49 < length d" "m = chunk 8 (length d - 49) b" "st' = modify p (lastValidPacket_update (\<lambda>_. now)) st1"
    and o: "secretbox_open (node_crypto nd) (rxKey (deref st1 p)) (chunk 1 24 d) (drop 25 d) = Some b"
    using handleDataPacket_upper [OF assms(3) _ assms(5)] u by blast
  note p = getOrCreatePeer_Some [OF assms(3) g(1)]
  have box: "drop 25 d = secretbox (node_crypto nd) (rxKey (deref st1 p)) (chunk 1 24 d) b"
    using assms(2) o by (simp add: crypto_laws_def)
  have len: "length b = length d - 41"
    using arg_cong [OF box, of length] g(4) assms(1) by (simp add: crypto_sizesD)
  have b: "b = take 8 b @ m" using len g(4,5) by (simp add: chunk_def)
  have d0: "d = 0 # tl d" using u by (cases d) auto
  have "tl (x # t) = chunk 1 24 (x # t) @ drop 25 (x # t)" for x :: byte and t
    by (simp add: chunk_def layout)
  from this [of 0 "tl d"] have "tl d = chunk 1 24 d @ drop 25 d" using d0 by simp
  then have "d = 0 # chunk 1 24 d @ secretbox (node_crypto nd) (rxKey (deref st1 p)) (chunk 1 24 d) (take 8 b @ m)"
    using d0 box b by simp
  moreover have "deref st' p = (deref st1 p)\<lparr>lastValidPacket := now\<rparr>"
    using p(2) by (simp add: g(6) deref_modify)
  ultimately show ?thesis
    using g p len by (auto intro!: exI [of _ "take 8 b"])
qed

theorem delivered_is_authentic_witness:
  "\<exists>(st :: sec_state) p s d. negotiated (deref st p) \<and> length s = 8 \<and>
    d = 0 # chunk 1 24 d @ secretbox toy_crypto (rxKey (deref st p)) (chunk 1 24 d) (s @ [1, 2, 3])"
proof -
  let ?b = "deviceId (myIdentity (toy_node 2))"
  have cr: "node_crypto (toy_node k) = toy_crypto" "isPeerAllowed (toy_node k) i" for k i
    by (simp_all add: toy_node_def)
  have laws: "crypto_sizes (node_crypto (toy_node 1))" "crypto_laws (node_crypto (toy_node 1))"
    "crypto_sizes (node_crypto (toy_node 2))"
    by (simp_all add: cr toy_crypto_sizes toy_crypto_laws)
  obtain p stB where B: "map_of (peers stB) ?b = Some p" "negotiated (deref (stB :: sec_state) p)" "sec_inv (toy_node 1) stB"
    by (rule toy_session)
  have pc: "pc_inv (toy_node 1) stB" using B(3) by (simp add: sec_inv_def)
  obtain st' where r: "onLowerLayerData_sec (toy_node 1) 0 ?b
      (0 # replicate 24 0 @ secretbox (node_crypto (toy_node 1)) (rxKey (deref stB p)) (replicate 24 0) (replicate 8 0 @ [1, 2, 3])) stB =
      Some ([ToUpper ?b [1, 2, 3]], st')"
    using handleDataPacket_accepts [OF laws(1,2) pc B(1) toy_addresses [symmetric] cr(2)
        node_wf_ip(2) [OF toy_node_wf(2) laws(3)] B(2), of "[1, 2, 3]" "replicate 24 0" "replicate 8 0" 0] by auto
  have mem: "ToUpper ?b [1, 2, 3] \<in> set [ToUpper ?b [1, 2, 3]]" by simp
  from delivered_is_authentic [OF laws(1,2) pc r mem] show ?thesis unfolding cr(1) by blast
qed

text \<open>C14: The sender's size limit is larger than the receiver's: a payload of 1951 to 2001 bytes
  is encrypted and sent, and every receiver drops the frame.\<close>

theorem oversize_payload_lost:
  assumes "crypto_sizes (node_crypto nd)" and "1950 < length m" and "length m \<le> 2001"
  shows "\<exists>d st'. doSendDataPacket nd p m st = Some ([ToLower (peer_id (deref st p)) d], st') \<and>
    (\<forall>nd' now i stB. onLowerLayerData_sec nd' now i d stB = Some ([], stB))"
  using assms doSendDataPacket_frame [OF assms(3), of nd p st]
  by (auto simp: onLowerLayerData_sec_def decryptedBuffer_size_def crypto_sizesD)

theorem oversize_payload_lost_witness:
  "length (replicate 1960 (7 :: byte)) = 1960 \<and>
   (\<exists>d st'. doSendDataPacket (toy_node 1) 0 (replicate 1960 7) (SecurityLayer (toy_node 1) 0) =
      Some ([ToLower (peer_id (deref (SecurityLayer (toy_node 1) 0) 0)) d], st') \<and>
    (\<forall>nd' now i stB. onLowerLayerData_sec nd' now i d (stB :: sec_state) = Some ([], stB)))"
proof -
  have "crypto_sizes (node_crypto (toy_node 1))" by (simp add: toy_node_def toy_crypto_sizes)
  then show ?thesis using oversize_payload_lost [of "toy_node 1" "replicate 1960 7" 0 "SecurityLayer (toy_node 1) 0"]
    by simp
qed

end
