(* ===== verification/NgMessages.thy ===== *)
theory NgMessages
  imports SecurityLayer
begin

text \<open>
  \<open>ngsocket_messages.h\<close> and the parsers and serializers of \<open>ngsocket.cpp\<close>: the messages a node
  exchanges with other peers and with the base server.  A message is the record of the C++
  structure, with the fields its kind does not use at their defaults; a failed assertion and
  \<open>abort()\<close> are \<open>None\<close>.

  The results: the parsers return on every input; what a node serializes for a peer, the peer
  parses to the message meant, with the sender's address; a parsed hello message carries a
  valid signature by the key of its sender; and the base server's address lists are read
  back exactly.
\<close>

section \<open>Messages\<close>

datatype BaseToPeerMessageKind =
  BTP_HELLO | BTP_DEVICE_ADDRESSES | BTP_DATA | BTP_NAT_OK | BTP_STATE | BTP_REDIRECT | BTP_INVALID

primrec BTP_value :: "BaseToPeerMessageKind \<Rightarrow> byte" where
  "BTP_value BTP_HELLO = 0"
| "BTP_value BTP_DEVICE_ADDRESSES = 1"
| "BTP_value BTP_DATA = 2"
| "BTP_value BTP_NAT_OK = 3"
| "BTP_value BTP_STATE = 4"
| "BTP_value BTP_REDIRECT = 5"
| "BTP_value BTP_INVALID = 6"

definition BTP_from_integral :: "byte \<Rightarrow> BaseToPeerMessageKind option" where
  "BTP_from_integral b =
     List.find (\<lambda>k. BTP_value k = b)
       [BTP_HELLO, BTP_DEVICE_ADDRESSES, BTP_DATA, BTP_NAT_OK, BTP_STATE, BTP_REDIRECT, BTP_INVALID]"

record BaseToPeerMessage =
  btp_kind :: BaseToPeerMessageKind
  btp_cookie :: bytes
  btp_udpAddress :: "inetaddress list"
  btp_natTransientRange :: "int \<times> int"
  btp_deviceId :: HusarnetAddress
  btp_addresses :: "inetaddress list"
  btp_source :: HusarnetAddress
  btp_data :: bytes
  btp_newBaseAddress :: inetaddress

definition BaseToPeerMessage_invalid :: BaseToPeerMessage where
  "BaseToPeerMessage_invalid =
     \<lparr>btp_kind = BTP_INVALID, btp_cookie = fstring_default 16, btp_udpAddress = [],
      btp_natTransientRange = (0, 0), btp_deviceId = IpAddress_default, btp_addresses = [],
      btp_source = IpAddress_default, btp_data = [], btp_newBaseAddress = InetAddress_default\<rparr>"

datatype PeerToBaseMessageKind =
  PTB_REQUEST_INFO | PTB_DATA | PTB_INFO | PTB_NAT_INIT | PTB_USER_AGENT | PTB_NAT_OK_CONFIRM |
  PTB_NAT_INIT_TRANSIENT | PTB_INVALID

primrec PTB_value :: "PeerToBaseMessageKind \<Rightarrow> byte" where
  "PTB_value PTB_REQUEST_INFO = 0"
| "PTB_value PTB_DATA = 1"
| "PTB_value PTB_INFO = 2"
| "PTB_value PTB_NAT_INIT = 3"
| "PTB_value PTB_USER_AGENT = 4"
| "PTB_value PTB_NAT_OK_CONFIRM = 5"
| "PTB_value PTB_NAT_INIT_TRANSIENT = 6"
| "PTB_value PTB_INVALID = 7"

record PeerToBaseMessage =
  ptb_kind :: PeerToBaseMessageKind
  ptb_cookie :: bytes
  ptb_deviceId :: HusarnetAddress
  ptb_addresses :: "inetaddress list"
  ptb_target :: HusarnetAddress
  ptb_data :: bytes
  ptb_counter :: u64
  ptb_userAgent :: bytes

definition PeerToBaseMessage_of :: "PeerToBaseMessageKind \<Rightarrow> PeerToBaseMessage" where
  "PeerToBaseMessage_of k =
     \<lparr>ptb_kind = k, ptb_cookie = fstring_default 16, ptb_deviceId = IpAddress_default, ptb_addresses = [],
      ptb_target = IpAddress_default, ptb_data = [], ptb_counter = 0, ptb_userAgent = []\<rparr>"

datatype PeerToPeerMessageKind = PTP_HELLO | PTP_HELLO_REPLY | PTP_DATA | PTP_INVALID

primrec PTP_value :: "PeerToPeerMessageKind \<Rightarrow> byte" where
  "PTP_value PTP_HELLO = 0"
| "PTP_value PTP_HELLO_REPLY = 1"
| "PTP_value PTP_DATA = 2"
| "PTP_value PTP_INVALID = 3"

record PeerToPeerMessage =
  ptp_kind :: PeerToPeerMessageKind
  ptp_myId :: HusarnetAddress
  ptp_yourId :: HusarnetAddress
  ptp_helloCookie :: bytes
  ptp_data :: bytes

definition PeerToPeerMessage_of :: "PeerToPeerMessageKind \<Rightarrow> PeerToPeerMessage" where
  "PeerToPeerMessage_of k =
     \<lparr>ptp_kind = k, ptp_myId = IpAddress_default, ptp_yourId = IpAddress_default,
      ptp_helloCookie = [], ptp_data = []\<rparr>"

section \<open>Parsing messages of the base server\<close>

text \<open>One entry of an address list: 16 bytes of address and a port, at offset \<open>i\<close>.\<close>

definition parseInet :: "bytes \<Rightarrow> nat \<Rightarrow> inetaddress option" where
  "parseInet d i = do {
     a \<leftarrow> Option.bind (sv_substr2 d (int i) 16) fromBinaryString;
     p \<leftarrow> Option.bind (sv_substr2 d (int (i + 16)) 2) unpack;
     Some (InetAddress a p)
   }"

function parseAddresses :: "bytes \<Rightarrow> nat \<Rightarrow> inetaddress list \<Rightarrow> inetaddress list option" where
  "parseAddresses d i acc =
     (if i + 18 \<le> length d
      then (case parseInet d i of None \<Rightarrow> None | Some a \<Rightarrow> parseAddresses d (i + 18) (acc @ [a]))
      else Some acc)"
  by pat_completeness auto

termination
  by (relation "measure (\<lambda>(d, i, acc). length d - i)") auto

function parseStateAddresses :: "bytes \<Rightarrow> nat \<Rightarrow> inetaddress list \<Rightarrow> (inetaddress list \<times> nat) option" where
  "parseStateAddresses d i acc =
     (if i + 18 \<le> length d \<and> length acc < 5
      then (case parseInet d i of None \<Rightarrow> None | Some a \<Rightarrow> parseStateAddresses d (i + 18) (acc @ [a]))
      else Some (acc, i))"
  by pat_completeness auto

termination
  by (relation "measure (\<lambda>(d, i, acc). length d - i)") auto

declare parseAddresses.simps [simp del] parseStateAddresses.simps [simp del]

definition finishKind :: "byte \<Rightarrow> BaseToPeerMessage \<Rightarrow> BaseToPeerMessage" where
  "finishKind d0 msg =
     (case BTP_from_integral d0 of Some k \<Rightarrow> msg\<lparr>btp_kind := k\<rparr> | None \<Rightarrow> msg)"

definition parseBaseToPeerMessage :: "bytes \<Rightarrow> BaseToPeerMessage option" where
  "parseBaseToPeerMessage d =
     (let msg = BaseToPeerMessage_invalid in
      if length d = 0 then Some msg
      else do {
        d0 \<leftarrow> sv_index d 0;
        if d0 = BTP_value BTP_HELLO then
          (if length d \<noteq> 17 then Some msg
           else do { c \<leftarrow> substr 1 16 d; Some (finishKind d0 (msg\<lparr>btp_cookie := c\<rparr>)) })
        else if d0 = BTP_value BTP_DEVICE_ADDRESSES then
          (if length d \<le> 17 then Some msg
           else do {
             i \<leftarrow> substr 1 16 d;
             as \<leftarrow> parseAddresses d 17 [];
             Some (finishKind d0 (msg\<lparr>btp_deviceId := IpAddress i, btp_addresses := as\<rparr>))
           })
        else if d0 = BTP_value BTP_DATA then
          (if length d \<le> 17 then Some msg
           else do {
             s \<leftarrow> substr 1 16 d;
             x \<leftarrow> sv_substr d 17;
             Some (finishKind d0 (msg\<lparr>btp_source := IpAddress s, btp_data := x\<rparr>))
           })
        else if d0 = BTP_value BTP_NAT_OK then Some (finishKind d0 msg)
        else if d0 = BTP_value BTP_STATE then
          do {
            (as, i) \<leftarrow> parseStateAddresses d 1 [];
            msg \<leftarrow> (if i + 4 \<le> length d
              then do {
                a \<leftarrow> Option.bind (sv_substr2 d (int i) 2) unpack;
                b \<leftarrow> Option.bind (sv_substr2 d (int (i + 2)) 2) unpack;
                Some (msg\<lparr>btp_udpAddress := as, btp_natTransientRange := (uint (a :: u16), uint (b :: u16))\<rparr>)
              }
              else Some (msg\<lparr>btp_udpAddress := as\<rparr>));
            if length (btp_udpAddress msg) < 1 then Some msg else Some (finishKind d0 msg)
          }
        else Some msg
      })"

section \<open>Messages between peers\<close>

definition parsePeerToPeerMessage :: "crypto \<Rightarrow> bytes \<Rightarrow> PeerToPeerMessage option" where
  "parsePeerToPeerMessage c d =
     (let msg = PeerToPeerMessage_of PTP_INVALID in
      if length d = 0 then Some msg
      else do {
        d0 \<leftarrow> sv_index d 0;
        if d0 = PTP_value PTP_HELLO \<or> d0 = PTP_value PTP_HELLO_REPLY then
          (if length d \<noteq> 1 + 16 * 3 + 32 + 64 then Some msg
           else do {
             myId \<leftarrow> substr 1 16 d;
             pk \<leftarrow> Option.bind (sv_substr2 d 17 32) (fstring 32);
             yourId \<leftarrow> substr (17 + 32) 16 d;
             cookie \<leftarrow> sv_substr2 d (17 + 48) 16;
             signature \<leftarrow> Option.bind (sv_substr2 d (17 + 64) 64) (fstring 64);
             signed \<leftarrow> sv_substr2 d 0 (17 + 64);
             let msg = msg\<lparr>ptp_myId := IpAddress myId, ptp_yourId := IpAddress yourId, ptp_helloCookie := cookie\<rparr>;
             if pubkeyToDeviceId c pk \<noteq> ptp_myId msg then Some msg
             else if \<not> verifySignature c signed (str ''ng-p2p-msg'') pk signature then Some msg
             else Some (msg\<lparr>ptp_kind := (if d0 = 0 then PTP_HELLO else PTP_HELLO_REPLY)\<rparr>)
           })
        else if d0 = PTP_value PTP_DATA then
          do { x \<leftarrow> sv_substr d 1; Some (msg\<lparr>ptp_kind := PTP_DATA, ptp_data := x\<rparr>) }
        else Some msg
      })"

definition serializePeerToPeerMessage :: "node \<Rightarrow> PeerToPeerMessage \<Rightarrow> bytes option" where
  "serializePeerToPeerMessage nd msg =
     (let me = myIdentity nd in
      case ptp_kind msg of
        PTP_INVALID \<Rightarrow> None
      | PTP_DATA \<Rightarrow> Some ([PTP_value PTP_DATA] @ ptp_data msg)
      | k \<Rightarrow>
          if \<not> (length (ip_data (deviceId me)) = 16 \<and> length (ip_data (ptp_yourId msg)) = 16 \<and>
              length (ptp_helloCookie msg) = 16 \<and> length (pubkey me) = 32) then None
          else
            let d = [PTP_value k] @ ip_data (deviceId me) @ pubkey me @ ip_data (ptp_yourId msg) @ ptp_helloCookie msg
            in Some (d @ ngc_sign (node_crypto nd) d (str ''ng-p2p-msg'') me))"

section \<open>Messages to the base server\<close>

text \<open>
  The socket's \<open>cookie\<close>, \<open>localAddresses\<close> and \<open>natInitCounter\<close> are read by the serializer; they are
  arguments here.
\<close>

definition serializePeerToBaseMessage ::
  "node \<Rightarrow> bytes \<Rightarrow> inetaddress list \<Rightarrow> u64 \<Rightarrow> PeerToBaseMessage \<Rightarrow> bytes option" where
  "serializePeerToBaseMessage nd cookie localAddresses natInitCounter msg =
     (let me = myIdentity nd in
      if \<not> (length (ip_data (deviceId me)) = 16 \<and> length cookie = 16 \<and> length (pubkey me) = 32) then None
      else
        let d = [PTB_value (ptb_kind msg)] @ ip_data (deviceId me) @ pubkey me @ cookie;
            signed = (\<lambda>d. Some (d @ ngc_sign (node_crypto nd) d (str ''ng-p2b-msg'') me))
        in case ptb_kind msg of
            PTB_REQUEST_INFO \<Rightarrow> signed (d @ ip_data (ptb_deviceId msg))
          | PTB_DATA \<Rightarrow>
              Some ([PTB_value PTB_DATA] @ ip_data (deviceId me) @ ip_data (ptb_target msg) @ ptb_data msg)
          | PTB_USER_AGENT \<Rightarrow> Some ([PTB_value PTB_USER_AGENT] @ ptb_userAgent msg)
          | PTB_INFO \<Rightarrow>
              signed (d @ concat (map (\<lambda>a. toBinaryString (ip_of a) @ pack (port_of a)) localAddresses))
          | PTB_NAT_INIT \<Rightarrow> signed (d @ pack natInitCounter)
          | PTB_NAT_OK_CONFIRM \<Rightarrow> signed (d @ pack natInitCounter)
          | PTB_NAT_INIT_TRANSIENT \<Rightarrow> signed d
          | PTB_INVALID \<Rightarrow> signed d)"

section \<open>The parsers return\<close>

lemma parseInet_eq:
  "i + 18 \<le> length d \<Longrightarrow>
     parseInet d i = Some (InetAddress (IpAddress (chunk i 16 d)) (le_word (chunk (i + 16) 2 d)))"
  by (simp add: parseInet_def sv_substr2_def fromBinaryString_def unpack_def nat_add_distrib)

lemma parseAddresses_total: "\<exists>r. parseAddresses d i acc = Some r"
proof (induction d i acc rule: parseAddresses.induct)
  case (1 d i acc)
  show ?case
  proof (cases "i + 18 \<le> length d")
    case True
    then show ?thesis using 1 [OF True parseInet_eq [OF True]]
      by (subst parseAddresses.simps) (simp add: parseInet_eq)
  next
    case False
    then show ?thesis by (subst parseAddresses.simps) simp
  qed
qed

lemma parseStateAddresses_total:
  "i \<le> length d \<Longrightarrow> length acc \<le> 5 \<Longrightarrow>
   \<exists>r j. parseStateAddresses d i acc = Some (r, j) \<and> length r \<le> 5 \<and> j \<le> length d"
proof (induction d i acc rule: parseStateAddresses.induct)
  case (1 d i acc)
  show ?case
  proof (cases "i + 18 \<le> length d \<and> length acc < 5")
    case True
    then show ?thesis using "1.IH" [OF True parseInet_eq [OF conjunct1 [OF True]]]
      by (subst parseStateAddresses.simps) (simp add: parseInet_eq)
  next
    case False
    then show ?thesis using "1.prems" by (subst parseStateAddresses.simps) auto
  qed
qed

lemma BTP_from_value [simp]: "BTP_from_integral (BTP_value k) = Some k"
  by (cases k) (simp_all add: BTP_from_integral_def)

lemma finishKind_value [simp]: "finishKind (BTP_value k) msg = msg\<lparr>btp_kind := k\<rparr>"
  by (simp add: finishKind_def)

lemma BTP_from_numerals:
  "BTP_from_integral 0 = Some BTP_HELLO" "BTP_from_integral 1 = Some BTP_DEVICE_ADDRESSES"
  "BTP_from_integral 2 = Some BTP_DATA" "BTP_from_integral 3 = Some BTP_NAT_OK" "BTP_from_integral 4 = Some BTP_STATE"
  by code_simp+

lemma parseBaseToPeerMessage_shape:
  "\<exists>m. parseBaseToPeerMessage d = Some m \<and> btp_kind m \<noteq> BTP_REDIRECT \<and>
     (btp_kind m = BTP_STATE \<longrightarrow> 1 \<le> length (btp_udpAddress m) \<and> length (btp_udpAddress m) \<le> 5) \<and>
     (btp_kind m = BTP_DATA \<longrightarrow> btp_data m \<noteq> []) \<and>
     (btp_kind m = BTP_HELLO \<longrightarrow> length (btp_cookie m) = 16)"
proof (cases d)
  case Nil
  then show ?thesis by (simp add: parseBaseToPeerMessage_def BaseToPeerMessage_invalid_def)
next
  case (Cons d0 r)
  then have ne: "length d \<noteq> 0" "sv_index d 0 = Some d0" by (simp_all add: sv_index_def)
  obtain as where as: "parseAddresses d 17 [] = Some as" using parseAddresses_total by blast
  obtain us j where us: "parseStateAddresses d 1 [] = Some (us, j)" "length us \<le> 5" "j \<le> length d"
    using parseStateAddresses_total [of 1 d "[]"] Cons by auto
  have nat2: "sv_substr2 d (int j) 2 = Some (chunk j 2 d)" "sv_substr2 d (2 + int j) 2 = Some (chunk (j + 2) 2 d)"
    if "j + 4 \<le> length d"
    using that by (simp_all add: sv_substr2_def nat_add_distrib add.commute)
  have up: "unpack (chunk j 2 d) = Some (le_word (chunk j 2 d) :: u16)"
    "unpack (chunk (j + 2) 2 d) = Some (le_word (chunk (j + 2) 2 d) :: u16)" if "j + 4 \<le> length d"
    using that by (simp_all add: unpack_def)
  have drop17: "sv_substr d 17 = Some (drop 17 d)" if "17 < length d" using that by (simp add: sv_substr_def)
  consider "d0 = 0" | "d0 = 1" | "d0 = 2" | "d0 = 3" | "d0 = 4" | "d0 \<notin> {0, 1, 2, 3, 4}" by auto
  then show ?thesis
  proof cases
    case 5
    then show ?thesis using ne us nat2 up
      by (cases us; cases "j + 4 \<le> length d")
        (auto simp: parseBaseToPeerMessage_def finishKind_def BTP_from_numerals BaseToPeerMessage_invalid_def)
  qed (use ne as drop17 in \<open>auto simp: parseBaseToPeerMessage_def finishKind_def BTP_from_numerals
      BaseToPeerMessage_invalid_def not_le Let_def\<close>)
qed

lemma parseBaseToPeerMessage_source:
  assumes "parseBaseToPeerMessage d = Some m" and "btp_kind m = BTP_DATA"
  shows "ip_wf (btp_source m)"
proof -
  obtain d0 r where d: "d = d0 # r" using assms by (cases d) (auto simp: parseBaseToPeerMessage_def BaseToPeerMessage_invalid_def)
  then have ne: "length d \<noteq> 0" "sv_index d 0 = Some d0" by (simp_all add: sv_index_def)
  obtain as where as: "parseAddresses d 17 [] = Some as" using parseAddresses_total by blast
  obtain us j where us: "parseStateAddresses d 1 [] = Some (us, j)" "j \<le> length d"
    using parseStateAddresses_total [of 1 d "[]"] d by auto
  have nat2: "sv_substr2 d (int j) 2 = Some (chunk j 2 d)" "sv_substr2 d (2 + int j) 2 = Some (chunk (j + 2) 2 d)"
    "unpack (chunk j 2 d) = Some (le_word (chunk j 2 d) :: u16)"
    "unpack (chunk (j + 2) 2 d) = Some (le_word (chunk (j + 2) 2 d) :: u16)" if "j + 4 \<le> length d"
    using that by (simp_all add: sv_substr2_def unpack_def nat_add_distrib add.commute)
  note defs = parseBaseToPeerMessage_def finishKind_def BTP_from_numerals BaseToPeerMessage_invalid_def Let_def
  consider "d0 = 0" | "d0 = 1" | "d0 = 2" | "d0 = 3" | "d0 = 4" | "d0 \<notin> {0, 1, 2, 3, 4}" by auto
  then show ?thesis
  proof cases
    case 3
    then show ?thesis
      using ne assms by (auto simp: defs ip_wf_def sv_substr_def split: if_splits)
  next
    case 5
    then show ?thesis using ne assms us nat2
      by (cases us; cases "j + 4 \<le> length d") (auto simp: defs)
  qed (use ne assms as in \<open>auto simp: defs split: if_splits\<close>)
qed

lemma parsePeerToPeerMessage_total: "\<exists>m. parsePeerToPeerMessage c d = Some m"
proof (cases d)
  case Nil
  then show ?thesis by (simp add: parsePeerToPeerMessage_def)
next
  case (Cons d0 r)
  then have ne: "length d \<noteq> 0" "sv_index d 0 = Some d0" "Suc 0 \<le> length d" by (simp_all add: sv_index_def)
  then show ?thesis
    by (auto simp: parsePeerToPeerMessage_def Let_def sv_substr2_def sv_substr_def fstring_def)
qed

section \<open>Hello messages between peers\<close>

lemma parsePeerToPeerMessage_hello:
  assumes "length d = 145" and "d ! 0 = 0 \<or> d ! 0 = 1"
  shows "parsePeerToPeerMessage c d =
    (let msg = (PeerToPeerMessage_of PTP_INVALID)\<lparr>ptp_myId := IpAddress (chunk 1 16 d),
           ptp_yourId := IpAddress (chunk 49 16 d), ptp_helloCookie := chunk 65 16 d\<rparr> in
     if pubkeyToDeviceId c (chunk 17 32 d) = IpAddress (chunk 1 16 d) \<and>
        verifySignature c (take 81 d) (str ''ng-p2p-msg'') (chunk 17 32 d) (chunk 81 64 d)
     then Some (msg\<lparr>ptp_kind := (if d ! 0 = 0 then PTP_HELLO else PTP_HELLO_REPLY)\<rparr>)
     else Some msg)"
  using assms
  by (auto simp: parsePeerToPeerMessage_def Let_def sv_substr2_def sv_index_def fstring_def chunk_0)


lemma serializePeerToPeerMessage_hello:
  assumes k: "k = PTP_HELLO \<or> k = PTP_HELLO_REPLY" and c: "crypto_sizes (node_crypto nd)" and wf: "node_wf nd"
    and you: "ip_wf you" and ck: "length ck = 16"
  defines "b \<equiv> [PTP_value k] @ ip_data (deviceId (myIdentity nd)) @ pubkey (myIdentity nd) @ ip_data you @ ck"
  shows "serializePeerToPeerMessage nd ((PeerToPeerMessage_of k)\<lparr>ptp_yourId := you, ptp_helloCookie := ck\<rparr>) =
      Some (b @ ngc_sign (node_crypto nd) b (str ''ng-p2p-msg'') (myIdentity nd))"
    and "length b = 81"
  using k you ck node_wf_ip(1,3) [OF wf c]
  by (auto simp: serializePeerToPeerMessage_def PeerToPeerMessage_of_def Let_def ip_wf_def b_def)

lemma ngc_sign_verifies:
  assumes "crypto_laws (node_crypto nd)" and "node_wf nd"
  shows "verifySignature (node_crypto nd) d kind (pubkey (myIdentity nd)) (ngc_sign (node_crypto nd) d kind (myIdentity nd))"
proof -
  obtain k where k: "ed_keypair (node_crypto nd) k = (pubkey (myIdentity nd), privkey (myIdentity nd))"
    using assms(2) by (auto simp: node_wf_def)
  have "ed_verify (node_crypto nd) (fst (ed_keypair (node_crypto nd) k)) m (ed_sign (node_crypto nd) (snd (ed_keypair (node_crypto nd) k)) m)" for m
    using assms(1) by (simp add: crypto_laws_def)
  then show ?thesis by (simp add: k verifySignature_def ngc_sign_def Identity_sign_def)
qed

lemma ptp_hello_roundtrip:
  assumes k: "k = PTP_HELLO \<or> k = PTP_HELLO_REPLY" and c: "crypto_sizes (node_crypto nd)" "crypto_laws (node_crypto nd)"
    and wf: "node_wf nd" and you: "ip_wf you" and ck: "length ck = 16"
  shows "\<exists>d. serializePeerToPeerMessage nd ((PeerToPeerMessage_of k)\<lparr>ptp_yourId := you, ptp_helloCookie := ck\<rparr>) = Some d \<and>
    parsePeerToPeerMessage (node_crypto nd) d =
      Some ((PeerToPeerMessage_of k)\<lparr>ptp_myId := deviceId (myIdentity nd), ptp_yourId := you, ptp_helloCookie := ck\<rparr>) \<and>
    length d = 145 \<and> d ! 0 = PTP_value k"
proof -
  let ?me = "myIdentity nd"
  define b where "b = [PTP_value k] @ ip_data (deviceId ?me) @ pubkey ?me @ ip_data you @ ck"
  define sg where "sg = ngc_sign (node_crypto nd) b (str ''ng-p2p-msg'') ?me"
  have s: "serializePeerToPeerMessage nd ((PeerToPeerMessage_of k)\<lparr>ptp_yourId := you, ptp_helloCookie := ck\<rparr>) =
      Some (b @ sg)" "length b = 81"
    using serializePeerToPeerMessage_hello [OF k c(1) wf you ck] by (simp_all only: b_def sg_def)
  have len: "length (ip_data (deviceId ?me)) = 16" "length (pubkey ?me) = 32" "length (ip_data you) = 16"
    using node_wf_ip(1,3) [OF wf c(1)] you by (simp_all add: ip_wf_def)
  have sl: "length sg = 64" using c(1) by (simp add: sg_def ngc_sign_def Identity_sign_def crypto_sizesD)
  have f: "length (b @ sg) = 145" "(b @ sg) ! 0 = PTP_value k" "chunk 1 16 (b @ sg) = ip_data (deviceId ?me)"
    "chunk 17 32 (b @ sg) = pubkey ?me" "chunk 49 16 (b @ sg) = ip_data you" "chunk 65 16 (b @ sg) = ck"
    "chunk 81 64 (b @ sg) = sg" "take 81 (b @ sg) = b"
    using len sl ck s(2) by (simp_all add: b_def layout)
  have k0: "(b @ sg) ! 0 = 0 \<or> (b @ sg) ! 0 = 1" using f(2) k by auto
  have dev: "pubkeyToDeviceId (node_crypto nd) (pubkey ?me) = deviceId ?me"
    using wf by (simp add: node_wf_def identity_wf_def)
  have v: "verifySignature (node_crypto nd) b (str ''ng-p2p-msg'') (pubkey ?me) sg"
    unfolding sg_def by (rule ngc_sign_verifies [OF c(2) wf])
  have "parsePeerToPeerMessage (node_crypto nd) (b @ sg) =
      Some ((PeerToPeerMessage_of k)\<lparr>ptp_myId := deviceId ?me, ptp_yourId := you, ptp_helloCookie := ck\<rparr>)"
    using k unfolding parsePeerToPeerMessage_hello [OF f(1) k0] f(2-8) Let_def
    by (elim disjE) (simp_all only: PTP_value.simps v dev ipaddress.collapse if_True if_False simp_thms, simp_all add: PeerToPeerMessage_of_def)
  then show ?thesis by (intro exI [of _ "b @ sg"] conjI s(1) f(1,2))
qed

lemma ptp_data_roundtrip:
  "\<exists>d. serializePeerToPeerMessage nd ((PeerToPeerMessage_of PTP_DATA)\<lparr>ptp_data := x\<rparr>) = Some d \<and>
    parsePeerToPeerMessage c d = Some ((PeerToPeerMessage_of PTP_DATA)\<lparr>ptp_data := x\<rparr>)"
  by (simp add: serializePeerToPeerMessage_def PeerToPeerMessage_of_def parsePeerToPeerMessage_def
      sv_index_def sv_substr_def Let_def)

lemma parsePeerToPeerMessage_authentic:
  assumes "parsePeerToPeerMessage c d = Some m" and "ptp_kind m = PTP_HELLO \<or> ptp_kind m = PTP_HELLO_REPLY"
  shows "length d = 145 \<and> d ! 0 = PTP_value (ptp_kind m) \<and>
    pubkeyToDeviceId c (chunk 17 32 d) = ptp_myId m \<and>
    verifySignature c (take 81 d) (str ''ng-p2p-msg'') (chunk 17 32 d) (chunk 81 64 d) \<and>
    chunk 49 16 (take 81 d) = ip_data (ptp_yourId m) \<and> chunk 65 16 (take 81 d) = ptp_helloCookie m"
proof -
  have d: "length d = 145 \<and> (d ! 0 = 0 \<or> d ! 0 = 1)"
    using assms by (auto simp: parsePeerToPeerMessage_def PeerToPeerMessage_of_def sv_index_def Let_def bind_eq_Some_conv
        split: if_splits)
  have "chunk 49 16 (take 81 d) = chunk 49 16 d" "chunk 65 16 (take 81 d) = chunk 65 16 d"
    by (simp_all add: chunk_def drop_take min_def)
  then show ?thesis
    using assms d
    by (auto simp: parsePeerToPeerMessage_hello PeerToPeerMessage_of_def Let_def split: if_splits)
qed

section \<open>Address lists\<close>

definition encodeInet :: "inetaddress \<Rightarrow> bytes" where
  "encodeInet a = ip_data (ip_of a) @ pack (port_of a)"

lemma parseInet_encode:
  assumes "ip_wf (ip_of a)"
  shows "parseInet (pre @ encodeInet a @ post) (length pre) = Some a"
proof -
  have "length (ip_data (ip_of a)) = 16" using assms by (simp add: ip_wf_def)
  moreover have "le_word (pack (port_of a)) = port_of a"
    using unpack_pack [of "port_of a"] by (simp add: unpack_def)
  ultimately show ?thesis
    by (subst parseInet_eq) (simp_all add: encodeInet_def layout inetaddress.expand ipaddress.expand)
qed

lemma length_encodeInet: "ip_wf (ip_of a) \<Longrightarrow> length (encodeInet a) = 18"
  by (simp add: encodeInet_def ip_wf_def)

lemma parseAddresses_encode:
  "list_all (\<lambda>a. ip_wf (ip_of a)) as \<Longrightarrow> length post < 18 \<Longrightarrow>
   parseAddresses (pre @ concat (map encodeInet as) @ post) (length pre) acc = Some (acc @ as)"
proof (induction as arbitrary: pre acc)
  case Nil
  then show ?case by (subst parseAddresses.simps) simp
next
  case (Cons a as)
  have "parseInet (pre @ encodeInet a @ concat (map encodeInet as) @ post) (length pre) = Some a"
    using Cons.prems by (intro parseInet_encode) simp
  then show ?case
    using Cons.prems Cons.IH [where pre = "pre @ encodeInet a" and acc = "acc @ [a]"] length_encodeInet [of a]
    by (subst parseAddresses.simps) simp
qed

lemma parseStateAddresses_encode:
  "list_all (\<lambda>a. ip_wf (ip_of a)) as \<Longrightarrow> length post < 18 \<Longrightarrow> length acc + length as \<le> 5 \<Longrightarrow>
   parseStateAddresses (pre @ concat (map encodeInet as) @ post) (length pre) acc =
     Some (acc @ as, length pre + 18 * length as)"
proof (induction as arbitrary: pre acc)
  case Nil
  then show ?case by (subst parseStateAddresses.simps) simp
next
  case (Cons a as)
  have "parseInet (pre @ encodeInet a @ concat (map encodeInet as) @ post) (length pre) = Some a"
    using Cons.prems by (intro parseInet_encode) simp
  then show ?case
    using Cons.prems Cons.IH [where pre = "pre @ encodeInet a" and acc = "acc @ [a]"] length_encodeInet [of a]
    by (subst parseStateAddresses.simps) simp
qed


section \<open>Properties\<close>

text \<open>The parser of base server messages returns on every byte string; it never yields a
  redirection, a state message has one to five addresses, a data message has data and a hello
  message has a cookie of 16 bytes.\<close>

theorem base_parser_total:
  "\<exists>m. parseBaseToPeerMessage d = Some m \<and> btp_kind m \<noteq> BTP_REDIRECT \<and>
     (btp_kind m = BTP_STATE \<longrightarrow> 1 \<le> length (btp_udpAddress m) \<and> length (btp_udpAddress m) \<le> 5) \<and>
     (btp_kind m = BTP_DATA \<longrightarrow> btp_data m \<noteq> []) \<and>
     (btp_kind m = BTP_HELLO \<longrightarrow> length (btp_cookie m) = 16)"
  by (rule parseBaseToPeerMessage_shape)

theorem base_parser_total_witness:
  "\<exists>m. parseBaseToPeerMessage [5, 1, 2] = Some m \<and> btp_kind m \<noteq> BTP_REDIRECT"
  using base_parser_total [of "[5, 1, 2]"] by blast

text \<open>Address lists of the base server are read back exactly: a device-addresses message gives
  the device and all its addresses in order, a state message of one to five addresses gives
  them and the transient port range.\<close>

theorem base_addresses_roundtrip:
  assumes "length i = 16" and "list_all (\<lambda>a. ip_wf (ip_of a)) as" and "as \<noteq> []"
    and "list_all (\<lambda>a. ip_wf (ip_of a)) us" and "us \<noteq> []" and "length us \<le> 5"
  shows "parseBaseToPeerMessage ([1] @ i @ concat (map encodeInet as)) =
      Some (BaseToPeerMessage_invalid\<lparr>btp_kind := BTP_DEVICE_ADDRESSES, btp_deviceId := IpAddress i, btp_addresses := as\<rparr>) \<and>
    parseBaseToPeerMessage ([4] @ concat (map encodeInet us) @ pack (lo :: u16) @ pack (hi :: u16)) =
      Some (BaseToPeerMessage_invalid\<lparr>btp_kind := BTP_STATE, btp_udpAddress := us,
        btp_natTransientRange := (uint lo, uint hi)\<rparr>)"
proof
  let ?d = "[1] @ i @ concat (map encodeInet as)"
  obtain a as' where as: "as = a # as'" using assms(3) by (cases as) auto
  have "\<not> (\<forall>x \<in> set as. encodeInet x = [])" using assms(2) as length_encodeInet [of a] by auto
  moreover have "parseAddresses ?d 17 [] = Some as"
    using parseAddresses_encode [OF assms(2), of "[]" "1 # i" "[]"] assms(1) by simp
  moreover have "chunk 1 16 ?d = i" using assms(1) by (simp add: layout)
  ultimately show "parseBaseToPeerMessage ?d =
      Some (BaseToPeerMessage_invalid\<lparr>btp_kind := BTP_DEVICE_ADDRESSES, btp_deviceId := IpAddress i, btp_addresses := as\<rparr>)"
    using assms(1) by (auto simp: parseBaseToPeerMessage_def sv_index_def finishKind_def BTP_from_numerals)
next
  let ?p = "pack lo @ pack hi" and ?u = "concat (map encodeInet us)"
  let ?d = "[4] @ ?u @ ?p"
  have lu: "length ?u = 18 * length us"
    using assms(4) by (induction us) (simp_all add: length_encodeInet)
  have "length ?p < 18" by simp
  from parseStateAddresses_encode [OF assms(4) this, of "[]" "[4]"]
  have st: "parseStateAddresses ?d 1 [] = Some (us, 1 + 18 * length us)" using assms(6) by simp
  have s2: "sv_substr2 ?d (1 + 18 * int (length us)) 2 = Some (pack lo)"
    "sv_substr2 ?d (3 + 18 * int (length us)) 2 = Some (pack hi)"
    using lu by (simp_all add: sv_substr2_def nat_add_distrib nat_mult_distrib layout)
  have "unpack (pack lo) = Some lo" "unpack (pack hi) = Some hi" by simp_all
  moreover have "\<not> length us < 1" using assms(5) by (cases us) auto
  ultimately show "parseBaseToPeerMessage ?d = Some (BaseToPeerMessage_invalid\<lparr>btp_kind := BTP_STATE, btp_udpAddress := us,
        btp_natTransientRange := (uint lo, uint hi)\<rparr>)"
    using st s2 lu
    by (simp add: parseBaseToPeerMessage_def sv_index_def finishKind_def BTP_from_numerals BaseToPeerMessage_invalid_def)
qed

theorem base_addresses_roundtrip_witness:
  "parseBaseToPeerMessage ([1] @ replicate 16 9 @ encodeInet (InetAddress wildcard 80)) =
      Some (BaseToPeerMessage_invalid\<lparr>btp_kind := BTP_DEVICE_ADDRESSES, btp_deviceId := IpAddress (replicate 16 9),
        btp_addresses := [InetAddress wildcard 80]\<rparr>)"
  using base_addresses_roundtrip [of "replicate 16 9" "[InetAddress wildcard 80]" "[InetAddress wildcard 80]"]
  by (simp add: ip_wf_def wildcard_def)

text \<open>A hello message between peers that a node serializes is parsed by the receiver to the
  same message, with the sender's address filled in; a data message too.\<close>

theorem ptp_roundtrip:
  assumes "crypto_sizes (node_crypto nd)" and "crypto_laws (node_crypto nd)" and "node_wf nd"
    and "ip_wf you" and "length ck = 16" and "k = PTP_HELLO \<or> k = PTP_HELLO_REPLY"
  shows "(\<exists>d. serializePeerToPeerMessage nd ((PeerToPeerMessage_of k)\<lparr>ptp_yourId := you, ptp_helloCookie := ck\<rparr>) = Some d \<and>
      parsePeerToPeerMessage (node_crypto nd) d =
        Some ((PeerToPeerMessage_of k)\<lparr>ptp_myId := deviceId (myIdentity nd), ptp_yourId := you, ptp_helloCookie := ck\<rparr>)) \<and>
    (\<exists>d. serializePeerToPeerMessage nd ((PeerToPeerMessage_of PTP_DATA)\<lparr>ptp_data := x\<rparr>) = Some d \<and>
      parsePeerToPeerMessage (node_crypto nd) d = Some ((PeerToPeerMessage_of PTP_DATA)\<lparr>ptp_data := x\<rparr>))"
  using ptp_hello_roundtrip [OF assms(6,1,2,3,4,5)] ptp_data_roundtrip [of nd x "node_crypto nd"] by blast

theorem ptp_roundtrip_witness:
  "\<exists>d. serializePeerToPeerMessage (toy_node 1)
      ((PeerToPeerMessage_of PTP_HELLO)\<lparr>ptp_yourId := wildcard, ptp_helloCookie := replicate 16 7\<rparr>) = Some d \<and>
      parsePeerToPeerMessage toy_crypto d =
        Some ((PeerToPeerMessage_of PTP_HELLO)\<lparr>ptp_myId := deviceId (myIdentity (toy_node 1)),
          ptp_yourId := wildcard, ptp_helloCookie := replicate 16 7\<rparr>)"
proof -
  have c: "node_crypto (toy_node 1) = toy_crypto" by (simp add: toy_node_def)
  have "ip_wf wildcard" "length (replicate 16 (7 :: byte)) = 16" by (simp_all add: ip_wf_def wildcard_def)
  then show ?thesis
    using ptp_roundtrip [of "toy_node 1" wildcard "replicate 16 7" PTP_HELLO "[]"]
    unfolding c using toy_crypto_sizes toy_crypto_laws toy_node_wf(1) by blast
qed

text \<open>C12: A message that the parser takes for a hello or a hello reply has 145 bytes and carries,
  under a valid signature by a key whose hash is the sender's address, the receiver's address
  and the cookie of the result.\<close>

theorem ptp_hello_authentic:
  assumes "parsePeerToPeerMessage c d = Some m" and "ptp_kind m = PTP_HELLO \<or> ptp_kind m = PTP_HELLO_REPLY"
  shows "length d = 145 \<and> d ! 0 = PTP_value (ptp_kind m) \<and>
    pubkeyToDeviceId c (chunk 17 32 d) = ptp_myId m \<and>
    verifySignature c (take 81 d) (str ''ng-p2p-msg'') (chunk 17 32 d) (chunk 81 64 d) \<and>
    chunk 49 16 (take 81 d) = ip_data (ptp_yourId m) \<and> chunk 65 16 (take 81 d) = ptp_helloCookie m"
  using assms by (rule parsePeerToPeerMessage_authentic)

theorem ptp_hello_authentic_witness:
  "\<exists>d. length d = 145 \<and> chunk 65 16 (take 81 d) = replicate 16 7 \<and>
    pubkeyToDeviceId toy_crypto (chunk 17 32 d) = deviceId (myIdentity (toy_node 1))"
proof -
  have c: "node_crypto (toy_node 1) = toy_crypto" by (simp add: toy_node_def)
  have w: "ip_wf wildcard" "length (replicate 16 (7 :: byte)) = 16" by (simp_all add: ip_wf_def wildcard_def)
  obtain d where d: "parsePeerToPeerMessage toy_crypto d =
        Some ((PeerToPeerMessage_of PTP_HELLO)\<lparr>ptp_myId := deviceId (myIdentity (toy_node 1)),
          ptp_yourId := wildcard, ptp_helloCookie := replicate 16 7\<rparr>)"
    using ptp_hello_roundtrip [OF _ _ _ toy_node_wf(1) w, of PTP_HELLO] unfolding c
    using toy_crypto_sizes toy_crypto_laws by blast
  from ptp_hello_authentic [OF d] show ?thesis by (auto simp: PeerToPeerMessage_of_def)
qed

end
