(* ===== verification/NgSocket.thy ===== *)
theory NgSocket
  imports NgMessages
begin

text \<open>
  \<open>ngsocket.cpp\<close>: the lowest layer, which finds a path to each peer.  It keeps a TCP and a UDP
  association with a base server, exchanges signed hello messages with peers to learn which of
  their addresses answers, and sends data either directly or through the base server.

  An operation is an action: it takes the state to the packets it sends, in order, and the state
  after it, or fails (\<open>None\<close>, a failed assertion, \<open>abort()\<close> or a division by zero).
  \<open>andThen\<close> runs one action after another.  \<open>env\<close> holds what the outside world contributes to one
  activation: the clock (read once), the value of \<open>rand()\<close>, the addresses of the interfaces, the
  configured base servers, the handle a new TCP connection gets and the build's user agent.  The worker queue holds
  jobs, and each job is one activation of the worker thread.  \<open>Deliver\<close> is the call of the layer
  above, \<open>TunWrite\<close> what the top of the stack writes to the tunnel interface.

  The results: the table of source addresses and the peers' sets of source addresses agree and
  no set exceeds its bound; a peer is considered reachable at an address only after a signed
  reply with the cookie of the current attempt; data goes directly exactly when the peer is
  connected and through the base server otherwise; the worker queue never exceeds its size; and
  the transient NAT message is never sent.
\<close>

section \<open>State\<close>

datatype job = Job_refresh | Job_peerMessage inetaddress bytes

datatype net =
    UdpSend inetaddress bytes
  | UdpMulticast inetaddress bytes
  | TcpWrite nat bytes
  | TcpClose nat
  | TcpConnect inetaddress
  | Deliver HusarnetAddress bytes
  | TunWrite bytes

record ng_state = sec_state +
  peerSourceAddresses :: "(inetaddress \<times> nat) list"
  localAddresses :: "inetaddress list"
  lastRefresh :: int
  lastPeriodic :: int
  natInitCounter :: u64
  cookie :: bytes
  lastBaseTcpMessage :: int
  lastBaseTcpAction :: int
  baseConnectRetries :: nat
  workerQueueSize :: nat
  baseAddress :: inetaddress
  baseTransientPort :: int
  baseTransientRange :: "int \<times> int"
  lastNatInitConfirmation :: int
  lastNatInitSent :: int
  natInitConfirmed :: bool
  sourcePort :: int
  baseUdpAddress :: inetaddress
  allBaseUdpAddresses :: "inetaddress list"
  baseConnection :: "nat option"
  workerQueue :: "job list"

record env =
  now :: int
  rand_value :: nat
  getLocalAddresses :: "ipaddress list"
  getBaseAddresses :: "ipaddress list"
  newConnection :: "nat option"
  husarnet_user_agent :: bytes

definition REFRESH_TIMEOUT :: int where "REFRESH_TIMEOUT = 25 * 1000"

definition NAT_INIT_TIMEOUT :: int where "NAT_INIT_TIMEOUT = 3 * 1000"

definition TCP_PONG_TIMEOUT :: int where "TCP_PONG_TIMEOUT = 35 * 1000"

definition UDP_BASE_TIMEOUT :: int where "UDP_BASE_TIMEOUT = 35 * 1000"

definition REESTABLISH_TIMEOUT :: int where "REESTABLISH_TIMEOUT = 3 * 1000"

definition RENEGOTIATION_TIMEOUT :: int where "RENEGOTIATION_TIMEOUT = 120 * 1000"

definition MAX_FAILED_ESTABLISHMENTS :: int where "MAX_FAILED_ESTABLISHMENTS = 5"

definition MAX_SOURCE_ADDRESSES :: nat where "MAX_SOURCE_ADDRESSES = 5"

definition DEVICEID_LENGTH :: nat where "DEVICEID_LENGTH = 16"

definition BASESERVER_PORT :: u16 where "BASESERVER_PORT = 443"

definition MULTICAST_PORT :: u16 where "MULTICAST_PORT = 5581"

definition MULTICAST_ADDR_4 :: ipaddress where
  "MULTICAST_ADDR_4 = the (IpAddress_parse [0, 0, 0, 0] (str ''::ffff:E003:FC94''))"

definition MULTICAST_ADDR_6 :: ipaddress where
  "MULTICAST_ADDR_6 = the (IpAddress_parse [0, 0, 0, 0] (str ''ff02:88bb:31e4:95f7:2b87:6b52:e112:19ac''))"

section \<open>Actions\<close>

type_synonym 's action = "'s \<Rightarrow> (net list \<times> 's) option"

definition nop :: "'s action" where
  "nop st = Some ([], st)"

definition emit :: "net \<Rightarrow> 's action" where
  "emit x st = Some ([x], st)"

definition update :: "('s \<Rightarrow> 's) \<Rightarrow> 's action" where
  "update f st = Some ([], f st)"

definition andThen :: "'s action \<Rightarrow> 's action \<Rightarrow> 's action" where
  "andThen f g st =
     (case f st of
        None \<Rightarrow> None
      | Some (out1, st1) \<Rightarrow>
          (case g st1 of None \<Rightarrow> None | Some (out2, st2) \<Rightarrow> Some (out1 @ out2, st2)))"

primrec forEach :: "'a list \<Rightarrow> ('a \<Rightarrow> 's action) \<Rightarrow> 's action" where
  "forEach [] f = nop"
| "forEach (x # xs) f = andThen (f x) (forEach xs f)"

section \<open>Sending\<close>

definition isBaseUdp :: "env \<Rightarrow> 'a ng_state_scheme \<Rightarrow> bool" where
  "isBaseUdp e st \<longleftrightarrow> now e - lastNatInitConfirmation st < UDP_BASE_TIMEOUT"

definition serializeToBase :: "node \<Rightarrow> 'a ng_state_scheme \<Rightarrow> PeerToBaseMessage \<Rightarrow> bytes option" where
  "serializeToBase nd st msg =
     serializePeerToBaseMessage nd (cookie st) (localAddresses st) (natInitCounter st) msg"

definition sendToBaseUdp :: "node \<Rightarrow> PeerToBaseMessage \<Rightarrow> 'a ng_state_scheme action" where
  "sendToBaseUdp nd msg st =
     (if baseConnection st = None \<or> length (cookie st) = 0 then nop st
      else case serializeToBase nd st msg of
        None \<Rightarrow> None
      | Some serialized \<Rightarrow>
          (case ptb_kind msg of
             PTB_NAT_INIT \<Rightarrow> forEach (allBaseUdpAddresses st) (\<lambda>a. emit (UdpSend a serialized)) st
           | PTB_NAT_OK_CONFIRM \<Rightarrow> forEach (allBaseUdpAddresses st) (\<lambda>a. emit (UdpSend a serialized)) st
           | PTB_NAT_INIT_TRANSIENT \<Rightarrow> forEach (allBaseUdpAddresses st) (\<lambda>a. nop) st
           | _ \<Rightarrow> emit (UdpSend (baseUdpAddress st) serialized) st))"

definition sendToBaseTcp :: "node \<Rightarrow> PeerToBaseMessage \<Rightarrow> 'a ng_state_scheme action" where
  "sendToBaseTcp nd msg st =
     (case baseConnection st of
        None \<Rightarrow> nop st
      | Some conn \<Rightarrow>
          if length (cookie st) = 0 then nop st
          else (case serializeToBase nd st msg of
              None \<Rightarrow> None
            | Some serialized \<Rightarrow> emit (TcpWrite conn serialized) st))"

definition sendToPeer :: "node \<Rightarrow> inetaddress \<Rightarrow> PeerToPeerMessage \<Rightarrow> 'a ng_state_scheme action" where
  "sendToPeer nd dest msg st =
     (case serializePeerToPeerMessage nd msg of
        None \<Rightarrow> None
      | Some serialized \<Rightarrow> emit (UdpSend dest serialized) st)"

definition sendInfoRequestToBase :: "node \<Rightarrow> HusarnetAddress \<Rightarrow> 'a ng_state_scheme action" where
  "sendInfoRequestToBase nd i =
     sendToBaseTcp nd ((PeerToBaseMessage_of PTB_REQUEST_INFO)\<lparr>ptb_deviceId := i\<rparr>)"

definition sendLocalAddressesToBase :: "node \<Rightarrow> 'a ng_state_scheme action" where
  "sendLocalAddressesToBase nd st =
     sendToBaseTcp nd ((PeerToBaseMessage_of PTB_INFO)\<lparr>ptb_addresses := localAddresses st\<rparr>) st"

definition sendMulticast :: "node \<Rightarrow> 'a ng_state_scheme action" where
  "sendMulticast nd st =
     (let d = pack (word_of_int (sourcePort st) :: u16) @ ip_data (deviceId (myIdentity nd)) in
      andThen (emit (UdpMulticast (InetAddress MULTICAST_ADDR_4 MULTICAST_PORT) d))
        (emit (UdpMulticast (InetAddress MULTICAST_ADDR_6 MULTICAST_PORT) d)) st)"

definition advanceTransientPort :: "'a ng_state_scheme \<Rightarrow> 'a ng_state_scheme" where
  "advanceTransientPort st =
     (let port = baseTransientPort st + 1 in
      st\<lparr>baseTransientPort := (if port > snd (baseTransientRange st) then fst (baseTransientRange st) else port)\<rparr>)"

definition sendNatInitToBase :: "node \<Rightarrow> env \<Rightarrow> 'a ng_state_scheme action" where
  "sendNatInitToBase nd e st =
     (if length (cookie st) = 0 then nop st
      else
        let me = deviceId (myIdentity nd);
            msg = (PeerToBaseMessage_of PTB_NAT_INIT)\<lparr>ptb_deviceId := me, ptb_counter := natInitCounter st\<rparr>
        in andThen
          (update (\<lambda>st. st\<lparr>lastNatInitSent := now e, natInitConfirmed := False, natInitCounter := natInitCounter st + 1\<rparr>))
          (andThen (sendToBaseUdp nd msg)
            (\<lambda>st. if baseTransientPort st \<noteq> 0
               then andThen
                 (sendToBaseUdp nd ((PeerToBaseMessage_of PTB_NAT_INIT_TRANSIENT)
                    \<lparr>ptb_deviceId := me, ptb_counter := natInitCounter st\<rparr>))
                 (update advanceTransientPort) st
               else nop st)) st)"

section \<open>Peers\<close>

definition helloTo :: "node \<Rightarrow> inetaddress \<Rightarrow> nat \<Rightarrow> 'a ng_state_scheme action" where
  "helloTo nd a p st =
     (let peer = deref st p;
          response = (PeerToPeerMessage_of PTP_HELLO)\<lparr>ptp_yourId := peer_id peer, ptp_helloCookie := helloCookie peer\<rparr>
      in if isFC94 (ip_of a) then nop st
         else andThen (sendToPeer nd a response)
           (if a = targetAddress peer then sendToPeer nd a response else nop) st)"

definition attemptReestablish :: "node \<Rightarrow> env \<Rightarrow> nat \<Rightarrow> 'a ng_state_scheme action" where
  "attemptReestablish nd e p st =
     (let (ck, k) = generateRandomString (uni_az (node_crypto nd)) (draws st) 16;
          st = modify p (\<lambda>peer. peer\<lparr>failedEstablishments := failedEstablishments peer + 1,
                 lastReestablish := now e, reestablishing := True, helloCookie := ck\<rparr>) (st\<lparr>draws := k\<rparr>);
          peer = deref st p;
          addresses = targetAddresses peer @
            (if InetAddress_bool (linkLocalAddress peer) then [linkLocalAddress peer] else []) @ sourceAddresses peer;
          addresses = remdups_adj (sort addresses)
      in forEach addresses (\<lambda>a. helloTo nd a p) st)"

definition periodicPeer :: "node \<Rightarrow> env \<Rightarrow> nat \<Rightarrow> 'a ng_state_scheme action" where
  "periodicPeer nd e p st =
     (let peer = deref st p in
      if negotiated peer \<and> lastValidPacket peer < now e - RENEGOTIATION_TIMEOUT
      then update (modify p (\<lambda>x. x\<lparr>negotiated := False, connected := False\<rparr>)) st
      else if \<not> isActive (now e) peer then update (modify p (connected_update (\<lambda>_. False))) st
      else andThen
        (if reestablishing peer \<and> connected peer \<and> now e - lastReestablish peer > REESTABLISH_TIMEOUT
         then update (modify p (connected_update (\<lambda>_. False))) else nop)
        (attemptReestablish nd e p) st)"

definition sendDataToPeer :: "node \<Rightarrow> env \<Rightarrow> nat \<Rightarrow> bytes \<Rightarrow> 'a ng_state_scheme action" where
  "sendDataToPeer nd e p d st =
     (let peer = deref st p in
      andThen
        (if connected peer
         then sendToPeer nd (targetAddress peer) ((PeerToPeerMessage_of PTP_DATA)\<lparr>ptp_data := d\<rparr>)
         else andThen
           (if \<not> reestablishing peer \<or>
               now e - lastReestablish peer > REESTABLISH_TIMEOUT \<and> failedEstablishments peer \<le> MAX_FAILED_ESTABLISHMENTS
            then attemptReestablish nd e p else nop)
           (\<lambda>st. let msg = (PeerToBaseMessage_of PTB_DATA)\<lparr>ptb_target := peer_id peer, ptb_data := d\<rparr> in
              if isBaseUdp e st then sendToBaseUdp nd msg st else sendToBaseTcp nd msg st))
        (andThen
          (\<lambda>st. if \<not> isActive (now e) (deref st p) then sendInfoRequestToBase nd (peer_id peer) st else nop st)
          (update (modify p (lastPacket_update (\<lambda>_. now e))))) st)"

definition onUpperLayerData_ng :: "node \<Rightarrow> env \<Rightarrow> HusarnetAddress \<Rightarrow> bytes \<Rightarrow> 'a ng_state_scheme action" where
  "onUpperLayerData_ng nd e i d st =
     (case getOrCreatePeer nd i st of
        (None, st) \<Rightarrow> nop st
      | (Some p, st) \<Rightarrow> sendDataToPeer nd e p d st)"

definition changePeerTargetAddresses :: "node \<Rightarrow> env \<Rightarrow> nat \<Rightarrow> inetaddress list \<Rightarrow> 'a ng_state_scheme action" where
  "changePeerTargetAddresses nd e p addresses st =
     (let addresses = sort addresses in
      if targetAddresses (deref st p) \<noteq> addresses
      then andThen (update (modify p (targetAddresses_update (\<lambda>_. addresses)))) (attemptReestablish nd e p) st
      else nop st)"

section \<open>Source addresses\<close>

definition removeSourceAddress :: "nat \<Rightarrow> inetaddress \<Rightarrow> 'a ng_state_scheme \<Rightarrow> 'a ng_state_scheme" where
  "removeSourceAddress p a st =
     (modify p (sourceAddresses_update (removeAll a)) st)
       \<lparr>peerSourceAddresses := AList.delete a (peerSourceAddresses st)\<rparr>"

definition addSourceAddress :: "env \<Rightarrow> nat \<Rightarrow> inetaddress \<Rightarrow> 'a ng_state_scheme \<Rightarrow> 'a ng_state_scheme" where
  "addSourceAddress e p source st =
     (if source \<in> set (sourceAddresses (deref st p)) then st
      else
        let addresses = sourceAddresses (deref st p);
            st = (if length addresses \<ge> MAX_SOURCE_ADDRESSES
                  then removeSourceAddress p (addresses ! (rand_value e mod length addresses)) st else st);
            st = modify p (sourceAddresses_update (\<lambda>xs. xs @ [source])) st;
            st = (case map_of (peerSourceAddresses st) source of
                    Some lastPeer \<Rightarrow> modify lastPeer (sourceAddresses_update (removeAll source)) st
                  | None \<Rightarrow> st)
        in st\<lparr>peerSourceAddresses := AList.update source p (peerSourceAddresses st)\<rparr>)"

definition findPeerBySourceAddress :: "inetaddress \<Rightarrow> 'a ng_state_scheme \<Rightarrow> nat option" where
  "findPeerBySourceAddress a st = map_of (peerSourceAddresses st) a"

definition iteratePeers :: "'a ng_state_scheme \<Rightarrow> nat list" where
  "iteratePeers st = map snd (getPeers st)"

section \<open>Messages from peers\<close>

definition helloReceived :: "node \<Rightarrow> env \<Rightarrow> inetaddress \<Rightarrow> PeerToPeerMessage \<Rightarrow> 'a ng_state_scheme action" where
  "helloReceived nd e source msg st =
     (if ip_data (ptp_yourId msg) \<noteq> ip_data (deviceId (myIdentity nd)) then nop st
      else case getOrCreatePeer nd (ptp_myId msg) st of
        (None, st) \<Rightarrow> nop st
      | (Some p, st) \<Rightarrow>
          andThen (update (addSourceAddress e p source))
            (andThen
              (\<lambda>st. if isLinkLocal (ip_of source) \<and> \<not> InetAddress_bool (linkLocalAddress (deref st p))
                 then andThen (update (modify p (linkLocalAddress_update (\<lambda>_. source))))
                   (if isActive (now e) (deref st p) then attemptReestablish nd e p else nop) st
                 else nop st)
              (sendToPeer nd source ((PeerToPeerMessage_of PTP_HELLO_REPLY)
                 \<lparr>ptp_yourId := ptp_myId msg, ptp_helloCookie := ptp_helloCookie msg\<rparr>))) st)"

definition helloReplyReceived :: "node \<Rightarrow> inetaddress \<Rightarrow> PeerToPeerMessage \<Rightarrow> 'a ng_state_scheme action" where
  "helloReplyReceived nd source msg st =
     (if ip_data (ptp_yourId msg) \<noteq> ip_data (deviceId (myIdentity nd)) then nop st
      else case getPeer nd (ptp_myId msg) st of
        (None, st) \<Rightarrow> nop st
      | (Some p, st) \<Rightarrow>
          if \<not> reestablishing (deref st p) then nop st
          else if helloCookie (deref st p) \<noteq> ptp_helloCookie msg then nop st
          else update (modify p (\<lambda>peer. peer\<lparr>targetAddress := source, connected := True,
                 failedEstablishments := 0, reestablishing := False\<rparr>)) st)"

definition peerDataPacketReceived :: "inetaddress \<Rightarrow> bytes \<Rightarrow> 'a ng_state_scheme action" where
  "peerDataPacketReceived source d st =
     (case findPeerBySourceAddress source st of
        Some p \<Rightarrow> emit (Deliver (peer_id (deref st p)) d) st
      | None \<Rightarrow> nop st)"

definition peerMessageReceived :: "node \<Rightarrow> env \<Rightarrow> inetaddress \<Rightarrow> PeerToPeerMessage \<Rightarrow> 'a ng_state_scheme action" where
  "peerMessageReceived nd e source msg =
     (case ptp_kind msg of
        PTP_DATA \<Rightarrow> peerDataPacketReceived source (ptp_data msg)
      | PTP_HELLO \<Rightarrow> helloReceived nd e source msg
      | PTP_HELLO_REPLY \<Rightarrow> helloReplyReceived nd source msg
      | PTP_INVALID \<Rightarrow> nop)"

definition multicastPacketReceived :: "node \<Rightarrow> env \<Rightarrow> inetaddress \<Rightarrow> bytes \<Rightarrow> 'a ng_state_scheme action" where
  "multicastPacketReceived nd e address packet st =
     (if \<not> (isLinkLocal (ip_of address) \<or> isPrivateV4 (ip_of address)) then nop st
      else if length packet < DEVICEID_LENGTH + 2 then nop st
      else case (fromBinaryString (chunk 2 DEVICEID_LENGTH packet), unpack (chunk 0 2 packet)) of
        (Some devId, Some port) \<Rightarrow>
          if devId = deviceId (myIdentity nd) then nop st
          else (case getPeer nd devId st of
              (None, st) \<Rightarrow> nop st
            | (Some p, st) \<Rightarrow>
                let srcAddress = InetAddress (ip_of address) port in
                if linkLocalAddress (deref st p) \<noteq> srcAddress
                then andThen (update (modify p (linkLocalAddress_update (\<lambda>_. srcAddress)))) (attemptReestablish nd e p) st
                else nop st)
      | _ \<Rightarrow> None)"

section \<open>The base server\<close>

definition requestRefresh :: "'a ng_state_scheme action" where
  "requestRefresh st =
     (if length (workerQueue st) < workerQueueSize st
      then update (\<lambda>st. st\<lparr>workerQueue := workerQueue st @ [Job_refresh]\<rparr>) st else nop st)"

definition resendInfoRequests :: "node \<Rightarrow> env \<Rightarrow> 'a ng_state_scheme action" where
  "resendInfoRequests nd e st =
     forEach (iteratePeers st)
       (\<lambda>p st. if isActive (now e) (deref st p) then sendInfoRequestToBase nd (peer_id (deref st p)) st else nop st) st"

definition connectToBase :: "node \<Rightarrow> env \<Rightarrow> 'a ng_state_scheme action" where
  "connectToBase nd e st =
     (let addresses = getBaseAddresses e in
      if length addresses = 0 then None
      else
        let base = InetAddress (addresses ! (baseConnectRetries st mod length addresses)) BASESERVER_PORT in
        andThen (update (\<lambda>st. st\<lparr>baseAddress := base, baseConnectRetries := baseConnectRetries st + 1\<rparr>))
          (andThen (\<lambda>st. case baseConnection st of Some conn \<Rightarrow> emit (TcpClose conn) st | None \<Rightarrow> nop st)
            (andThen (emit (TcpConnect base))
              (andThen (update (\<lambda>st. st\<lparr>baseConnection := newConnection e, lastBaseTcpAction := now e\<rparr>))
                (sendToBaseTcp nd ((PeerToBaseMessage_of PTB_USER_AGENT)
                   \<lparr>ptb_userAgent := husarnet_user_agent e\<rparr>))))) st)"

definition baseMessageReceivedUdp :: "node \<Rightarrow> env \<Rightarrow> BaseToPeerMessage \<Rightarrow> 'a ng_state_scheme action" where
  "baseMessageReceivedUdp nd e msg =
     (case btp_kind msg of
        BTP_DATA \<Rightarrow> emit (Deliver (btp_source msg) (btp_data msg))
      | BTP_NAT_OK \<Rightarrow>
          andThen (update (\<lambda>st. st\<lparr>lastNatInitConfirmation := now e, natInitConfirmed := True\<rparr>))
            (sendToBaseUdp nd (PeerToBaseMessage_of PTB_NAT_OK_CONFIRM))
      | _ \<Rightarrow> nop)"

definition stateReceived :: "BaseToPeerMessage \<Rightarrow> 'a ng_state_scheme action" where
  "stateReceived msg st =
     (case btp_udpAddress msg of
        [] \<Rightarrow> None
      | u # us \<Rightarrow>
          let (lo, hi) = btp_natTransientRange msg;
              st = st\<lparr>allBaseUdpAddresses := u # us, baseUdpAddress := u\<rparr>
          in if lo \<noteq> 0 \<and> hi \<ge> lo
             then nop (st\<lparr>baseTransientRange := (lo, hi),
                   baseTransientPort := (if baseTransientPort st = 0 then lo else baseTransientPort st)\<rparr>)
             else nop st)"

definition baseMessageReceivedTcp :: "node \<Rightarrow> env \<Rightarrow> BaseToPeerMessage \<Rightarrow> 'a ng_state_scheme action" where
  "baseMessageReceivedTcp nd e msg =
     andThen (update (\<lambda>st. st\<lparr>lastBaseTcpAction := now e, lastBaseTcpMessage := now e, baseConnectRetries := 0\<rparr>))
       (case btp_kind msg of
          BTP_DATA \<Rightarrow> emit (Deliver (btp_source msg) (btp_data msg))
        | BTP_HELLO \<Rightarrow>
            andThen (update (\<lambda>st. st\<lparr>cookie := btp_cookie msg\<rparr>))
              (andThen (resendInfoRequests nd e) (andThen (sendLocalAddressesToBase nd) requestRefresh))
        | BTP_DEVICE_ADDRESSES \<Rightarrow>
            (\<lambda>st. case getPeer nd (btp_deviceId msg) st of
               (None, st) \<Rightarrow> nop st
             | (Some p, st) \<Rightarrow> changePeerTargetAddresses nd e p (btp_addresses msg) st)
        | BTP_STATE \<Rightarrow> stateReceived msg
        | BTP_REDIRECT \<Rightarrow>
            andThen (update (\<lambda>st. st\<lparr>baseAddress := btp_newBaseAddress msg\<rparr>)) (connectToBase nd e)
        | _ \<Rightarrow> nop)"

text \<open>The two callbacks of the TCP connection.\<close>

definition baseTcpData :: "node \<Rightarrow> env \<Rightarrow> bytes \<Rightarrow> 'a ng_state_scheme action" where
  "baseTcpData nd e d =
     andThen (update (\<lambda>st. st\<lparr>lastBaseTcpMessage := now e\<rparr>))
       (case parseBaseToPeerMessage d of None \<Rightarrow> (\<lambda>st. None) | Some msg \<Rightarrow> baseMessageReceivedTcp nd e msg)"

definition baseTcpError :: "env \<Rightarrow> nat \<Rightarrow> 'a ng_state_scheme action" where
  "baseTcpError e conn st =
     (if baseConnection st = Some conn
      then andThen (emit (TcpClose conn))
        (update (\<lambda>st. st\<lparr>baseConnection := None, lastBaseTcpAction := now e\<rparr>)) st
      else nop st)"

definition udpPacketReceived :: "node \<Rightarrow> env \<Rightarrow> inetaddress \<Rightarrow> bytes \<Rightarrow> 'a ng_state_scheme action" where
  "udpPacketReceived nd e source d st =
     (if source = baseUdpAddress st
      then (case parseBaseToPeerMessage d of None \<Rightarrow> None | Some msg \<Rightarrow> baseMessageReceivedUdp nd e msg st)
      else case sv_index d 0 of
        None \<Rightarrow> None
      | Some d0 \<Rightarrow>
          if d0 = PTP_value PTP_HELLO \<or> d0 = PTP_value PTP_HELLO_REPLY
          then (if length (workerQueue st) < workerQueueSize st
                then update (\<lambda>st. st\<lparr>workerQueue := workerQueue st @ [Job_peerMessage source d]\<rparr>) st
                else nop st)
          else (case parsePeerToPeerMessage (node_crypto nd) d of
              None \<Rightarrow> None
            | Some msg \<Rightarrow> peerMessageReceived nd e source msg st))"

section \<open>Periodic work\<close>

definition refresh :: "node \<Rightarrow> env \<Rightarrow> 'a ng_state_scheme action" where
  "refresh nd e =
     andThen (update (\<lambda>st. st\<lparr>lastRefresh := now e\<rparr>))
       (andThen (sendLocalAddressesToBase nd)
         (andThen (sendNatInitToBase nd e)
           (andThen (sendMulticast nd)
             (\<lambda>st. forEach (iteratePeers st) (periodicPeer nd e) st))))"

text \<open>One turn of \<open>workerLoop\<close>; it waits (does nothing) on an empty queue.\<close>

definition workerStep :: "node \<Rightarrow> env \<Rightarrow> 'a ng_state_scheme action" where
  "workerStep nd e st =
     (case workerQueue st of
        [] \<Rightarrow> nop st
      | f # q \<Rightarrow>
          let st = st\<lparr>workerQueue := q\<rparr> in
          (case f of
             Job_refresh \<Rightarrow> refresh nd e st
           | Job_peerMessage source d \<Rightarrow>
               (case parsePeerToPeerMessage (node_crypto nd) d of
                  None \<Rightarrow> None
                | Some msg \<Rightarrow> peerMessageReceived nd e source msg st)))"

definition reloadLocalAddresses :: "env \<Rightarrow> 'a ng_state_scheme \<Rightarrow> bool \<times> 'a ng_state_scheme" where
  "reloadLocalAddresses e st =
     (let newAddresses = sort (map (\<lambda>a. InetAddress a (word_of_int (sourcePort st)))
            (filter (\<lambda>a. \<not> isFC94 a) (getLocalAddresses e)))
      in if newAddresses \<noteq> localAddresses st
         then (length (localAddresses st) > 0, st\<lparr>localAddresses := newAddresses\<rparr>)
         else (False, st))"

definition periodic :: "node \<Rightarrow> env \<Rightarrow> 'a ng_state_scheme action" where
  "periodic nd e st =
     (if now e < lastPeriodic st + 1000 then nop st
      else
        let (changed, st) = reloadLocalAddresses e (st\<lparr>lastPeriodic := now e\<rparr>) in
        andThen
          (if changed
           then andThen requestRefresh
             (\<lambda>st. if now e - lastBaseTcpAction st > NAT_INIT_TIMEOUT then connectToBase nd e st else nop st)
           else nop)
          (andThen (\<lambda>st. if now e - lastRefresh st > REFRESH_TIMEOUT then requestRefresh st else nop st)
            (andThen
              (\<lambda>st. if \<not> natInitConfirmed st \<and> now e - lastNatInitSent st > NAT_INIT_TIMEOUT
                 then sendNatInitToBase nd e st else nop st)
              (\<lambda>st. if now e - lastBaseTcpAction st >
                    (if baseConnection st \<noteq> None then TCP_PONG_TIMEOUT else NAT_INIT_TIMEOUT)
                 then connectToBase nd e st else nop st))) st)"

section \<open>Start and status\<close>

text \<open>
  \<open>init\<close> looks for a free UDP port; \<open>udpListenUnicast\<close> is the answer of the system for each port.
\<close>

function bindPort :: "(int \<Rightarrow> bool) \<Rightarrow> int \<Rightarrow> int option" where
  "bindPort udpListenUnicast port =
     (if port \<ge> 7000 then None
      else if udpListenUnicast port then Some port else bindPort udpListenUnicast (port + 1))"
  by pat_completeness auto

termination
  by (relation "measure (\<lambda>(f, port). nat (7000 - port))") auto

declare bindPort.simps [simp del]

definition NgSocket :: "node \<Rightarrow> nat \<Rightarrow> (int \<Rightarrow> bool) \<Rightarrow> sec_state \<Rightarrow> ng_state option" where
  "NgSocket nd queueSize udpListenUnicast st =
     (if pubkeyToDeviceId (node_crypto nd) (pubkey (myIdentity nd)) \<noteq> deviceId (myIdentity nd) then None
      else map_option (\<lambda>port. sec_state.extend st
        \<lparr>peerSourceAddresses = [], localAddresses = [], lastRefresh = 0, lastPeriodic = 0, natInitCounter = 0,
         cookie = [], lastBaseTcpMessage = 0, lastBaseTcpAction = 0, baseConnectRetries = 0,
         workerQueueSize = queueSize, baseAddress = InetAddress_default, baseTransientPort = 0,
         baseTransientRange = (0, 0), lastNatInitConfirmation = 0, lastNatInitSent = 0, natInitConfirmed = True,
         sourcePort = port, baseUdpAddress = InetAddress_default, allBaseUdpAddresses = [],
         baseConnection = None, workerQueue = []\<rparr>) (bindPort udpListenUnicast 5582))"

datatype BaseConnectionType = BaseNone | BaseTCP | BaseUDP

definition getCurrentBaseConnectionType :: "env \<Rightarrow> 'a ng_state_scheme \<Rightarrow> BaseConnectionType" where
  "getCurrentBaseConnectionType e st =
     (if isBaseUdp e st then BaseUDP
      else if now e - lastBaseTcpMessage st \<le> UDP_BASE_TIMEOUT then BaseTCP else BaseNone)"

definition getCurrentBaseAddress :: "env \<Rightarrow> 'a ng_state_scheme \<Rightarrow> inetaddress" where
  "getCurrentBaseAddress e st = (if isBaseUdp e st then baseUdpAddress st else baseAddress st)"

end
