(* ===== verification/NgSocketInv.thy ===== *)
theory NgSocketInv
  imports NgSocket
begin

text \<open>
  The invariant of the socket.  \<open>succeeds\<close> and \<open>ok\<close> say that an action returns and keeps an
  invariant, with a rule per combinator; \<open>ng_inv\<close> extends the invariant of the peer table and of the
  waiting packets by the agreement of the source address table with the peers' own sets, their
  bound, the bound of the worker queue and the size of the cookie.  Every operation is then shown
  to return and to keep it.
\<close>

section \<open>Actions that succeed and keep an invariant\<close>

definition succeeds :: "('s \<Rightarrow> bool) \<Rightarrow> (net list \<times> 's) option \<Rightarrow> bool" where
  "succeeds I r \<longleftrightarrow> (\<exists>out st'. r = Some (out, st') \<and> I st')"

definition ok :: "('s \<Rightarrow> bool) \<Rightarrow> 's action \<Rightarrow> bool" where
  "ok I f \<longleftrightarrow> (\<forall>st. I st \<longrightarrow> succeeds I (f st))"

named_theorems ok_rules

lemma okI: "(\<And>st. I st \<Longrightarrow> succeeds I (f st)) \<Longrightarrow> ok I f"
  by (simp add: ok_def)

lemma okD: "ok I f \<Longrightarrow> I st \<Longrightarrow> succeeds I (f st)"
  by (simp add: ok_def)

lemma succeeds_weaken: "succeeds I r \<Longrightarrow> (\<And>st. I st \<Longrightarrow> J st) \<Longrightarrow> succeeds J r"
  by (auto simp: succeeds_def)

lemma succeeds_if: "(c \<Longrightarrow> succeeds I a) \<Longrightarrow> (\<not> c \<Longrightarrow> succeeds I b) \<Longrightarrow> succeeds I (if c then a else b)"
  by simp

lemma ok_nop [ok_rules]: "ok I nop"
  by (simp add: ok_def succeeds_def nop_def)

lemma ok_emit [ok_rules]: "ok I (emit x)"
  by (simp add: ok_def succeeds_def emit_def)

lemma ok_update: "(\<And>st. I st \<Longrightarrow> I (f st)) \<Longrightarrow> ok I (update f)"
  by (simp add: ok_def succeeds_def update_def)

lemma ok_andThen [ok_rules]: "ok I f \<Longrightarrow> ok I g \<Longrightarrow> ok I (andThen f g)"
  unfolding ok_def succeeds_def andThen_def by fastforce

lemma ok_forEach [ok_rules]: "(\<And>x. x \<in> set xs \<Longrightarrow> ok I (f x)) \<Longrightarrow> ok I (forEach xs f)"
  by (induction xs) (auto intro: ok_rules)

lemma ok_if [ok_rules]: "(c \<Longrightarrow> ok I f) \<Longrightarrow> (\<not> c \<Longrightarrow> ok I g) \<Longrightarrow> ok I (if c then f else g)"
  by simp

lemma ok_state_if [ok_rules]: "ok I f \<Longrightarrow> ok I g \<Longrightarrow> ok I (\<lambda>st. if c st then f st else g st)"
  by (simp add: ok_def)

section \<open>The invariant of the socket\<close>

definition sources_ok :: "'a ng_state_scheme \<Rightarrow> bool" where
  "sources_ok st \<longleftrightarrow>
     (\<forall>a p. map_of (peerSourceAddresses st) a = Some p \<longleftrightarrow>
        p < length (heap st) \<and> a \<in> set (sourceAddresses (deref st p))) \<and>
     (\<forall>x \<in> set (heap st). distinct (sourceAddresses x) \<and> length (sourceAddresses x) \<le> MAX_SOURCE_ADDRESSES)"

text \<open>The jobs hold hello messages only.\<close>

fun job_wf :: "job \<Rightarrow> bool" where
  "job_wf (Job_peerMessage a (d0 # d)) = (d0 = PTP_value PTP_HELLO \<or> d0 = PTP_value PTP_HELLO_REPLY)"
| "job_wf (Job_peerMessage a []) = False"
| "job_wf Job_refresh = True"

definition queue_wf :: "job list \<Rightarrow> nat \<Rightarrow> bool" where
  "queue_wf q n \<longleftrightarrow> length q \<le> n \<and> list_all job_wf q"

definition ng_inv :: "node \<Rightarrow> 'a ng_state_scheme \<Rightarrow> bool" where
  "ng_inv nd st \<longleftrightarrow>
     sec_inv nd st \<and> sources_ok st \<and> (\<forall>x \<in> set (heap st). ip_wf (peer_id x)) \<and>
     queue_wf (workerQueue st) (workerQueueSize st) \<and> (cookie st = [] \<or> length (cookie st) = 16)"

definition ng_inv_at :: "node \<Rightarrow> nat \<Rightarrow> 'a ng_state_scheme \<Rightarrow> bool" where
  "ng_inv_at nd n st \<longleftrightarrow> ng_inv nd st \<and> length (heap st) = n"

text \<open>Changes outside of what the invariant speaks about.\<close>

lemma ng_inv_frame:
  assumes "ng_inv nd st" and "heap st' = heap st" "peers st' = peers st" "cachedPeer st' = cachedPeer st"
    "cachedPeerId st' = cachedPeerId st" "queuedPackets st' = queuedPackets st"
    "peerSourceAddresses st' = peerSourceAddresses st"
    "queue_wf (workerQueue st') (workerQueueSize st')" "cookie st' = [] \<or> length (cookie st') = 16"
  shows "ng_inv nd st'"
  using assms by (simp add: ng_inv_def sec_inv_def pc_inv_def sources_ok_def)

lemma ng_inv_push:
  assumes "ng_inv nd st" and "length (workerQueue st) < workerQueueSize st" and "job_wf x"
  shows "ng_inv nd (st\<lparr>workerQueue := workerQueue st @ [x]\<rparr>)"
  using assms(1) by (rule ng_inv_frame) (use assms in \<open>simp_all add: ng_inv_def queue_wf_def\<close>)

lemma ng_inv_pop:
  assumes "ng_inv nd st" and "workerQueue st = x # q"
  shows "ng_inv nd (st\<lparr>workerQueue := q\<rparr>)"
  using assms(1) by (rule ng_inv_frame) (use assms in \<open>simp_all add: ng_inv_def queue_wf_def\<close>)

lemma sources_ok_modify:
  assumes "sources_ok st" and "p < length (heap st)" and "sourceAddresses (f (deref st p)) = sourceAddresses (deref st p)"
  shows "sources_ok (modify p f st)"
proof -
  have "sourceAddresses (deref (modify p f st) q) = sourceAddresses (deref st q)" if "q < length (heap st)" for q
    using that assms(3) by (simp add: deref_modify)
  moreover have "peerSourceAddresses (modify p f st) = peerSourceAddresses st" by (simp add: modify_def)
  ultimately show ?thesis
    using assms(1) by (auto simp: sources_ok_def all_set_conv_all_nth)
qed

lemma ng_fields_modify [simp]:
  "workerQueue (modify p f st) = workerQueue (st :: 'a ng_state_scheme)" "workerQueueSize (modify p f st) = workerQueueSize st"
  "cookie (modify p f st) = cookie st" "peerSourceAddresses (modify p f st) = peerSourceAddresses st"
  by (simp_all add: modify_def)

lemma ng_inv_modify:
  assumes "ng_inv_at nd n st" and "p < n"
    and "peer_id (f (deref st p)) = peer_id (deref st p)"
    and "packetQueue (f (deref st p)) = packetQueue (deref st p)"
    and "negotiated (f (deref st p)) \<Longrightarrow> negotiated (deref st p)"
    and "sourceAddresses (f (deref st p)) = sourceAddresses (deref st p)"
  shows "ng_inv_at nd n (modify p f st)"
proof -
  have p: "p < length (heap st)" using assms(1,2) by (simp add: ng_inv_at_def)
  have "sec_inv nd (modify p f st)" using assms by (intro modify_sec_inv) (auto simp: ng_inv_at_def ng_inv_def)
  moreover have "sources_ok (modify p f st)"
    using assms by (intro sources_ok_modify) (auto simp: ng_inv_at_def ng_inv_def)
  moreover have "ip_wf (peer_id (deref (modify p f st) q))" if "q < length (heap st)" for q
    using that assms by (auto simp: deref_modify ng_inv_at_def ng_inv_def)
  ultimately show ?thesis
    using assms(1) by (auto simp: ng_inv_at_def ng_inv_def all_set_conv_all_nth)
qed

lemma getPeer_heap: "getPeer nd i st = (r, st') \<Longrightarrow> heap st' = heap st \<and> peers st' = peers st"
  by (auto simp: getPeer_def split: if_splits option.splits)

lemma getPeer_ng_inv:
  assumes inv: "ng_inv nd st" and g: "getPeer nd i st = (r, st')"
  shows "ng_inv nd st' \<and> (\<forall>p. r = Some p \<longrightarrow> p < length (heap st') \<and> peer_id (deref st' p) = i)"
proof -
  have pc: "pc_inv nd st" using inv by (simp add: ng_inv_def sec_inv_def)
  have "pc_inv nd st'" using getPeer_inv [OF pc, of i] g by simp
  moreover have "queuedPackets st' = queuedPackets st" "peerSourceAddresses st' = peerSourceAddresses st"
    "workerQueue st' = workerQueue st" "workerQueueSize st' = workerQueueSize st" "cookie st' = cookie st"
    using g by (auto simp: getPeer_def split: if_splits option.splits)
  ultimately have i': "ng_inv nd st'"
    using inv getPeer_heap [OF g] by (simp add: ng_inv_def sec_inv_def sources_ok_def)
  have "p < length (heap st') \<and> peer_id (deref st' p) = i" if "r = Some p" for p
    using getPeer_Some(1) [OF pc, of i p st'] g that getPeer_heap [OF g] pc_inv_table [OF pc, of i p] by simp
  then show ?thesis using i' by (simp add: ng_inv_at_def)
qed

lemma getOrCreatePeer_more:
  "getOrCreatePeer nd i st = (r, st') \<Longrightarrow> pc_state.more st' = pc_state.more st"
  by (auto simp: getOrCreatePeer_def getPeer_def createPeer_def Let_def
      split: prod.splits if_splits option.splits)

lemma ng_fields_more:
  assumes "pc_state.more st' = pc_state.more (st :: 'a ng_state_scheme)"
  shows "peerSourceAddresses st' = peerSourceAddresses st" "workerQueue st' = workerQueue st"
    "workerQueueSize st' = workerQueueSize st" "cookie st' = cookie st"
  using assms by (cases st; cases st'; simp)+

lemma getOrCreatePeer_new_id:
  assumes "getOrCreatePeer nd i st = (r, st')" and "heap st' = heap st @ xs" and "x \<in> set xs"
  shows "peer_id x = i"
proof -
  obtain r1 st1 where g: "getPeer nd i st = (r1, st1)" by (cases "getPeer nd i st")
  have h: "heap st1 = heap st" using getPeer_heap [OF g] by simp
  show ?thesis
  proof (cases "r1 = None \<and> isPeerAllowed nd i")
    case True
    then have "createPeer nd i st1 = (r, st')" using assms(1) g by (simp add: getOrCreatePeer_def)
    moreover from this True obtain p where "r = Some p" using createPeer_None by (cases r) auto
    ultimately obtain peer where "heap st' = heap st1 @ [peer]" "peer_id peer = i"
      using createPeer_Some(6) [of nd i st1 p st'] by blast
    then show ?thesis using assms h by simp
  next
    case False
    then have "heap st' = heap st" using assms(1) g h by (auto simp: getOrCreatePeer_def createPeer_def split: if_splits)
    then show ?thesis using assms by simp
  qed
qed

lemma getOrCreatePeer_ng_inv:
  assumes inv: "ng_inv nd st" and g: "getOrCreatePeer nd i st = (r, st')" and i: "ip_wf i"
  shows "ng_inv nd st' \<and> (\<forall>p. r = Some p \<longrightarrow> p < length (heap st') \<and> peer_id (deref st' p) = i)"
proof -
  have s: "sec_inv nd st" and pc: "pc_inv nd st" using inv by (simp_all add: ng_inv_def sec_inv_def)
  have f: "peerSourceAddresses st' = peerSourceAddresses st"
    "workerQueue st' = workerQueue st" "workerQueueSize st' = workerQueueSize st" "cookie st' = cookie st"
    using ng_fields_more [OF getOrCreatePeer_more [OF g]] by simp_all
  obtain xs where xs: "heap st' = heap st @ xs" "\<forall>x \<in> set xs. sourceAddresses x = []"
    using getOrCreatePeer_heap [OF g] by auto
  have "peer_id x = i" if "x \<in> set xs" for x
    using getOrCreatePeer_new_id [OF g xs(1) that] .
  then have wf: "\<forall>x \<in> set (heap st'). ip_wf (peer_id x)" using inv i xs(1) by (auto simp: ng_inv_def)
  have so: "sources_ok st'"
    unfolding sources_ok_def f xs(1)
  proof (intro conjI allI ballI)
    fix a p
    have "p < length (heap st @ xs) \<and> a \<in> set (sourceAddresses ((heap st @ xs) ! p)) \<longleftrightarrow>
        p < length (heap st) \<and> a \<in> set (sourceAddresses (deref st p))"
      using xs(2) by (auto simp: nth_append)
    then show "map_of (peerSourceAddresses st) a = Some p \<longleftrightarrow>
        p < length (heap st @ xs) \<and> a \<in> set (sourceAddresses ((heap st @ xs) ! p))"
      using inv unfolding ng_inv_def sources_ok_def by blast
  next
    fix x assume "x \<in> set (heap st @ xs)"
    then show "distinct (sourceAddresses x)" "length (sourceAddresses x) \<le> MAX_SOURCE_ADDRESSES"
      using inv xs(2) by (auto simp: ng_inv_def sources_ok_def)
  qed
  have i': "ng_inv nd st'"
    using inv getOrCreatePeer_sec_inv [OF s g] so wf f by (simp add: ng_inv_def)
  have "p < length (heap st') \<and> peer_id (deref st' p) = i" if "r = Some p" for p
    using getOrCreatePeer_Some(2,3) [OF pc] g that by simp
  then show ?thesis using i' by (simp add: ng_inv_at_def)
qed

section \<open>The operations succeed and keep the invariant\<close>

definition ng_env :: "node \<Rightarrow> env \<Rightarrow> bool" where
  "ng_env nd e \<longleftrightarrow> crypto_sizes (node_crypto nd) \<and> node_wf nd \<and> getBaseAddresses e \<noteq> []"

definition cookie_ok :: "'a ng_state_scheme \<Rightarrow> bool" where
  "cookie_ok st \<longleftrightarrow> cookie st = [] \<or> length (cookie st) = 16"

lemma ng_inv_cookie: "ng_inv nd st \<Longrightarrow> cookie_ok st" "ng_inv_at nd n st \<Longrightarrow> cookie_ok st"
  by (simp_all add: ng_inv_def ng_inv_at_def cookie_ok_def)

lemma ng_env_sizes:
  assumes "ng_env nd e"
  shows "length (ip_data (deviceId (myIdentity nd))) = 16" "length (pubkey (myIdentity nd)) = 32"
  using assms node_wf_ip [of nd] by (auto simp: ng_env_def ip_wf_def)

lemma ok_const: "(\<And>st. I st \<Longrightarrow> \<exists>out. f st = Some (out, st)) \<Longrightarrow> ok I f"
  by (force simp: ok_def succeeds_def)

lemma serializeToBase_total:
  assumes "ng_env nd e" and "length (cookie st) = 16"
  shows "\<exists>d. serializeToBase nd st msg = Some d"
  using assms(2) ng_env_sizes [OF assms(1)]
  by (cases "ptb_kind msg") (simp_all add: serializeToBase_def serializePeerToBaseMessage_def Let_def)

lemma forEach_emit: "forEach xs (\<lambda>a. emit (g a)) st = Some (map g xs, st)"
  by (induction xs) (simp_all add: nop_def andThen_def emit_def)

lemma forEach_nop: "forEach xs (\<lambda>a. nop) st = Some ([], st)"
  by (induction xs) (simp_all add: nop_def andThen_def)

lemma sendToBaseUdp_const:
  assumes "ng_env nd e" and "cookie_ok st"
  shows "\<exists>out. sendToBaseUdp nd msg st = Some (out, st)"
proof (cases "baseConnection st = None \<or> length (cookie st) = 0")
  case True
  then show ?thesis by (auto simp: sendToBaseUdp_def nop_def)
next
  case False
  then obtain d conn where d: "serializeToBase nd st msg = Some d" and c: "baseConnection st = Some conn"
    using serializeToBase_total [OF assms(1), of st msg] assms(2) by (auto simp: cookie_ok_def)
  then have "sendToBaseUdp nd msg st =
      (case ptb_kind msg of
             PTB_NAT_INIT \<Rightarrow> Some (map (\<lambda>a. UdpSend a d) (allBaseUdpAddresses st), st)
           | PTB_NAT_OK_CONFIRM \<Rightarrow> Some (map (\<lambda>a. UdpSend a d) (allBaseUdpAddresses st), st)
           | PTB_NAT_INIT_TRANSIENT \<Rightarrow> Some ([], st)
           | _ \<Rightarrow> Some ([UdpSend (baseUdpAddress st) d], st))"
    using False unfolding sendToBaseUdp_def forEach_emit forEach_nop emit_def by simp
  then show ?thesis by (cases "ptb_kind msg") simp_all
qed

lemma sendToBaseTcp_const:
  assumes "ng_env nd e" and "cookie_ok st"
  shows "\<exists>out. sendToBaseTcp nd msg st = Some (out, st)"
proof (cases "baseConnection st = None \<or> length (cookie st) = 0")
  case True
  then show ?thesis by (auto simp: sendToBaseTcp_def nop_def split: option.split)
next
  case False
  then obtain d where "serializeToBase nd st msg = Some d"
    using serializeToBase_total [OF assms(1)] assms(2) by (auto simp: cookie_ok_def)
  then show ?thesis using False by (auto simp: sendToBaseTcp_def emit_def)
qed

lemma ok_sendToBase:
  assumes "ng_env nd e" and "\<And>st. I st \<Longrightarrow> cookie_ok st"
  shows "ok I (sendToBaseUdp nd msg)" "ok I (sendToBaseTcp nd msg)" "ok I (sendInfoRequestToBase nd i)"
    "ok I (sendLocalAddressesToBase nd)"
  unfolding sendInfoRequestToBase_def sendLocalAddressesToBase_def
  by (rule ok_const, use sendToBaseUdp_const [OF assms(1)] sendToBaseTcp_const [OF assms(1)] assms(2) in blast)+

lemma serialize_hello_total:
  assumes "ng_env nd e" and "ip_wf (ptp_yourId msg)" and "length (ptp_helloCookie msg) = 16"
    and "ptp_kind msg = PTP_HELLO \<or> ptp_kind msg = PTP_HELLO_REPLY"
  shows "\<exists>d. serializePeerToPeerMessage nd msg = Some d"
  using assms ng_env_sizes [OF assms(1)] by (auto simp: serializePeerToPeerMessage_def Let_def ip_wf_def)

lemma ok_sendToPeer_hello:
  assumes "ng_env nd e" and "ip_wf (ptp_yourId msg)" and "length (ptp_helloCookie msg) = 16"
    and "ptp_kind msg = PTP_HELLO \<or> ptp_kind msg = PTP_HELLO_REPLY"
  shows "ok I (sendToPeer nd a msg)"
  using serialize_hello_total [OF assms] by (auto intro!: ok_const simp: sendToPeer_def emit_def)

lemma ok_sendToPeer_data: "ok I (sendToPeer nd a ((PeerToPeerMessage_of PTP_DATA)\<lparr>ptp_data := d\<rparr>))"
  by (auto intro!: ok_const simp: sendToPeer_def emit_def serializePeerToPeerMessage_def PeerToPeerMessage_of_def)

lemma ng_at_draws: "ng_inv_at nd n (st\<lparr>draws := k\<rparr>) = ng_inv_at nd n st"
  by (simp add: ng_inv_at_def ng_inv_def sec_inv_def pc_inv_def sources_ok_def)

lemma ng_at_wf: "ng_inv_at nd n st \<Longrightarrow> p < n \<Longrightarrow> ip_wf (peer_id (deref st p))"
  by (simp add: ng_inv_at_def ng_inv_def)

lemma ok_helloTo:
  assumes "ng_env nd e" and p: "p < n"
  shows "ok (\<lambda>st. ng_inv_at nd n st \<and> length (helloCookie (deref st p)) = 16) (helloTo nd a p)"
    (is "ok ?I _")
proof (rule okI)
  fix st assume i: "?I st"
  let ?m = "(PeerToPeerMessage_of PTP_HELLO)\<lparr>ptp_yourId := peer_id (deref st p), ptp_helloCookie := helloCookie (deref st p)\<rparr>"
  have "ok ?I (sendToPeer nd a ?m)"
    using i p ng_at_wf [of nd n st p] by (intro ok_sendToPeer_hello [OF assms(1)]) (simp_all add: PeerToPeerMessage_of_def)
  then show "succeeds ?I (helloTo nd a p st)"
    unfolding helloTo_def Let_def
    by (intro succeeds_if okD [where I = ?I, OF _ i] ok_rules)
qed

lemma ok_attemptReestablish:
  assumes "ng_env nd e" and p: "p < n"
  shows "ok (ng_inv_at nd n) (attemptReestablish nd e p)"
proof (rule okI)
  fix st :: "'a ng_state_scheme" assume i: "ng_inv_at nd n st"
  let ?I = "\<lambda>st :: 'a ng_state_scheme. ng_inv_at nd n st \<and> length (helloCookie (deref st p)) = 16"
  obtain ck k where g: "generateRandomString (uni_az (node_crypto nd)) (draws st) 16 = (ck, k)"
    by (cases "generateRandomString (uni_az (node_crypto nd)) (draws st) 16")
  then have ck: "length ck = 16" by (auto simp: generateRandomString_def)
  let ?f = "\<lambda>peer. peer\<lparr>failedEstablishments := failedEstablishments peer + 1,
                 lastReestablish := now e, reestablishing := True, helloCookie := ck\<rparr>"
  let ?st = "modify p ?f (st\<lparr>draws := k\<rparr>)"
  have "ng_inv_at nd n ?st" using i p by (intro ng_inv_modify) (simp_all add: ng_at_draws)
  moreover have "helloCookie (deref ?st p) = ck"
    using i p by (simp add: ng_inv_at_def deref_modify)
  ultimately have I: "?I ?st" using ck by simp
  have "ok ?I (forEach xs (\<lambda>a. helloTo nd a p))" for xs
    by (intro ok_rules ok_helloTo [OF assms])
  then have "succeeds ?I (attemptReestablish nd e p st)"
    unfolding attemptReestablish_def g Let_def prod.case by (rule okD [where I = ?I, OF _ I])
  then show "succeeds (ng_inv_at nd n) (attemptReestablish nd e p st)"
    by (rule succeeds_weaken) simp
qed

lemma ok_modify:
  assumes "p < n" "\<And>x. peer_id (f x) = peer_id x" "\<And>x. packetQueue (f x) = packetQueue x"
    "\<And>x. negotiated (f x) \<Longrightarrow> negotiated x" "\<And>x. sourceAddresses (f x) = sourceAddresses x"
  shows "ok (ng_inv_at nd n) (update (modify p f))"
  using assms by (intro ok_update ng_inv_modify) auto

lemma ok_periodicPeer:
  assumes "ng_env nd e" and "p < n"
  shows "ok (ng_inv_at nd n) (periodicPeer nd e p)"
  unfolding periodicPeer_def Let_def
  by (intro okI succeeds_if; erule okD [rotated]; intro ok_rules ok_modify ok_attemptReestablish [OF assms])
    (simp_all add: assms)


lemma deref_update_sources [simp]: "deref (st\<lparr>peerSourceAddresses := t\<rparr>) p = deref (st :: 'a ng_state_scheme) p"
  by simp

lemma length_removeAll_less_eq: "length (removeAll x xs) \<le> length xs"
  by (simp add: removeAll_filter_not_eq)

lemma sources_ok_table:
  "sources_ok st \<Longrightarrow> map_of (peerSourceAddresses st) a = Some p \<longleftrightarrow>
     p < length (heap st) \<and> a \<in> set (sourceAddresses (deref st p))"
  by (simp add: sources_ok_def)

lemma sources_ok_bounds:
  assumes "sources_ok st" and "q < length (heap st)"
  shows "distinct (sourceAddresses (deref st q))" "length (sourceAddresses (deref st q)) \<le> MAX_SOURCE_ADDRESSES"
    "length (removeAll a (sourceAddresses (deref st q))) \<le> MAX_SOURCE_ADDRESSES"
proof -
  have "deref st q \<in> set (heap st)" using assms(2) by (rule nth_mem)
  then show "distinct (sourceAddresses (deref st q))" and
    l: "length (sourceAddresses (deref st q)) \<le> MAX_SOURCE_ADDRESSES"
    using assms(1) by (simp_all add: sources_ok_def)
  show "length (removeAll a (sourceAddresses (deref st q))) \<le> MAX_SOURCE_ADDRESSES"
    by (rule order_trans [OF length_removeAll_less_eq l])
qed

text \<open>
  The table of source addresses, seen as a function, after the two operations on it.
\<close>

lemma remove_keeps_table:
  assumes "sources_ok st" and p: "p < length (heap st)" and a: "a \<in> set (sourceAddresses (deref st p))"
  shows "sources_ok (removeSourceAddress p a st)"
proof -
  let ?st = "removeSourceAddress p a st"
  have h: "deref ?st q = (if q = p then sourceAddresses_update (removeAll a) (deref st p) else deref st q)"
    if "q < length (heap st)" for q using that p by (simp add: removeSourceAddress_def deref_modify)
  have l: "length (heap ?st) = length (heap st)" by (simp add: removeSourceAddress_def)
  have "map_of (peerSourceAddresses st) a = Some p" using assms by (simp add: sources_ok_def)
  then have u: "q = p" if "q < length (heap st)" "a \<in> set (sourceAddresses (deref st q))" for q
    using assms(1) that by (metis option.inject sources_ok_def)
  have t: "peerSourceAddresses ?st = AList.delete a (peerSourceAddresses st)" by (simp add: removeSourceAddress_def)
  show ?thesis
    unfolding sources_ok_def l t all_set_conv_all_nth
  proof (intro conjI allI impI)
    fix b q
    show "map_of (AList.delete a (peerSourceAddresses st)) b = Some q \<longleftrightarrow>
        q < length (heap st) \<and> b \<in> set (sourceAddresses (deref ?st q))"
      using assms(1) u h [of q] by (auto simp: sources_ok_def delete_conv)
  next
    fix q assume q: "q < length (heap st)"
    then show "distinct (sourceAddresses (deref ?st q))"
      "length (sourceAddresses (deref ?st q)) \<le> MAX_SOURCE_ADDRESSES"
      using h [OF q] sources_ok_bounds [OF assms(1)] by (auto simp: distinct_removeAll)
  qed
qed


definition insertSource :: "nat \<Rightarrow> inetaddress \<Rightarrow> 'a ng_state_scheme \<Rightarrow> 'a ng_state_scheme" where
  "insertSource p source st =
     (let st = modify p (sourceAddresses_update (\<lambda>xs. xs @ [source])) st;
          st = (case map_of (peerSourceAddresses st) source of
                  Some lastPeer \<Rightarrow> modify lastPeer (sourceAddresses_update (removeAll source)) st
                | None \<Rightarrow> st)
      in st\<lparr>peerSourceAddresses := AList.update source p (peerSourceAddresses st)\<rparr>)"

lemma addSourceAddress_insertSource:
  "addSourceAddress e p source st =
     (if source \<in> set (sourceAddresses (deref st p)) then st
      else insertSource p source
        (if length (sourceAddresses (deref st p)) \<ge> MAX_SOURCE_ADDRESSES
         then removeSourceAddress p (sourceAddresses (deref st p) ! (rand_value e mod length (sourceAddresses (deref st p)))) st
         else st))"
  by (simp add: addSourceAddress_def insertSource_def Let_def)

lemma insertSource_sources:
  assumes "sources_ok st" and p: "p < length (heap st)" and a: "a \<notin> set (sourceAddresses (deref st p))"
    and q: "q < length (heap st)"
  shows "sourceAddresses (deref (insertSource p a st) q) =
     (if q = p then sourceAddresses (deref st p) @ [a] else removeAll a (sourceAddresses (deref st q)))"
proof (cases "map_of (peerSourceAddresses st) a")
  case None
  then have "a \<notin> set (sourceAddresses (deref st q))" using sources_ok_table [OF assms(1), of a q] q by simp
  then show ?thesis using None p q by (simp add: insertSource_def Let_def deref_modify)
next
  case (Some r)
  then have r: "r < length (heap st)" "a \<in> set (sourceAddresses (deref st r))" "r \<noteq> p"
    using assms by (auto simp: sources_ok_def)
  have "a \<notin> set (sourceAddresses (deref st q))" if "q \<noteq> r"
    using sources_ok_table [OF assms(1), of a q] q Some that by auto
  then show ?thesis using Some r p q by (simp add: insertSource_def Let_def deref_modify)
qed

lemma insert_keeps_table:
  assumes ok: "sources_ok st" and p: "p < length (heap st)" and a: "a \<notin> set (sourceAddresses (deref st p))"
    and len: "length (sourceAddresses (deref st p)) < MAX_SOURCE_ADDRESSES"
  shows "sources_ok (insertSource p a st)"
proof -
  let ?st = "insertSource p a st"
  have l: "length (heap ?st) = length (heap st)" by (auto simp: insertSource_def Let_def split: option.split)
  have t: "peerSourceAddresses ?st = AList.update a p (peerSourceAddresses st)"
    by (auto simp: insertSource_def Let_def split: option.split)
  note s = insertSource_sources [OF ok p a]
  show ?thesis
    unfolding sources_ok_def l t all_set_conv_all_nth
  proof (intro conjI allI impI)
    fix b q
    show "map_of (AList.update a p (peerSourceAddresses st)) b = Some q \<longleftrightarrow>
        q < length (heap st) \<and> b \<in> set (sourceAddresses (deref ?st q))"
      using p s [of q] by (auto simp: sources_ok_table [OF ok] update_conv split: if_splits)
  next
    fix q assume q: "q < length (heap st)"
    show "distinct (sourceAddresses (deref ?st q))"
      "length (sourceAddresses (deref ?st q)) \<le> MAX_SOURCE_ADDRESSES"
      using q p a len sources_ok_bounds [OF ok] by (auto simp: s [OF q] distinct_removeAll)
  qed
qed

lemma remove_sources:
  assumes "p < length (heap st)"
  shows "sourceAddresses (deref (removeSourceAddress p a st) p) = removeAll a (sourceAddresses (deref st p))"
  using assms by (simp add: removeSourceAddress_def deref_modify)

lemma addSourceAddress_sources_ok:
  assumes ok: "sources_ok st" and p: "p < length (heap st)"
  shows "sources_ok (addSourceAddress e p a st)"
proof -
  let ?xs = "sourceAddresses (deref st p)"
  let ?r = "removeSourceAddress p (?xs ! (rand_value e mod length ?xs)) st"
  have "distinct ?xs" "length ?xs \<le> MAX_SOURCE_ADDRESSES" using ok p by (auto simp: sources_ok_def)
  show ?thesis
  proof (cases "length ?xs \<ge> MAX_SOURCE_ADDRESSES")
    case True
    then have pos: "0 < length ?xs" by (auto simp: MAX_SOURCE_ADDRESSES_def)
    let ?b = "?xs ! (rand_value e mod length ?xs)"
    have b: "?b \<in> set ?xs" using pos by (intro nth_mem mod_less_divisor)
    have "sources_ok ?r" by (rule remove_keeps_table [OF ok p b])
    moreover have "length (removeAll ?b ?xs) < length ?xs"
      using b by (rule length_removeAll_less)
    moreover have "length (heap ?r) = length (heap st)" by (simp add: removeSourceAddress_def)
    ultimately show ?thesis
      using p True \<open>length ?xs \<le> MAX_SOURCE_ADDRESSES\<close> remove_sources [OF p, of ?b]
      by (auto simp: addSourceAddress_insertSource ok intro!: insert_keeps_table)
  next
    case False
    then show ?thesis using ok p by (auto simp: addSourceAddress_insertSource intro!: insert_keeps_table)
  qed
qed

lemmas ng_inv_defs = ng_inv_at_def ng_inv_def sec_inv_def pc_inv_def sources_ok_def

lemma ng_at_pos: "ng_inv nd st \<Longrightarrow> ng_inv_at nd (length (heap st)) st"
  by (simp add: ng_inv_at_def)

lemma ng_at_inv: "ng_inv_at nd n st \<Longrightarrow> ng_inv nd st"
  by (simp add: ng_inv_at_def)

lemma ok_sendDataToPeer:
  assumes "ng_env nd e" and "p < n"
  shows "ok (ng_inv_at nd n) (sendDataToPeer nd e p d)"
  unfolding sendDataToPeer_def Let_def
  by (intro okI, erule okD [rotated])
    (intro ok_rules ok_sendToPeer_data ok_attemptReestablish [OF assms] ok_sendToBase [OF assms(1)] ok_modify;
      simp add: assms ng_inv_cookie)

text \<open>An action that first looks a peer up.\<close>

lemma ok_getPeer:
  assumes "\<And>p n. p < n \<Longrightarrow> ok (ng_inv_at nd n) (f p)"
  shows "ok (ng_inv nd) (\<lambda>st. case getPeer nd i st of (None, st) \<Rightarrow> nop st | (Some p, st) \<Rightarrow> f p st)"
proof (rule okI)
  fix st :: "'a ng_state_scheme" assume inv: "ng_inv nd st"
  obtain r st1 where g: "getPeer nd i st = (r, st1)" by (cases "getPeer nd i st")
  note st1 = getPeer_ng_inv [OF inv g]
  show "succeeds (ng_inv nd) (case getPeer nd i st of (None, st) \<Rightarrow> nop st | (Some p, st) \<Rightarrow> f p st)"
  proof (cases r)
    case None
    then show ?thesis using st1 g by (simp add: okD [OF ok_nop])
  next
    case (Some p)
    have "succeeds (ng_inv_at nd (length (heap st1))) (f p st1)"
      using st1 Some by (intro okD [OF assms] ng_at_pos) auto
    then show ?thesis using g Some by (auto elim: succeeds_weaken intro: ng_at_inv)
  qed
qed

lemma ok_getOrCreatePeer:
  assumes "\<And>p n. p < n \<Longrightarrow> ok (ng_inv_at nd n) (f p)" and i: "ip_wf i"
  shows "ok (ng_inv nd) (\<lambda>st. case getOrCreatePeer nd i st of (None, st) \<Rightarrow> nop st | (Some p, st) \<Rightarrow> f p st)"
proof (rule okI)
  fix st :: "'a ng_state_scheme" assume inv: "ng_inv nd st"
  obtain r st1 where g: "getOrCreatePeer nd i st = (r, st1)" by (cases "getOrCreatePeer nd i st")
  note st1 = getOrCreatePeer_ng_inv [OF inv g i]
  show "succeeds (ng_inv nd) (case getOrCreatePeer nd i st of (None, st) \<Rightarrow> nop st | (Some p, st) \<Rightarrow> f p st)"
  proof (cases r)
    case None
    then show ?thesis using st1 g by (simp add: okD [OF ok_nop])
  next
    case (Some p)
    have "succeeds (ng_inv_at nd (length (heap st1))) (f p st1)"
      using st1 Some by (intro okD [OF assms(1)] ng_at_pos) auto
    then show ?thesis using g Some by (auto elim: succeeds_weaken intro: ng_at_inv)
  qed
qed

lemma ok_onUpperLayerData_ng:
  assumes "ng_env nd e" and "ip_wf i"
  shows "ok (ng_inv nd) (onUpperLayerData_ng nd e i d)"
  unfolding onUpperLayerData_ng_def [abs_def]
  using assms by (intro ok_getOrCreatePeer ok_sendDataToPeer)

lemma ok_changePeerTargetAddresses:
  assumes "ng_env nd e" and "p < n"
  shows "ok (ng_inv_at nd n) (changePeerTargetAddresses nd e p as)"
  unfolding changePeerTargetAddresses_def [abs_def] Let_def
  by (intro ok_rules ok_modify ok_attemptReestablish [OF assms]) (simp_all add: assms)

text \<open>The invariant without its part on source addresses.\<close>

definition ng_core :: "node \<Rightarrow> nat \<Rightarrow> 'a ng_state_scheme \<Rightarrow> bool" where
  "ng_core nd n st \<longleftrightarrow>
     sec_inv nd st \<and> (\<forall>x \<in> set (heap st). ip_wf (peer_id x)) \<and> queue_wf (workerQueue st) (workerQueueSize st) \<and>
     (cookie st = [] \<or> length (cookie st) = 16) \<and> length (heap st) = n"

lemma ng_at_core: "ng_inv_at nd n st \<longleftrightarrow> ng_core nd n st \<and> sources_ok st"
  by (auto simp: ng_inv_at_def ng_inv_def ng_core_def)

lemma ng_core_modify:
  assumes "ng_core nd n st"
  shows "ng_core nd n (modify q (sourceAddresses_update f) st)"
proof (cases "q < length (heap st)")
  case True
  then have "sec_inv nd (modify q (sourceAddresses_update f) st)"
    using assms by (intro modify_sec_inv) (auto simp: ng_core_def)
  moreover have "ip_wf (peer_id (deref (modify q (sourceAddresses_update f) st) k))" if "k < length (heap st)" for k
    using that assms True by (auto simp: deref_modify ng_core_def)
  ultimately show ?thesis using assms by (auto simp: ng_core_def all_set_conv_all_nth)
next
  case False
  then have "modify q (sourceAddresses_update f) st = st" by (simp add: modify_def list_update_beyond)
  then show ?thesis using assms by simp
qed

lemma ng_core_table: "ng_core nd n (st\<lparr>peerSourceAddresses := t\<rparr>) = ng_core nd n st"
  by (simp add: ng_core_def sec_inv_def pc_inv_def)

lemma addSourceAddress_at:
  assumes "ng_inv_at nd n st" and "p < n"
  shows "ng_inv_at nd n (addSourceAddress e p a st)"
proof -
  have "sources_ok (addSourceAddress e p a st)"
    using assms by (intro addSourceAddress_sources_ok) (auto simp: ng_inv_at_def ng_inv_def)
  moreover have "ng_core nd n (addSourceAddress e p a st)"
    using assms(1)
    by (auto simp: ng_at_core addSourceAddress_def removeSourceAddress_def Let_def ng_core_table
        intro!: ng_core_modify split: option.split)
  ultimately show ?thesis by (simp add: ng_at_core)
qed

lemma ok_addSourceAddress: "p < n \<Longrightarrow> ok (ng_inv_at nd n) (update (addSourceAddress e p a))"
  by (intro ok_update addSourceAddress_at)

lemma ok_helloReceived:
  assumes "ng_env nd e" and "ip_wf (ptp_myId msg)" and "length (ptp_helloCookie msg) = 16"
  shows "ok (ng_inv nd) (helloReceived nd e source msg)"
proof -
  have "ok (ng_inv_at nd n) (sendToPeer nd source ((PeerToPeerMessage_of PTP_HELLO_REPLY)
      \<lparr>ptp_yourId := ptp_myId msg, ptp_helloCookie := ptp_helloCookie msg\<rparr>))" for n
    using assms by (intro ok_sendToPeer_hello) (simp_all add: PeerToPeerMessage_of_def)
  note step = this ok_addSourceAddress ok_modify ok_attemptReestablish [OF assms(1)]
  have "ok (ng_inv_at nd n) (\<lambda>st. if isLinkLocal (ip_of source) \<and> \<not> InetAddress_bool (linkLocalAddress (deref st p))
       then andThen (update (modify p (linkLocalAddress_update (\<lambda>_. source))))
         (if isActive (now e) (deref st p) then attemptReestablish nd e p else nop) st
       else nop st)" if "p < n" for p n
    by (intro okI succeeds_if; erule okD [rotated]; intro ok_rules step) (simp_all add: that)
  note step = this step
  show ?thesis
    unfolding helloReceived_def [abs_def]
    by (intro ok_rules ok_getOrCreatePeer step assms)
qed

lemma ok_helloReplyReceived: "ok (ng_inv nd) (helloReplyReceived nd source msg)"
  unfolding helloReplyReceived_def [abs_def]
  by (intro ok_rules ok_getPeer ok_modify) simp_all

lemma length_chunk_cookie: "length d = 145 \<Longrightarrow> length (chunk 65 16 (take 81 d)) = 16"
  by simp

lemma ok_peerMessageReceived:
  assumes "ng_env nd e" and m: "parsePeerToPeerMessage (node_crypto nd) d = Some msg"
  shows "ok (ng_inv nd) (peerMessageReceived nd e source msg)"
proof (cases "ptp_kind msg")
  case PTP_HELLO
  note a = parsePeerToPeerMessage_authentic [OF m]
  have "ip_wf (ptp_myId msg)" 
    using a PTP_HELLO assms(1) pubkeyToDeviceId_wf [of "node_crypto nd" "chunk 17 32 d"]
    by (simp add: ng_env_def)
  moreover have "length d = 145" "chunk 65 16 (take 81 d) = ptp_helloCookie msg" using a PTP_HELLO by simp_all
  then have "length (ptp_helloCookie msg) = 16" by (metis length_chunk_cookie)
  ultimately show ?thesis using PTP_HELLO assms by (simp add: peerMessageReceived_def ok_helloReceived)
next
  case PTP_DATA
  have "ok (ng_inv nd) (peerDataPacketReceived source x)" for x
    by (auto intro!: ok_const simp: peerDataPacketReceived_def nop_def emit_def split: option.split)
  then show ?thesis using PTP_DATA by (simp add: peerMessageReceived_def)
qed (simp_all add: peerMessageReceived_def ok_helloReplyReceived ok_nop)


lemma ok_multicastPacketReceived:
  assumes "ng_env nd e"
  shows "ok (ng_inv nd) (multicastPacketReceived nd e address packet)"
proof (cases "length packet < DEVICEID_LENGTH + 2")
  case False
  then have l: "18 \<le> length packet" by (simp add: DEVICEID_LENGTH_def)
  let ?id = "IpAddress (chunk 2 16 packet)" and ?port = "le_word (chunk 0 2 packet) :: u16"
  have x: "fromBinaryString (chunk 2 DEVICEID_LENGTH packet) = Some ?id" "unpack (chunk 0 2 packet) = Some ?port"
    using l by (simp_all add: fromBinaryString_def unpack_def DEVICEID_LENGTH_def)
  have "ok (ng_inv_at nd n)
     (\<lambda>st. let srcAddress = InetAddress (ip_of address) ?port in
        if linkLocalAddress (deref st p) \<noteq> srcAddress
        then andThen (update (modify p (linkLocalAddress_update (\<lambda>_. srcAddress)))) (attemptReestablish nd e p) st
        else nop st)" if "p < n" for p n
    unfolding Let_def by (intro ok_rules ok_modify ok_attemptReestablish assms) (simp_all add: that)
  then show ?thesis
    unfolding multicastPacketReceived_def [abs_def] x prod.case option.case if_not_P [OF False]
    by (intro ok_rules ok_getPeer)
next
  case True
  show ?thesis unfolding multicastPacketReceived_def [abs_def] if_P [OF True] by (intro ok_rules)
qed

section \<open>Base server and periodic work\<close>

lemma ok_frame:
  assumes "\<And>st. heap (f st) = heap st" "\<And>st. peers (f st) = peers st" "\<And>st. cachedPeer (f st) = cachedPeer st"
    "\<And>st. cachedPeerId (f st) = cachedPeerId st" "\<And>st. queuedPackets (f st) = queuedPackets st"
    "\<And>st. peerSourceAddresses (f st) = peerSourceAddresses st" "\<And>st. workerQueue (f st) = workerQueue st"
    "\<And>st. workerQueueSize (f st) = workerQueueSize st" "\<And>st. cookie (f st) = cookie st"
  shows "ok (ng_inv nd) (update f)"
  using assms by (intro ok_update) (auto simp: ng_inv_def sec_inv_def pc_inv_def sources_ok_def)

lemma succeeds_andThen: "ok I f \<Longrightarrow> ok I g \<Longrightarrow> I st \<Longrightarrow> succeeds I (andThen f g st)"
  by (rule okD [OF ok_andThen])

lemma succeeds_nop: "I st \<Longrightarrow> succeeds I (nop st)"
  by (rule okD [OF ok_nop])

lemma succeeds_forEach: "(\<And>x. x \<in> set xs \<Longrightarrow> ok I (f x)) \<Longrightarrow> I st \<Longrightarrow> succeeds I (forEach xs f st)"
  by (rule okD [OF ok_forEach])

lemma ok_requestRefresh: "ok (ng_inv nd) requestRefresh"
proof (rule okI)
  fix st :: "'a ng_state_scheme" assume "ng_inv nd st"
  then show "succeeds (ng_inv nd) (requestRefresh st)"
    using ng_inv_push [of nd st Job_refresh] by (simp add: requestRefresh_def succeeds_def update_def nop_def)
qed

lemma ok_send_inv:
  assumes "ng_env nd e"
  shows "ok (ng_inv nd) (sendToBaseUdp nd msg)" "ok (ng_inv nd) (sendToBaseTcp nd msg)"
    "ok (ng_inv nd) (sendInfoRequestToBase nd i)" "ok (ng_inv nd) (sendLocalAddressesToBase nd)"
  by (rule ok_sendToBase [OF assms]; simp add: ng_inv_cookie)+

lemma ok_resendInfoRequests:
  assumes "ng_env nd e"
  shows "ok (ng_inv nd) (resendInfoRequests nd e)"
  unfolding resendInfoRequests_def
proof (rule okI, erule okD [rotated], intro ok_forEach)
  fix p
  show "ok (ng_inv nd) (\<lambda>st. if isActive (now e) (deref st p)
      then sendInfoRequestToBase nd (peer_id (deref st p)) st else nop st)"
    by (rule okI, rule succeeds_if; erule okD [rotated]; intro ok_send_inv [OF assms] ok_nop)
qed

lemma ok_connectToBase:
  assumes "ng_env nd e"
  shows "ok (ng_inv nd) (connectToBase nd e)"
proof -
  have a: "length (getBaseAddresses e) \<noteq> 0" using assms by (simp add: ng_env_def)
  have close: "ok (ng_inv nd) (\<lambda>st. case baseConnection st of Some conn \<Rightarrow> emit (TcpClose conn) st | None \<Rightarrow> nop st)"
    by (auto intro!: ok_const simp: emit_def nop_def split: option.split)
  show ?thesis
    unfolding connectToBase_def [abs_def] Let_def if_not_P [OF a]
    by (intro okI succeeds_andThen ok_rules close ok_frame ok_send_inv [OF assms]) simp_all
qed

lemma ok_sendNatInitToBase:
  assumes "ng_env nd e"
  shows "ok (ng_inv nd) (sendNatInitToBase nd e)"
proof -
  have "ok (ng_inv nd) (update (advanceTransientPort :: 'a ng_state_scheme \<Rightarrow> _))"
    by (intro ok_frame) (simp_all add: advanceTransientPort_def Let_def)
  note adv = this
  have transient: "ok (ng_inv nd) (\<lambda>st :: 'a ng_state_scheme. if baseTransientPort st \<noteq> 0
     then andThen (sendToBaseUdp nd ((PeerToBaseMessage_of PTB_NAT_INIT_TRANSIENT)
            \<lparr>ptb_deviceId := deviceId (myIdentity nd), ptb_counter := natInitCounter st\<rparr>))
          (update advanceTransientPort) st
     else nop st)"
    by (intro okI succeeds_if succeeds_andThen succeeds_nop ok_send_inv [OF assms] adv)
  show ?thesis
    unfolding sendNatInitToBase_def [abs_def] Let_def
    by (intro okI succeeds_if succeeds_andThen succeeds_nop ok_rules transient ok_frame ok_send_inv [OF assms]) simp_all
qed


lemma iteratePeers_bound:
  assumes "ng_inv_at nd n st" and "p \<in> set (iteratePeers st)"
  shows "p < n"
proof -
  have pc: "pc_inv nd st" using assms(1) by (simp add: ng_inv_at_def ng_inv_def sec_inv_def)
  obtain i where "(i, p) \<in> set (peers st)" using assms(2) by (auto simp: iteratePeers_def getPeers_def)
  then have "map_of (peers st) i = Some p" using pc by (simp add: pc_inv_def)
  then show ?thesis using pc_inv_table [OF pc] assms(1) by (auto simp: ng_inv_at_def)
qed

lemma ok_iterate_periodicPeer:
  assumes "ng_env nd e"
  shows "ok (ng_inv nd) (\<lambda>st. forEach (iteratePeers st) (periodicPeer nd e) st)"
proof (rule okI)
  fix st :: "'a ng_state_scheme" assume "ng_inv nd st"
  then have at: "ng_inv_at nd (length (heap st)) st" by (rule ng_at_pos)
  have "succeeds (ng_inv_at nd (length (heap st))) (forEach (iteratePeers st) (periodicPeer nd e) st)"
    using at by (intro succeeds_forEach ok_periodicPeer assms iteratePeers_bound)
  then show "succeeds (ng_inv nd) (forEach (iteratePeers st) (periodicPeer nd e) st)"
    by (rule succeeds_weaken) (rule ng_at_inv)
qed

lemma ok_refresh:
  assumes "ng_env nd e"
  shows "ok (ng_inv nd) (refresh nd e)"
proof -
  have "ok (ng_inv nd) (sendMulticast nd)"
    by (auto intro!: ok_const simp: sendMulticast_def Let_def andThen_def emit_def)
  then show ?thesis
    unfolding refresh_def
    by (intro ok_rules ok_send_inv [OF assms] ok_sendNatInitToBase [OF assms] ok_iterate_periodicPeer [OF assms] ok_frame)
      simp_all
qed

lemma ok_baseMessageReceivedUdp:
  assumes "ng_env nd e"
  shows "ok (ng_inv nd) (baseMessageReceivedUdp nd e msg)"
  unfolding baseMessageReceivedUdp_def
  by (cases "btp_kind msg") (simp_all add: ok_nop ok_emit ok_andThen ok_frame ok_send_inv [OF assms])

lemma ok_stateReceived:
  assumes "btp_udpAddress msg \<noteq> []"
  shows "ok (ng_inv nd) (stateReceived msg)"
proof -
  obtain u us where u: "btp_udpAddress msg = u # us" using assms by (cases "btp_udpAddress msg") auto
  obtain lo hi where r: "btp_natTransientRange msg = (lo, hi)" by (cases "btp_natTransientRange msg")
  have "ok (ng_inv nd) (update (\<lambda>st. st\<lparr>allBaseUdpAddresses := u # us, baseUdpAddress := u\<rparr>))"
    "ok (ng_inv nd) (update (\<lambda>st. st\<lparr>allBaseUdpAddresses := u # us, baseUdpAddress := u, baseTransientRange := (lo, hi),
       baseTransientPort := (if baseTransientPort st = 0 then lo else baseTransientPort st)\<rparr>))"
    by (rule ok_frame; simp)+
  then show ?thesis by (auto simp: ok_def stateReceived_def u r Let_def update_def nop_def)
qed

lemma ok_baseMessageReceivedTcp:
  assumes e: "ng_env nd e" and m: "parseBaseToPeerMessage d = Some msg"
  shows "ok (ng_inv nd) (baseMessageReceivedTcp nd e msg)"
proof -
  from parseBaseToPeerMessage_shape [of d] m
  have shape: "btp_kind msg = BTP_STATE \<Longrightarrow> btp_udpAddress msg \<noteq> []" "btp_kind msg = BTP_HELLO \<Longrightarrow> length (btp_cookie msg) = 16"
    by auto
  have hello: "ok (ng_inv nd) (update (cookie_update (\<lambda>_. btp_cookie msg)))" if "btp_kind msg = BTP_HELLO"
    using shape(2) [OF that] by (intro ok_update) (simp add: ng_inv_def sec_inv_def pc_inv_def sources_ok_def)
  have first: "ok (ng_inv nd) (update (\<lambda>st. st\<lparr>lastBaseTcpAction := now e, lastBaseTcpMessage := now e, baseConnectRetries := 0\<rparr>))"
    "ok (ng_inv nd) (update (baseAddress_update (\<lambda>_. btp_newBaseAddress msg)))"
    by (rule ok_frame; simp)+
  have peer: "ok (ng_inv nd) (\<lambda>st. case getPeer nd (btp_deviceId msg) st of (None, st) \<Rightarrow> nop st
      | (Some p, st) \<Rightarrow> changePeerTargetAddresses nd e p (btp_addresses msg) st)"
    by (intro ok_getPeer ok_changePeerTargetAddresses e)
  show ?thesis
    unfolding baseMessageReceivedTcp_def
    by (rule ok_andThen [OF first(1)], cases "btp_kind msg")
      (simp_all add: ok_nop ok_emit ok_andThen hello first(2) ok_connectToBase [OF e] ok_stateReceived shape peer
        ok_resendInfoRequests [OF e] ok_send_inv [OF e] ok_requestRefresh)
qed

lemma ok_baseTcpData:
  assumes "ng_env nd e"
  shows "ok (ng_inv nd) (baseTcpData nd e d)"
proof -
  obtain msg where m: "parseBaseToPeerMessage d = Some msg" using parseBaseToPeerMessage_shape by blast
  show ?thesis
    unfolding baseTcpData_def m option.case
    by (intro ok_rules ok_frame ok_baseMessageReceivedTcp [OF assms m]) simp_all
qed

lemma ok_baseTcpError: "ok (ng_inv nd) (baseTcpError e conn)"
  unfolding baseTcpError_def [abs_def] by (intro ok_rules ok_frame) simp_all

text \<open>A datagram can only fail when it is empty and not from the base server.\<close>

lemma succeeds_udpPacketReceived:
  assumes e: "ng_env nd e" and inv: "ng_inv nd st" and d: "d \<noteq> [] \<or> source = baseUdpAddress st"
  shows "succeeds (ng_inv nd) (udpPacketReceived nd e source d st)"
proof (cases "source = baseUdpAddress st")
  case True
  obtain msg where "parseBaseToPeerMessage d = Some msg" using parseBaseToPeerMessage_shape by blast
  then show ?thesis using True okD [OF ok_baseMessageReceivedUdp [OF e] inv] by (simp add: udpPacketReceived_def)
next
  case False
  then obtain d0 r where d0: "d = d0 # r" using d by (cases d) auto
  then have i: "sv_index d 0 = Some d0" by (simp add: sv_index_def)
  obtain msg where m: "parsePeerToPeerMessage (node_crypto nd) d = Some msg" using parsePeerToPeerMessage_total by blast
  have "ng_inv nd (st\<lparr>workerQueue := workerQueue st @ [Job_peerMessage source d]\<rparr>)"
    if "length (workerQueue st) < workerQueueSize st" "d0 = 0 \<or> d0 = 1"
    using that by (intro ng_inv_push [OF inv]) (auto simp: d0)
  then show ?thesis
    using False i m okD [OF ok_peerMessageReceived [OF e m] inv] inv
    by (auto simp: udpPacketReceived_def succeeds_def update_def nop_def)
qed

lemma ok_workerStep:
  assumes "ng_env nd e"
  shows "ok (ng_inv nd) (workerStep nd e)"
proof (rule okI)
  fix st :: "'a ng_state_scheme" assume inv: "ng_inv nd st"
  show "succeeds (ng_inv nd) (workerStep nd e st)"
  proof (cases "workerQueue st")
    case Nil
    then show ?thesis using inv by (simp add: workerStep_def succeeds_nop)
  next
    case (Cons j q)
    have i: "ng_inv nd (st\<lparr>workerQueue := q\<rparr>)"
      by (rule ng_inv_pop [OF inv Cons])
    show ?thesis
    proof (cases j)
      case Job_refresh
      then show ?thesis using Cons okD [OF ok_refresh [OF assms] i] by (simp add: workerStep_def)
    next
      case (Job_peerMessage a d)
      obtain msg where m: "parsePeerToPeerMessage (node_crypto nd) d = Some msg" using parsePeerToPeerMessage_total by blast
      then show ?thesis
        using Cons Job_peerMessage okD [OF ok_peerMessageReceived [OF assms m] i] by (simp add: workerStep_def)
    qed
  qed
qed

lemma ok_periodic:
  assumes "ng_env nd e"
  shows "ok (ng_inv nd) (periodic nd e)"
proof (rule okI)
  fix st :: "'a ng_state_scheme" assume inv: "ng_inv nd st"
  obtain ch st1 where r: "reloadLocalAddresses e (st\<lparr>lastPeriodic := now e\<rparr>) = (ch, st1)" by (cases "reloadLocalAddresses e (st\<lparr>lastPeriodic := now e\<rparr>)")
  have i: "ng_inv nd st1"
    using inv by (rule ng_inv_frame) (use inv r in \<open>auto simp: reloadLocalAddresses_def Let_def ng_inv_def split: if_splits\<close>)
  note ok = ok_requestRefresh ok_connectToBase [OF assms] ok_sendNatInitToBase [OF assms]
  show "succeeds (ng_inv nd) (periodic nd e st)"
    unfolding periodic_def r Let_def prod.case
    by (intro succeeds_if succeeds_nop inv succeeds_andThen i ok_rules ok)
qed

end
