(* ===== verification/Relations.thy ===== *)
theory Relations
  imports NgSocketInv
begin

text \<open>
  \<open>preserves R f\<close> is the relational counterpart of \<open>ok\<close>: whatever the action \<open>f\<close> returns is related
  to the state it started from.  The locale \<open>heap_relation\<close> is the interface between the socket's
  actions and a property of the peers in the heap: a relation between heaps that tolerates what
  the actions do to a peer (all but opening a path) and the creation of an allowed peer.  Its
  lemmas follow the relation through every operation of the socket; the interpretations are the
  absence of new paths and the admission of peers.
\<close>

section \<open>Relations an action respects\<close>

definition preserves :: "('s \<Rightarrow> 's \<Rightarrow> bool) \<Rightarrow> 's action \<Rightarrow> bool" where
  "preserves R f \<longleftrightarrow> (\<forall>st out st'. f st = Some (out, st') \<longrightarrow> R st st')"

definition result :: "('s \<Rightarrow> 's \<Rightarrow> bool) \<Rightarrow> 's \<Rightarrow> ('x \<times> 's) option \<Rightarrow> bool" where
  "result R st r \<longleftrightarrow> (\<forall>out st'. r = Some (out, st') \<longrightarrow> R st st')"

named_theorems preserves_rules

lemma preservesD: "preserves R f \<Longrightarrow> f st = Some (out, st') \<Longrightarrow> R st st'"
  unfolding preserves_def by blast

lemma preservesI: "(\<And>st out st'. f st = Some (out, st') \<Longrightarrow> R st st') \<Longrightarrow> preserves R f"
  unfolding preserves_def by blast

lemma preserves_result: "(\<And>st. result R st (f st)) \<Longrightarrow> preserves R f"
  by (simp add: result_def preserves_def)

lemma preserves_if [preserves_rules]:
  "(c \<Longrightarrow> preserves R f) \<Longrightarrow> (\<not> c \<Longrightarrow> preserves R g) \<Longrightarrow> preserves R (if c then f else g)"
  by simp

text \<open>An action chosen by the state it starts from.\<close>

lemma preserves_by_state: "(\<And>st. preserves R (g st)) \<Longrightarrow> preserves R (\<lambda>st. g st st)"
  unfolding preserves_def by blast

lemma preserves_state_if [preserves_rules]:
  "preserves R f \<Longrightarrow> preserves R g \<Longrightarrow> preserves R (\<lambda>st. if c st then f st else g st)"
  unfolding preserves_def by simp

lemma preserves_case_option:
  assumes "preserves R f" and "\<And>x. preserves R (g x)"
  shows "preserves R (\<lambda>st. case h st of None \<Rightarrow> f st | Some x \<Rightarrow> g x st)"
  using assms by (auto simp: preserves_def split: option.splits)

lemma preserves_fails [preserves_rules]: "preserves R (\<lambda>st. None)"
  by (simp add: preserves_def)

lemma sendToBaseUdp_same: "sendToBaseUdp nd msg st = Some (out, st') \<Longrightarrow> st' = st"
  unfolding sendToBaseUdp_def forEach_emit forEach_nop nop_def emit_def
  by (auto split: if_splits option.splits PeerToBaseMessageKind.splits)

lemma sendToBaseTcp_same: "sendToBaseTcp nd msg st = Some (out, st') \<Longrightarrow> st' = st"
  by (auto simp: sendToBaseTcp_def nop_def emit_def split: option.splits if_splits)

lemma udp_empty_fails: "a \<noteq> baseUdpAddress st \<Longrightarrow> udpPacketReceived nd e a [] st = None"
  by (simp add: udpPacketReceived_def sv_index_def)

section \<open>Relations between heaps\<close>

text \<open>
  The third law covers every change the code makes to a peer except the one of
  \<open>helloReplyReceived\<close>, the fourth a new peer.
\<close>

locale heap_relation =
  fixes nd :: node and R :: "peer list \<Rightarrow> peer list \<Rightarrow> bool"
  assumes R_refl: "R h h"
    and R_trans: "R h h' \<Longrightarrow> R h' h'' \<Longrightarrow> R h h''"
    and R_modify: "(\<And>x. targetAddress (f x) = targetAddress x) \<Longrightarrow> (\<And>x. connected (f x) \<Longrightarrow> connected x) \<Longrightarrow>
      (\<And>x. peer_id (f x) = peer_id x) \<Longrightarrow> R h (h[p := f (h ! p)])"
    and R_create: "isPeerAllowed nd (peer_id x) \<Longrightarrow> R h (h @ [x])"
begin

abbreviation keeps :: "'a ng_state_scheme \<Rightarrow> 'a ng_state_scheme \<Rightarrow> bool" where
  "keeps st st' \<equiv> R (heap st) (heap st')"

lemma keeps_refl [simp]: "R h h"
  by (rule R_refl)

lemmas keeps_trans = R_trans

lemma preserves_basic [preserves_rules]: "preserves keeps nop" "preserves keeps (emit x)"
  by (simp_all add: preserves_def nop_def emit_def)

lemma preserves_andThen [preserves_rules]:
  "preserves keeps f \<Longrightarrow> preserves keeps g \<Longrightarrow> preserves keeps (andThen f g)"
  unfolding preserves_def andThen_def by (force split: option.splits dest: keeps_trans)

lemma result_rules:
  "result keeps st None" "result keeps st (nop st)" "keeps st (f st) \<Longrightarrow> result keeps st (update f st)"
  "result keeps st a \<Longrightarrow> result keeps st b \<Longrightarrow> result keeps st (if c then a else b)"
  by (simp_all add: result_def nop_def update_def)

lemma result_andThen: "preserves keeps f \<Longrightarrow> preserves keeps g \<Longrightarrow> result keeps st (andThen f g st)"
  using preservesD [OF preserves_andThen] by (auto simp: result_def)

lemma preserves_forEach [preserves_rules]:
  "(\<And>x. x \<in> set xs \<Longrightarrow> preserves keeps (f x)) \<Longrightarrow> preserves keeps (forEach xs f)"
  by (induction xs) (auto intro: preserves_rules)

lemma preserves_same_heap:
  "(\<And>st out st'. f st = Some (out, st') \<Longrightarrow> heap st' = heap st) \<Longrightarrow> preserves keeps f"
  by (simp add: preserves_def)

lemma preserves_update_heap:
  "(\<And>st. heap (f st) = heap st) \<Longrightarrow> preserves keeps (update f)"
  by (simp add: preserves_def update_def)

lemma keeps_modify:
  assumes "\<And>x. targetAddress (f x) = targetAddress x" "\<And>x. connected (f x) \<Longrightarrow> connected x" "\<And>x. peer_id (f x) = peer_id x"
  shows "keeps st (modify p f st)"
  unfolding modify_def using R_modify [OF assms] by simp

lemma preserves_modify:
  assumes "\<And>x. targetAddress (f x) = targetAddress x" "\<And>x. connected (f x) \<Longrightarrow> connected x" "\<And>x. peer_id (f x) = peer_id x"
  shows "preserves keeps (update (modify p f))"
  by (auto simp: preserves_def update_def intro!: keeps_modify assms)

section \<open>The operations of the socket\<close>

lemma send_keeps [preserves_rules]:
  "preserves keeps (sendToBaseUdp nd msg)" "preserves keeps (sendToBaseTcp nd msg)"
  "preserves keeps (sendToPeer nd a m)" "preserves keeps (sendMulticast nd)"
  by (auto intro!: preserves_same_heap simp: sendToPeer_def sendMulticast_def Let_def andThen_def emit_def
      split: option.splits dest!: sendToBaseUdp_same sendToBaseTcp_same)

lemma sendInfo_keeps [preserves_rules]:
  "preserves keeps (sendInfoRequestToBase nd i)" "preserves keeps (sendLocalAddressesToBase nd)"
  unfolding sendInfoRequestToBase_def sendLocalAddressesToBase_def [abs_def]
  by (rule preserves_rules, rule preserves_by_state, rule preserves_rules)

lemma helloTo_keeps [preserves_rules]: "preserves keeps (helloTo nd a p)"
proof (rule preservesI)
  fix st :: "'a ng_state_scheme" and out st' assume h: "helloTo nd a p st = Some (out, st')"
  let ?m = "(PeerToPeerMessage_of PTP_HELLO)\<lparr>ptp_yourId := peer_id (deref st p), ptp_helloCookie := helloCookie (deref st p)\<rparr>"
  have "preserves keeps (andThen (sendToPeer nd a ?m)
      (if a = targetAddress (deref st p) then sendToPeer nd a ?m else nop :: 'a ng_state_scheme action))"
    by (intro preserves_rules)
  then show "keeps st st'"
    using h by (auto simp: helloTo_def Let_def nop_def dest: preservesD split: if_splits)
qed

lemma attemptReestablish_keeps [preserves_rules]: "preserves keeps (attemptReestablish nd e p)"
proof (rule preservesI)
  fix st :: "'a ng_state_scheme" and out st' assume h: "attemptReestablish nd e p st = Some (out, st')"
  obtain ck k where g: "generateRandomString (uni_az (node_crypto nd)) (draws st) 16 = (ck, k)"
    by (cases "generateRandomString (uni_az (node_crypto nd)) (draws st) 16")
  let ?f = "\<lambda>peer. peer\<lparr>failedEstablishments := failedEstablishments peer + 1,
                 lastReestablish := now e, reestablishing := True, helloCookie := ck\<rparr>"
  let ?st = "modify p ?f (st\<lparr>draws := k\<rparr>)"
  have "keeps (st\<lparr>draws := k\<rparr>) ?st" by (rule keeps_modify) simp_all
  then have "keeps st ?st" by simp
  moreover have "preserves keeps (forEach xs (\<lambda>a. helloTo nd a p :: 'a ng_state_scheme action))" for xs
    by (intro preserves_rules)
  then have "keeps ?st st'"
    using h unfolding attemptReestablish_def g Let_def prod.case by (blast dest: preservesD)
  ultimately show "keeps st st'" by (rule keeps_trans)
qed

lemma addSourceAddress_keeps [preserves_rules]: "preserves keeps (update (addSourceAddress e p a))"
proof -
  have "keeps st (modify q (sourceAddresses_update f) st)" for q f and st :: "'a ng_state_scheme"
    by (rule keeps_modify) simp_all
  then have "keeps st (modify q (sourceAddresses_update f) st')" if "keeps st st'" for q f and st st' :: "'a ng_state_scheme"
    using that keeps_trans by blast
  moreover have "keeps st (st'\<lparr>peerSourceAddresses := t\<rparr>) = keeps st st'" for t and st st' :: "'a ng_state_scheme"
    by simp
  ultimately have "keeps st (addSourceAddress e p a st)" for st :: "'a ng_state_scheme"
    by (auto simp: addSourceAddress_def removeSourceAddress_def Let_def split: option.split)
  then show ?thesis by (simp add: preserves_def update_def)
qed

lemma getPeer_keeps: "getPeer nd i st = (r, st') \<Longrightarrow> keeps st st'"
  using getPeer_heap [of nd i st r st'] by simp

lemma getOrCreatePeer_keeps:
  assumes "getOrCreatePeer nd i st = (r, st')"
  shows "keeps st st'"
proof -
  obtain q st1 where g: "getPeer nd i st = (q, st1)" by (cases "getPeer nd i st")
  have "keeps st1 (snd (createPeer nd i st1))"
    using R_create by (simp add: createPeer_def Let_def Peer_new_def split: prod.splits)
  then show ?thesis
    using assms getPeer_keeps [OF g] keeps_trans by (cases q) (auto simp: getOrCreatePeer_def g)
qed

lemma preserves_getPeer [preserves_rules]:
  assumes "\<And>p. preserves keeps (f p)"
  shows "preserves keeps (\<lambda>st. case getPeer nd i st of (None, st) \<Rightarrow> nop st | (Some p, st) \<Rightarrow> f p st)"
proof (rule preservesI)
  fix st :: "'a ng_state_scheme" and out st'
  assume h: "(case getPeer nd i st of (None, st) \<Rightarrow> nop st | (Some p, st) \<Rightarrow> f p st) = Some (out, st')"
  obtain r st1 where g: "getPeer nd i st = (r, st1)" by (cases "getPeer nd i st")
  have "keeps st1 st'" using h g preservesD [OF assms, of _ st1] by (cases r) (auto simp: nop_def)
  with getPeer_keeps [OF g] show "keeps st st'" by (rule keeps_trans)
qed

lemma preserves_getOrCreatePeer [preserves_rules]:
  assumes "\<And>p. preserves keeps (f p)"
  shows "preserves keeps (\<lambda>st. case getOrCreatePeer nd i st of (None, st) \<Rightarrow> nop st | (Some p, st) \<Rightarrow> f p st)"
proof (rule preservesI)
  fix st :: "'a ng_state_scheme" and out st'
  assume h: "(case getOrCreatePeer nd i st of (None, st) \<Rightarrow> nop st | (Some p, st) \<Rightarrow> f p st) = Some (out, st')"
  obtain r st1 where g: "getOrCreatePeer nd i st = (r, st1)" by (cases "getOrCreatePeer nd i st")
  have "keeps st1 st'" using h g preservesD [OF assms, of _ st1] by (cases r) (auto simp: nop_def)
  with getOrCreatePeer_keeps [OF g] show "keeps st st'" by (rule keeps_trans)
qed

lemma sendDataToPeer_keeps [preserves_rules]: "preserves keeps (sendDataToPeer nd e p d)"
  unfolding sendDataToPeer_def [abs_def] Let_def
  by (intro preserves_result result_andThen preserves_rules preserves_modify) simp_all

lemma changePeerTargetAddresses_keeps [preserves_rules]:
  "preserves keeps (changePeerTargetAddresses nd e p as)"
  unfolding changePeerTargetAddresses_def [abs_def] Let_def
  by (intro preserves_rules preserves_modify) simp_all

lemma periodicPeer_keeps [preserves_rules]: "preserves keeps (periodicPeer nd e p)"
  unfolding periodicPeer_def [abs_def] Let_def
  by (intro preserves_result result_rules result_andThen keeps_modify preserves_rules preserves_modify) simp_all

lemma requestRefresh_keeps [preserves_rules]: "preserves keeps requestRefresh"
  unfolding requestRefresh_def [abs_def] by (intro preserves_rules preserves_update_heap) simp

lemma resendInfoRequests_keeps [preserves_rules]: "preserves keeps (resendInfoRequests nd e)"
proof -
  have "preserves keeps (\<lambda>st :: 'a ng_state_scheme. if isActive (now e) (deref st p)
      then sendInfoRequestToBase nd (peer_id (deref st p)) st else nop st)" for p
    by (rule preservesI) (auto dest: preservesD [OF sendInfo_keeps(1)] simp: nop_def split: if_splits)
  then have "preserves keeps (forEach xs (\<lambda>p st :: 'a ng_state_scheme. if isActive (now e) (deref st p)
      then sendInfoRequestToBase nd (peer_id (deref st p)) st else nop st))" for xs
    by (intro preserves_forEach)
  then show ?thesis unfolding resendInfoRequests_def [abs_def] by (rule preserves_by_state)
qed

lemma connectToBase_keeps [preserves_rules]: "preserves keeps (connectToBase nd e)"
  unfolding connectToBase_def [abs_def] Let_def
  by (intro preserves_result result_rules result_andThen preserves_rules preserves_case_option preserves_update_heap) simp_all

lemma sendNatInitToBase_keeps [preserves_rules]: "preserves keeps (sendNatInitToBase nd e)"
proof -
  have transient: "preserves keeps (\<lambda>st :: 'a ng_state_scheme. if baseTransientPort st \<noteq> 0
     then andThen (sendToBaseUdp nd ((PeerToBaseMessage_of PTB_NAT_INIT_TRANSIENT)
            \<lparr>ptb_deviceId := deviceId (myIdentity nd), ptb_counter := natInitCounter st\<rparr>))
          (update advanceTransientPort) st
     else nop st)"
    by (intro preserves_result result_rules result_andThen preserves_rules preserves_update_heap)
      (simp_all add: advanceTransientPort_def Let_def)
  show ?thesis
    unfolding sendNatInitToBase_def [abs_def] Let_def
    by (rule preserves_result, intro result_rules result_andThen transient preserves_rules preserves_update_heap) simp_all
qed

lemma refresh_keeps [preserves_rules]: "preserves keeps (refresh nd e)"
  unfolding refresh_def
  by (intro preserves_rules preserves_update_heap preserves_by_state [where g = "\<lambda>st. forEach (iteratePeers st) (periodicPeer nd e)"]) simp

lemma multicast_keeps [preserves_rules]: "preserves keeps (multicastPacketReceived nd e a d)"
proof -
  have "preserves keeps (\<lambda>st :: 'a ng_state_scheme. let srcAddress = InetAddress (ip_of a) port in
        if linkLocalAddress (deref st p) \<noteq> srcAddress
        then andThen (update (modify p (linkLocalAddress_update (\<lambda>_. srcAddress)))) (attemptReestablish nd e p) st
        else nop st)" for p port
    unfolding Let_def by (intro preserves_rules preserves_modify) simp_all
  then show ?thesis
    unfolding multicastPacketReceived_def [abs_def]
    by (cases "fromBinaryString (chunk 2 DEVICEID_LENGTH d)"; cases "unpack (chunk 0 2 d) :: u16 option")
      (simp_all only: prod.case option.case, (intro preserves_rules)+)
qed

lemma baseMessages_keeps [preserves_rules]:
  "preserves keeps (baseMessageReceivedUdp nd e msg)" "preserves keeps (baseMessageReceivedTcp nd e msg)"
proof -
  show "preserves keeps (baseMessageReceivedUdp nd e msg)"
    unfolding baseMessageReceivedUdp_def
    by (cases "btp_kind msg"; simp only: BaseToPeerMessageKind.case; intro preserves_rules preserves_update_heap; simp)
  have "preserves keeps (stateReceived msg)"
    by (rule preserves_same_heap) (auto simp: stateReceived_def Let_def nop_def split: list.splits if_splits prod.splits)
  then show "preserves keeps (baseMessageReceivedTcp nd e msg)"
    unfolding baseMessageReceivedTcp_def
    by (cases "btp_kind msg"; simp only: BaseToPeerMessageKind.case; intro preserves_rules preserves_update_heap; simp)
qed

lemma tcp_keeps [preserves_rules]:
  "preserves keeps (baseTcpData nd e d)" "preserves keeps (baseTcpError e conn)"
  unfolding baseTcpData_def baseTcpError_def [abs_def]
  by (cases "parseBaseToPeerMessage d"; simp only: option.case; intro preserves_rules preserves_update_heap; simp)
    (intro preserves_rules preserves_update_heap, simp)

lemma periodic_keeps [preserves_rules]: "preserves keeps (periodic nd e)"
proof (rule preservesI)
  fix st :: "'a ng_state_scheme" and out st' assume h: "periodic nd e st = Some (out, st')"
  obtain ch st1 where r: "reloadLocalAddresses e (st\<lparr>lastPeriodic := now e\<rparr>) = (ch, st1)"
    by (cases "reloadLocalAddresses e (st\<lparr>lastPeriodic := now e\<rparr>)")
  then have st1: "keeps st st1"
    by (auto simp: reloadLocalAddresses_def Let_def split: if_splits)
  let ?rest = "andThen
          (if ch
           then andThen requestRefresh
             (\<lambda>st. if now e - lastBaseTcpAction st > NAT_INIT_TIMEOUT then connectToBase nd e st else nop st)
           else nop)
          (andThen (\<lambda>st. if now e - lastRefresh st > REFRESH_TIMEOUT then requestRefresh st else nop st)
            (andThen
              (\<lambda>st. if \<not> natInitConfirmed st \<and> now e - lastNatInitSent st > NAT_INIT_TIMEOUT
                 then sendNatInitToBase nd e st else nop st)
              (\<lambda>st. if now e - lastBaseTcpAction st >
                    (if baseConnection st \<noteq> None then TCP_PONG_TIMEOUT else NAT_INIT_TIMEOUT)
                 then connectToBase nd e st else nop st)))"
  have "preserves keeps ?rest" by (intro preserves_rules)
  moreover have "?rest st1 = Some (out, st') \<or> st' = st"
    using h by (auto simp: periodic_def r nop_def split: if_splits)
  ultimately show "keeps st st'"
    using st1 by (auto dest: preservesD keeps_trans)
qed

lemma helloReceived_keeps [preserves_rules]: "preserves keeps (helloReceived nd e a msg)"
proof -
  have link: "preserves keeps (\<lambda>st :: 'a ng_state_scheme.
      if isLinkLocal (ip_of a) \<and> \<not> InetAddress_bool (linkLocalAddress (deref st p))
      then andThen (update (modify p (linkLocalAddress_update (\<lambda>_. a))))
        (if isActive (now e) (deref st p) then attemptReestablish nd e p else nop) st
      else nop st)" for p
    by (rule preserves_result, intro result_rules result_andThen preserves_rules preserves_modify) simp_all
  show ?thesis
    unfolding helloReceived_def [abs_def] by (intro preserves_rules link)
qed

lemma peerMessage_keeps:
  assumes "ptp_kind msg \<noteq> PTP_HELLO_REPLY"
  shows "preserves keeps (peerMessageReceived nd e a msg)"
proof -
  have "preserves keeps (peerDataPacketReceived a d)" for d
    unfolding peerDataPacketReceived_def [abs_def]
    by (rule preserves_same_heap) (auto simp: nop_def emit_def split: option.splits)
  with assms show ?thesis
    by (cases "ptp_kind msg"; simp add: peerMessageReceived_def preserves_basic helloReceived_keeps)
qed

lemma parse_kind_byte:
  "parsePeerToPeerMessage c (d0 # r) = Some m \<Longrightarrow> d0 \<noteq> 1 \<Longrightarrow> ptp_kind m \<noteq> PTP_HELLO_REPLY"
  using parsePeerToPeerMessage_authentic [of c "d0 # r" m] by auto

lemma udp_keeps: "preserves keeps (udpPacketReceived nd e a d)"
proof (rule preservesI)
  fix st :: "'a ng_state_scheme" and out st' assume h: "udpPacketReceived nd e a d st = Some (out, st')"
  show "keeps st st'"
  proof (cases "a = baseUdpAddress st")
    case True
    then obtain msg where "baseMessageReceivedUdp nd e msg st = Some (out, st')"
      using h by (auto simp: udpPacketReceived_def split: option.splits)
    then show ?thesis by (rule preservesD [OF baseMessages_keeps(1)])
  next
    case False
    then obtain d0 r where d: "d = d0 # r" using h udp_empty_fails by (cases d) fastforce+
    show ?thesis
    proof (cases "d0 = 0 \<or> d0 = 1")
      case True
      then have "heap st' = heap st"
        using h False d by (auto simp: udpPacketReceived_def sv_index_def update_def nop_def split: if_splits)
      then show ?thesis by simp
    next
      case no: False
      then obtain msg where m: "parsePeerToPeerMessage (node_crypto nd) (d0 # r) = Some msg"
        and r: "peerMessageReceived nd e a msg st = Some (out, st')"
        using h False d by (auto simp: udpPacketReceived_def sv_index_def split: option.splits)
      show ?thesis using no by (intro preservesD [OF peerMessage_keeps r] parse_kind_byte [OF m]) simp
    qed
  qed
qed

end

text \<open>A relation that tolerates every change to a peer but its address is kept by hello replies, too.\<close>

locale identity_relation = heap_relation +
  assumes R_any: "(\<And>x. peer_id (f x) = peer_id x) \<Longrightarrow> R h (h[p := f (h ! p)])"
begin

lemma helloReply_keeps: "preserves keeps (helloReplyReceived nd a msg)"
  unfolding helloReplyReceived_def [abs_def]
  by (intro preserves_rules preserves_result result_rules) (simp add: modify_def, rule R_any, simp)

end

end
