(* ===== verification/NgSocketProps.thy ===== *)
theory NgSocketProps
  imports Relations
begin

text \<open>
  The socket's entry points as events, and what holds of handling them in a state that satisfies
  the invariant: which events open a path to a peer, and where data goes.
\<close>

section \<open>Entry points\<close>

datatype ng_event =
    Upper HusarnetAddress bytes
  | Udp inetaddress bytes
  | Multicast inetaddress bytes
  | Worker
  | Periodic
  | TcpData bytes
  | TcpError nat

fun ng_handle :: "node \<Rightarrow> env \<Rightarrow> ng_event \<Rightarrow> 'a ng_state_scheme action" where
  "ng_handle nd e (Upper i d) = onUpperLayerData_ng nd e i d"
| "ng_handle nd e (Udp a d) = udpPacketReceived nd e a d"
| "ng_handle nd e (Multicast a d) = multicastPacketReceived nd e a d"
| "ng_handle nd e Worker = workerStep nd e"
| "ng_handle nd e Periodic = periodic nd e"
| "ng_handle nd e (TcpData d) = baseTcpData nd e d"
| "ng_handle nd e (TcpError c) = baseTcpError e c"

text \<open>Addresses from the layer above have 16 bytes, as \<open>IpAddress\<close> has in the program.\<close>

fun event_ok :: "ng_event \<Rightarrow> bool" where
  "event_ok (Upper i d) = ip_wf i"
| "event_ok x = True"

lemma ng_handle_ok:
  assumes "ng_env nd e" and "event_ok x" and "ng_inv nd st"
    and "\<And>a d. x = Udp a d \<Longrightarrow> d \<noteq> [] \<or> a = baseUdpAddress st"
  shows "succeeds (ng_inv nd) (ng_handle nd e x st)"
  using assms
  by (cases x) (auto intro!: succeeds_udpPacketReceived okD [OF ok_onUpperLayerData_ng] okD [OF ok_multicastPacketReceived]
      okD [OF ok_workerStep] okD [OF ok_periodic] okD [OF ok_baseTcpData] okD [OF ok_baseTcpError])

lemma NgSocket_inv:
  assumes "NgSocket nd q listen (SecurityLayer nd k) = Some st"
  shows "ng_inv nd st"
proof -
  have "sec_inv nd (SecurityLayer nd k)" by (intro sec_reachable_inv sec_reachable.start)
  then show ?thesis
    using assms
    by (auto simp: NgSocket_def SecurityLayer_def PeerContainer_def sec_state.defs ng_inv_def sec_inv_def
        pc_inv_def sources_ok_def queue_wf_def split: if_splits)
qed

section \<open>Events and relations between heaps\<close>

context heap_relation
begin

lemma handler_keeps: "x \<noteq> Worker \<Longrightarrow> preserves keeps (ng_handle nd e x)"
  unfolding onUpperLayerData_ng_def [abs_def]
  by (cases x) (auto simp: onUpperLayerData_ng_def [abs_def] udp_keeps multicast_keeps periodic_keeps tcp_keeps intro!: preserves_rules)

end

text \<open>A relation that tolerates hello replies is kept by every event.\<close>

context identity_relation
begin

lemma ng_handle_keeps: "preserves keeps (ng_handle nd e x)"
proof (cases "x = Worker")
  case True
  have m: "preserves keeps (peerMessageReceived nd e a msg)" for a msg
    using peerMessage_keeps [of msg e a] helloReply_keeps
    by (cases "ptp_kind msg = PTP_HELLO_REPLY") (simp_all add: peerMessageReceived_def)
  have "keeps st st'" if w: "workerStep nd e st = Some (out, st')" for st :: "'a ng_state_scheme" and out st'
  proof (cases "workerQueue st")
    case Nil
    then show ?thesis using w by (simp add: workerStep_def nop_def)
  next
    case (Cons j q)
    then consider "refresh nd e (st\<lparr>workerQueue := q\<rparr>) = Some (out, st')"
      | a msg where "peerMessageReceived nd e a msg (st\<lparr>workerQueue := q\<rparr>) = Some (out, st')"
      using w by (auto simp: workerStep_def Let_def split: job.splits option.splits)
    then show ?thesis using preservesD [OF refresh_keeps, of e] preservesD [OF m] by cases fastforce+
  qed
  then show ?thesis by (simp add: True preserves_def)
qed (rule handler_keeps)

end

section \<open>Only hello replies open a path\<close>

text \<open>No peer becomes connected and no target address changes; peers stay where they are.\<close>

definition same_paths :: "peer list \<Rightarrow> peer list \<Rightarrow> bool" where
  "same_paths h h' \<longleftrightarrow>
     length h \<le> length h' \<and>
     (\<forall>p < length h. targetAddress (h' ! p) = targetAddress (h ! p) \<and> (connected (h' ! p) \<longrightarrow> connected (h ! p)))"

lemma nth_update_fun: "q < length h \<Longrightarrow> h[p := f (h ! p)] ! q = (if q = p then f (h ! q) else h ! q)"
  by (cases "q = p") simp_all

interpretation path: heap_relation nd same_paths for nd
proof
  fix h h' h'' assume "same_paths h h'" "same_paths h' h''"
  then show "same_paths h h''" unfolding same_paths_def by (auto dest: less_le_trans)
qed (auto simp: same_paths_def nth_append nth_update_fun split: if_splits)

abbreviation no_new_path :: "'a ng_state_scheme \<Rightarrow> 'a ng_state_scheme \<Rightarrow> bool" where
  "no_new_path st st' \<equiv> same_paths (heap st) (heap st')"

definition new_path :: "'a ng_state_scheme \<Rightarrow> 'a ng_state_scheme \<Rightarrow> nat \<Rightarrow> bool" where
  "new_path st st' p \<longleftrightarrow>
     connected (deref st' p) \<and> \<not> connected (deref st p) \<or> targetAddress (deref st' p) \<noteq> targetAddress (deref st p)"

lemma no_new_pathD: "no_new_path st st' \<Longrightarrow> p < length (heap st) \<Longrightarrow> \<not> new_path st st' p"
  by (auto simp: same_paths_def new_path_def)

lemma helloReply_new_path:
  assumes inv: "ng_inv nd st" and h: "helloReplyReceived nd a msg st = Some (out, st')"
    and p: "p < length (heap st)" and new: "new_path st st' p"
  shows "ip_data (ptp_yourId msg) = ip_data (deviceId (myIdentity nd)) \<and> peer_id (deref st p) = ptp_myId msg \<and>
    reestablishing (deref st p) \<and> helloCookie (deref st p) = ptp_helloCookie msg \<and> targetAddress (deref st' p) = a"
proof -
  obtain r st1 where g: "getPeer nd (ptp_myId msg) st = (r, st1)" by (cases "getPeer nd (ptp_myId msg) st")
  have h1: "heap st1 = heap st" using getPeer_heap [OF g] by simp
  have "st' \<noteq> st \<and> heap st' \<noteq> heap st" using new by (auto simp: new_path_def)
  then obtain q where q: "r = Some q" "reestablishing (deref st q)" "helloCookie (deref st q) = ptp_helloCookie msg"
    and you: "ip_data (ptp_yourId msg) = ip_data (deviceId (myIdentity nd))"
    and st': "st' = modify q (\<lambda>peer. peer\<lparr>targetAddress := a, connected := True,
                 failedEstablishments := 0, reestablishing := False\<rparr>) st1"
    using h h1 g by (auto simp: helloReplyReceived_def nop_def update_def split: if_splits option.splits)
  have "q = p" using new p h1 by (auto simp: st' new_path_def deref_modify split: if_splits)
  then show ?thesis
    using q you p h1 getPeer_ng_inv [OF inv g] by (simp add: st' deref_modify)
qed

lemma worker_new_path:
  assumes h: "workerStep nd e st = Some (out, st')" and new: "\<not> no_new_path st st'"
  obtains a d q msg where "workerQueue st = Job_peerMessage a d # q"
    "parsePeerToPeerMessage (node_crypto nd) d = Some msg" "ptp_kind msg = PTP_HELLO_REPLY"
    "helloReplyReceived nd a msg (st\<lparr>workerQueue := q\<rparr>) = Some (out, st')"
proof -
  obtain j q where w: "workerQueue st = j # q"
    using h new by (cases "workerQueue st") (auto simp: workerStep_def nop_def)
  have new': "\<not> no_new_path (st\<lparr>workerQueue := q\<rparr>) st'" using new by simp
  show ?thesis
  proof (cases j)
    case Job_refresh
    then have "refresh nd e (st\<lparr>workerQueue := q\<rparr>) = Some (out, st')" using h w by (simp add: workerStep_def)
    then show ?thesis using preservesD [OF path.refresh_keeps] new' by blast
  next
    case (Job_peerMessage a d)
    then obtain msg where m: "parsePeerToPeerMessage (node_crypto nd) d = Some msg"
      and r: "peerMessageReceived nd e a msg (st\<lparr>workerQueue := q\<rparr>) = Some (out, st')"
      using h w by (auto simp: workerStep_def split: option.splits)
    have k: "ptp_kind msg = PTP_HELLO_REPLY" using preservesD [OF path.peerMessage_keeps r] new' by blast
    show ?thesis using r k that [OF w [unfolded Job_peerMessage] m k] by (simp add: peerMessageReceived_def)
  qed
qed

lemma helloReply_out: "helloReplyReceived nd a msg st = Some (out, st') \<Longrightarrow> out = []"
  by (auto simp: helloReplyReceived_def nop_def update_def split: if_splits prod.splits option.splits)

text \<open>The only event whose handler opens a path is a turn of the worker on a hello reply.\<close>

lemma handler_new_path:
  assumes h: "ng_handle nd e x st = Some (out, st')" and new: "\<not> no_new_path st st'"
  shows "x = Worker"
proof (rule ccontr)
  assume "x \<noteq> Worker"
  then have "preserves no_new_path (ng_handle nd e x)" by (rule path.handler_keeps)
  then have "no_new_path st st'" using h by (rule preservesD)
  with new show False by contradiction
qed

section \<open>Where data goes\<close>

definition is_hello :: "net \<Rightarrow> bool" where
  "is_hello x \<longleftrightarrow> (\<exists>a y. x = UdpSend a (PTP_value PTP_HELLO # y))"

text \<open>What the base server is asked to relay: nothing without a connection or before its hello.\<close>

definition relay :: "node \<Rightarrow> env \<Rightarrow> 'a ng_state_scheme \<Rightarrow> HusarnetAddress \<Rightarrow> bytes \<Rightarrow> net list" where
  "relay nd e st i d =
     (case baseConnection st of
        None \<Rightarrow> []
      | Some conn \<Rightarrow>
          if cookie st = [] then []
          else
            let x = PTB_value PTB_DATA # ip_data (deviceId (myIdentity nd)) @ ip_data i @ d
            in [if isBaseUdp e st then UdpSend (baseUdpAddress st) x else TcpWrite conn x])"

lemma helloTo_out:
  assumes "helloTo nd a p st = Some (out, st')"
  shows "st' = st \<and> (\<forall>x \<in> set out. is_hello x)"
  using assms
  by (auto simp: helloTo_def Let_def nop_def andThen_def sendToPeer_def emit_def is_hello_def
      serializePeerToPeerMessage_def PeerToPeerMessage_of_def split: if_splits option.splits)

lemma forEach_out:
  assumes "\<And>x st out st'. f x st = Some (out, st') \<Longrightarrow> st' = st \<and> (\<forall>y \<in> set out. P y)"
  shows "forEach xs f st = Some (out, st') \<Longrightarrow> st' = st \<and> (\<forall>y \<in> set out. P y)"
proof (induction xs arbitrary: out)
  case (Cons x xs)
  then show ?case using assms by (fastforce simp: andThen_def split: option.splits)
qed (simp add: nop_def)

lemma attemptReestablish_out:
  assumes "attemptReestablish nd e p st = Some (out, st')"
  shows "(\<exists>f k. st' = modify p f (st\<lparr>draws := k\<rparr>) \<and> (\<forall>x. peer_id (f x) = peer_id x)) \<and> (\<forall>x \<in> set out. is_hello x)"
proof -
  obtain ck k where g: "generateRandomString (uni_az (node_crypto nd)) (draws st) 16 = (ck, k)"
    by (cases "generateRandomString (uni_az (node_crypto nd)) (draws st) 16")
  let ?f = "\<lambda>peer. peer\<lparr>failedEstablishments := failedEstablishments peer + 1,
                 lastReestablish := now e, reestablishing := True, helloCookie := ck\<rparr>"
  have "st' = modify p ?f (st\<lparr>draws := k\<rparr>) \<and> (\<forall>x \<in> set out. is_hello x)"
    using assms unfolding attemptReestablish_def g Let_def prod.case
    by (rule forEach_out [rotated]) (rule helloTo_out)
  then show ?thesis by (intro conjI exI [of _ ?f] exI [of _ k]) simp_all
qed

lemma relay_send:
  assumes "ng_env nd e" and "cookie_ok st"
  shows "(let msg = (PeerToBaseMessage_of PTB_DATA)\<lparr>ptb_target := i, ptb_data := d\<rparr> in
      if isBaseUdp e st then sendToBaseUdp nd msg st else sendToBaseTcp nd msg st) = Some (relay nd e st i d, st)"
  using assms(2) ng_env_sizes [OF assms(1)]
  by (auto simp: relay_def cookie_ok_def sendToBaseUdp_def sendToBaseTcp_def serializeToBase_def
      serializePeerToBaseMessage_def PeerToBaseMessage_of_def Let_def nop_def emit_def split: option.split)

lemma relay_frame:
  "relay nd e (modify p f (st\<lparr>draws := k\<rparr>)) i d = relay nd e st i d"
  by (simp add: relay_def modify_def isBaseUdp_def Let_def split: option.split)

lemma sendInfo_out:
  assumes "ng_env nd e" and "cookie_ok st"
  shows "\<exists>out. sendInfoRequestToBase nd i st = Some (out, st) \<and> (\<forall>x \<in> set out. \<exists>c y. x = TcpWrite c y)"
proof -
  obtain out where o: "sendInfoRequestToBase nd i st = Some (out, st)"
    using sendToBaseTcp_const [OF assms] unfolding sendInfoRequestToBase_def by blast
  then have "\<forall>x \<in> set out. \<exists>c y. x = TcpWrite c y"
    by (auto simp: sendInfoRequestToBase_def sendToBaseTcp_def nop_def emit_def split: option.splits if_splits)
  with o show ?thesis by blast
qed

lemma attemptReestablish_returns:
  assumes "ng_env nd e" and "ng_inv nd st" and "p < length (heap st)"
  obtains out st' where "attemptReestablish nd e p st = Some (out, st')" "ng_inv nd st'"
proof -
  have "succeeds (ng_inv_at nd (length (heap st))) (attemptReestablish nd e p st)"
    using assms by (intro okD [OF ok_attemptReestablish] ng_at_pos)
  then show ?thesis using that by (auto simp: succeeds_def ng_inv_at_def)
qed


lemma sendData_routes:
  assumes e: "ng_env nd e" and inv: "ng_inv nd st" and p: "p < length (heap st)"
  shows "\<exists>hellos infos st'. sendDataToPeer nd e p d st = Some
      ((if connected (deref st p) then [UdpSend (targetAddress (deref st p)) (PTP_value PTP_DATA # d)]
        else hellos @ relay nd e st (peer_id (deref st p)) d) @ infos, st') \<and>
     list_all is_hello hellos \<and> (\<forall>x \<in> set infos. \<exists>c y. x = TcpWrite c y)"
proof -
  let ?i = "peer_id (deref st p)"
  let ?tail = "andThen (\<lambda>st. if \<not> isActive (now e) (deref st p) then sendInfoRequestToBase nd ?i st else nop st)
      (update (modify p (lastPacket_update (\<lambda>_. now e)))) :: 'a ng_state_scheme action"
  have tail: "\<exists>infos s'. ?tail s = Some (infos, s') \<and> (\<forall>x \<in> set infos. \<exists>c y. x = TcpWrite c y)" if "cookie_ok s" for s
    using sendInfo_out [OF e that, of ?i] by (auto simp: andThen_def update_def nop_def)
  show ?thesis
  proof (cases "connected (deref st p)")
    case True
    obtain infos s' where t: "?tail st = Some (infos, s')" "\<forall>x \<in> set infos. \<exists>c y. x = TcpWrite c y"
      using tail ng_inv_cookie(1) [OF inv] by blast
    have "sendDataToPeer nd e p d st = Some ([UdpSend (targetAddress (deref st p)) (PTP_value PTP_DATA # d)] @ infos, s')"
      using True t(1) unfolding sendDataToPeer_def Let_def andThen_def [of "if _ then _ else _"]
      by (simp add: sendToPeer_def serializePeerToPeerMessage_def PeerToPeerMessage_of_def emit_def)
    then show ?thesis using True t(2) by (intro exI [of _ "[]"] exI [of _ infos] exI [of _ s']) simp
  next
    case False
    let ?c = "\<not> reestablishing (deref st p) \<or>
       now e - lastReestablish (deref st p) > REESTABLISH_TIMEOUT \<and> failedEstablishments (deref st p) \<le> MAX_FAILED_ESTABLISHMENTS"
    obtain hellos s1 where s1: "(if ?c then attemptReestablish nd e p else nop) st = Some (hellos, s1)"
        "list_all is_hello hellos" "cookie_ok s1" "relay nd e s1 ?i d = relay nd e st ?i d"
    proof (cases ?c)
      case True
      obtain out st' where a: "attemptReestablish nd e p st = Some (out, st')" "ng_inv nd st'"
        by (rule attemptReestablish_returns [OF e inv p])
      show ?thesis
        by (rule that [of out st']) (use True a attemptReestablish_out [OF a(1)] ng_inv_cookie(1) [OF a(2)] in
            \<open>auto simp: relay_frame list_all_iff\<close>)
    next
      case False
      show ?thesis
        by (rule that [of "[]" st]) (use False ng_inv_cookie(1) [OF inv] in \<open>auto simp: nop_def\<close>)
    qed
    obtain infos s' where t: "?tail s1 = Some (infos, s')" "\<forall>x \<in> set infos. \<exists>c y. x = TcpWrite c y"
      using tail s1(3) by blast
    have "sendDataToPeer nd e p d st = Some ((hellos @ relay nd e st ?i d) @ infos, s')"
      using False t(1) s1(1) relay_send [OF e s1(3), where i = ?i and d = d] s1(4)
      unfolding sendDataToPeer_def Let_def andThen_def [of "if _ then _ else _"]
      by (simp only: if_False option.case prod.case)
    then show ?thesis using False s1(2) t(2) by (intro exI [of _ hellos] exI [of _ infos] exI [of _ s']) simp
  qed
qed

lemma direct_data_delivered:
  assumes "findPeerBySourceAddress a st = Some q" and "a \<noteq> baseUdpAddress st"
  shows "udpPacketReceived nd e a (PTP_value PTP_DATA # d) st = Some ([Deliver (peer_id (deref st q)) d], st)"
  using assms
  by (simp add: udpPacketReceived_def sv_index_def parsePeerToPeerMessage_def sv_substr_def PeerToPeerMessage_of_def
      peerMessageReceived_def peerDataPacketReceived_def emit_def)


section \<open>A hello exchange\<close>

lemma reply_connects:
  assumes inv: "ng_inv nd st" and g: "getPeer nd i st = (Some p, st1)"
    and "reestablishing (deref st p)" and "helloCookie (deref st p) = ck"
  shows "\<exists>st'. peerMessageReceived nd e a ((PeerToPeerMessage_of PTP_HELLO_REPLY)
      \<lparr>ptp_myId := i, ptp_yourId := deviceId (myIdentity nd), ptp_helloCookie := ck\<rparr>) st = Some ([], st') \<and>
    connected (deref st' p) \<and> targetAddress (deref st' p) = a \<and> \<not> reestablishing (deref st' p)"
proof -
  have "heap st1 = heap st" "p < length (heap st1)" using getPeer_heap [OF g] getPeer_ng_inv [OF inv g] by auto
  then show ?thesis
    using assms
    by (simp add: peerMessageReceived_def helloReplyReceived_def PeerToPeerMessage_of_def update_def deref_modify)
qed

lemma findPeer_added:
  assumes "ng_inv_at nd n st" and "p < n"
  shows "findPeerBySourceAddress a (addSourceAddress e p a st) = Some p"
proof (cases "a \<in> set (sourceAddresses (deref st p))")
  case True
  then show ?thesis
    using assms by (simp add: addSourceAddress_def findPeerBySourceAddress_def sources_ok_table ng_inv_at_def ng_inv_def)
next
  case False
  then show ?thesis
    by (simp add: addSourceAddress_insertSource insertSource_def Let_def findPeerBySourceAddress_def update_conv')
qed

lemma addSourceAddress_peer_id:
  assumes "q < length (heap st)"
  shows "peer_id (deref (addSourceAddress e p a st) q) = peer_id (deref st q)"
  using assms
  by (auto simp: addSourceAddress_def removeSourceAddress_def Let_def deref_modify split: option.split)

lemma link_effect:
  assumes "q < length (heap st)"
    and "(if c then andThen (update (modify q (linkLocalAddress_update (\<lambda>_. a)))) (if c' then attemptReestablish nd e q else nop) st
          else nop st) = Some (out, st')"
  shows "peerSourceAddresses st' = peerSourceAddresses st \<and> peer_id (deref st' q) = peer_id (deref st q)"
  using assms
  by (auto simp: andThen_def update_def nop_def deref_modify dest!: attemptReestablish_out split: if_splits option.splits)

lemma hello_answered:
  assumes e: "ng_env nd e" and inv: "ng_inv nd st" and i: "ip_wf i" and ck: "length ck = 16"
    and g: "getOrCreatePeer nd i st = (Some q, st1)"
    and r: "serializePeerToPeerMessage nd ((PeerToPeerMessage_of PTP_HELLO_REPLY)\<lparr>ptp_yourId := i, ptp_helloCookie := ck\<rparr>) = Some reply"
  shows "\<exists>out st'. peerMessageReceived nd e a ((PeerToPeerMessage_of PTP_HELLO)
      \<lparr>ptp_myId := i, ptp_yourId := deviceId (myIdentity nd), ptp_helloCookie := ck\<rparr>) st = Some (out @ [UdpSend a reply], st') \<and>
    findPeerBySourceAddress a st' = Some q \<and> peer_id (deref st' q) = i"
proof -
  note st1 = getOrCreatePeer_ng_inv [OF inv g i]
  have q: "q < length (heap st1)" and id1: "peer_id (deref st1 q) = i" and at1: "ng_inv_at nd (length (heap st1)) st1"
    using st1 by (auto intro: ng_at_pos)
  let ?n = "length (heap st1)" and ?st2 = "addSourceAddress e q a st1"
  have at2: "ng_inv_at nd ?n ?st2" by (rule addSourceAddress_at [OF at1 q])
  have f2: "findPeerBySourceAddress a ?st2 = Some q" by (rule findPeer_added [OF at1 q])
  let ?link = "(if isLinkLocal (ip_of a) \<and> \<not> InetAddress_bool (linkLocalAddress (deref ?st2 q))
      then andThen (update (modify q (linkLocalAddress_update (\<lambda>_. a))))
        (if isActive (now e) (deref ?st2 q) then attemptReestablish nd e q else nop) ?st2
      else nop ?st2)"
  have "succeeds (ng_inv_at nd ?n) ?link"
    using at2 q by (intro succeeds_if succeeds_nop succeeds_andThen ok_rules ok_modify ok_attemptReestablish [OF e]) simp_all
  then obtain out st3 where l: "?link = Some (out, st3)" and at3: "ng_inv_at nd ?n st3" by (auto simp: succeeds_def)
  have q2: "q < length (heap ?st2)" using at2 q by (simp add: ng_inv_at_def)
  note t3 = link_effect [OF q2 l]
  have "peerMessageReceived nd e a ((PeerToPeerMessage_of PTP_HELLO)
      \<lparr>ptp_myId := i, ptp_yourId := deviceId (myIdentity nd), ptp_helloCookie := ck\<rparr>) st = Some (out @ [UdpSend a reply], st3)"
    using g l r
    by (simp add: peerMessageReceived_def helloReceived_def PeerToPeerMessage_of_def andThen_def [of "update _"]
        andThen_def [of "\<lambda>st. if isLinkLocal (ip_of a) \<and> _ st then _ st else _ st"] update_def sendToPeer_def emit_def)
  moreover have "findPeerBySourceAddress a st3 = Some q" using f2 t3 by (simp add: findPeerBySourceAddress_def)
  moreover have "peer_id (deref st3 q) = i" using t3 id1 q by (simp add: addSourceAddress_peer_id)
  ultimately show ?thesis by blast
qed

lemma sendToBaseUdp_transient: "sendToBaseUdp nd msg st = Some (out, st') \<Longrightarrow> ptb_kind msg = PTB_NAT_INIT_TRANSIENT \<Longrightarrow> out = []"
  unfolding sendToBaseUdp_def forEach_nop by (auto simp: nop_def split: if_splits option.splits)

lemma sendToBaseUdp_natInit:
  assumes "sendToBaseUdp nd msg st = Some (out, st')" and "ptb_kind msg = PTB_NAT_INIT"
  shows "\<forall>x \<in> set out. \<exists>a \<in> set (allBaseUdpAddresses st). \<exists>y. x = UdpSend a (PTB_value PTB_NAT_INIT # y)"
  using assms unfolding sendToBaseUdp_def forEach_emit
  by (auto simp: nop_def serializeToBase_def serializePeerToBaseMessage_def Let_def split: if_splits option.splits)

text \<open>C18: The search for a UDP port ends: it yields the first port from the start on that the
  system grants, below 7000, and gives up only when every port is refused.\<close>

theorem bindPort_first_free:
  "bindPort listen start =
     (if \<exists>q. start \<le> q \<and> q < 7000 \<and> listen q then Some (LEAST q. start \<le> q \<and> listen q) else None)"
proof (induction listen start rule: bindPort.induct)
  case (1 listen port)
  show ?case
  proof (cases "port < 7000 \<and> \<not> listen port")
    case True
    have "port \<le> q \<and> listen q \<longleftrightarrow> port + 1 \<le> q \<and> listen q" for q using True by (cases "q = port") auto
    then have "(\<exists>q. port \<le> q \<and> q < 7000 \<and> listen q) = (\<exists>q. port + 1 \<le> q \<and> q < 7000 \<and> listen q)"
      "(LEAST q. port \<le> q \<and> listen q) = (LEAST q. port + 1 \<le> q \<and> listen q)" by metis+
    moreover have "bindPort listen port = bindPort listen (port + 1)" using True by (subst bindPort.simps) simp
    ultimately show ?thesis using 1 True by auto
  next
    case False
    have "(LEAST q. port \<le> q \<and> listen q) = port" if "listen port" using that by (intro Least_equality) auto
    then show ?thesis using False by (subst bindPort.simps) (auto simp: not_less)
  qed
qed

end
