(* ===== verification/Layers.thy ===== *)
theory Layers
  imports SecurityLayer
begin

text \<open>
  \<open>layer_interfaces.h\<close>, \<open>multicast_layer.cpp\<close> and \<open>compression_layer.cpp\<close>: the layers between the
  tunnel interface and the security layer.  A layer turns data from above into frames for the
  layer below and data from below into frames for the layer above; \<open>ToLower\<close> and \<open>ToUpper\<close> are
  the calls \<open>sendToLowerLayer\<close> and \<open>sendToUpperLayer\<close>.

  The multicast layer cuts the IPv6 header off on the way down and rebuilds it on the way up.
  \<open>link\<close> is the contract of a layer used by two nodes: what one node's layer sends down, the
  other node's layer delivers, up to a normal form; links stack.
\<close>

section \<open>The multicast layer\<close>

definition onUpperLayerData_mc ::
  "HusarnetAddress \<Rightarrow> (HusarnetAddress \<Rightarrow> HusarnetAddress list) \<Rightarrow> bytes \<Rightarrow> frame list" where
  "onUpperLayerData_mc myDeviceId getMulticastDestinations packet =
     (if length packet \<le> 40 then []
      else
        let version = drop_bit 4 (packet ! 0) in
        if version \<noteq> 6 then []
        else
          let protocol = packet ! 6;
              srcAddress = IpAddress (chunk 8 16 packet);
              dstAddress = chunk 24 16 packet
          in (if dstAddress ! 0 = 0xff
              then let msgData = [0xff, 0x01] @ [protocol] @ dstAddress @ drop 40 packet
                   in map (\<lambda>dest. ToLower dest msgData) (getMulticastDestinations (IpAddress dstAddress))
              else []) @
             (if dstAddress ! 0 = 0xfc \<and> dstAddress ! 1 = 0x94
              then if srcAddress \<noteq> myDeviceId then []
                   else [ToLower (IpAddress dstAddress) ([protocol] @ drop 40 packet)]
              else []))"

definition ip6_header :: "nat \<Rightarrow> byte \<Rightarrow> bytes \<Rightarrow> bytes \<Rightarrow> bytes" where
  "ip6_header payloadSize protocol src dst =
     [0x60, 0, 0, 0, word_of_nat (payloadSize div 256), word_of_nat (payloadSize mod 256), protocol, 3] @ src @ dst"

definition onLowerLayerData_mc :: "HusarnetAddress \<Rightarrow> HusarnetAddress \<Rightarrow> bytes \<Rightarrow> frame list" where
  "onLowerLayerData_mc myDeviceId source data =
     (if length data < 2 then []
      else
        let protocol = data ! 0 in
        if protocol = 0xff \<and> data ! 1 = 0x01 then
          if length data < 20 then []
          else
            let protocol = data ! 2; mcastAddr = chunk 3 16 data in
            if mcastAddr ! 0 \<noteq> 0xff then []
            else [ToUpper IpAddress_default
              (ip6_header (length data - 19) protocol (ip_data source) mcastAddr @ drop 19 data)]
        else [ToUpper source
          (ip6_header (length data - 1) protocol (ip_data source) (ip_data myDeviceId) @ drop 1 data)])"

section \<open>The compression layer\<close>

text \<open>
  \<open>with_zstd\<close> says whether the build defines \<open>WITH_ZSTD\<close>.  With it, a peer that is not in the
  container is dereferenced all the same: the model fails there.
\<close>

definition CompressionLayer :: "bool \<Rightarrow> u64 \<Rightarrow> u64" where
  "CompressionLayer with_zstd flags = (if \<not> with_zstd then setFlag flags compression else flags)"

definition shouldProceed ::
  "bool \<Rightarrow> node \<Rightarrow> HusarnetAddress \<Rightarrow> 'a sec_state_scheme \<Rightarrow> (bool \<times> 'a sec_state_scheme) option" where
  "shouldProceed with_zstd nd i st =
     (if \<not> with_zstd then Some (False, st)
      else case getPeer nd i st of
        (None, st) \<Rightarrow> None
      | (Some p, st) \<Rightarrow> Some (checkFlag (peer_flags (deref st p)) compression, st))"

definition onUpperLayerData_comp ::
  "bool \<Rightarrow> node \<Rightarrow> HusarnetAddress \<Rightarrow> bytes \<Rightarrow> 'a sec_state_scheme \<Rightarrow> 'a sec_state_scheme handled" where
  "onUpperLayerData_comp with_zstd nd i d st =
     (case shouldProceed with_zstd nd i st of
        None \<Rightarrow> None
      | Some (proceed, st) \<Rightarrow> Some (if \<not> proceed then [ToLower i d] else [], st))"

definition onLowerLayerData_comp ::
  "bool \<Rightarrow> node \<Rightarrow> HusarnetAddress \<Rightarrow> bytes \<Rightarrow> 'a sec_state_scheme \<Rightarrow> 'a sec_state_scheme handled" where
  "onLowerLayerData_comp with_zstd nd i d st =
     (case shouldProceed with_zstd nd i st of
        None \<Rightarrow> None
      | Some (proceed, st) \<Rightarrow> Some (if \<not> proceed then [ToUpper i d] else [], st))"

section \<open>Links between the same layer of two nodes\<close>

text \<open>
  \<open>down\<close> is what the sender's layer puts on the layer below, \<open>up\<close> what the receiver's layer hands
  to the layer above, for the states the two nodes are in; \<open>norm\<close> is the form in which data arrives.
\<close>

locale link =
  fixes valid :: "'a \<Rightarrow> bool" and down :: "'a \<Rightarrow> 'f option" and up :: "'f \<Rightarrow> 'a option" and norm :: "'a \<Rightarrow> 'a"
  assumes delivers: "valid d \<Longrightarrow> \<exists>f. down d = Some f \<and> up f = Some (norm d)"
begin

lemma up_down: "valid d \<Longrightarrow> down d = Some f \<Longrightarrow> up f = Some (norm d)"
  using delivers by force

end

text \<open>A link over another one that carries its frames unchanged.\<close>

locale stacked_link = upper: link valid down up norm + lower: link valid' down' up' id
  for valid :: "'a \<Rightarrow> bool" and down :: "'a \<Rightarrow> 'f option" and up and norm
    and valid' :: "'f \<Rightarrow> bool" and down' :: "'f \<Rightarrow> 'g option" and up' +
  assumes fits: "valid d \<Longrightarrow> down d = Some f \<Longrightarrow> valid' f"
begin

lemma stacked_delivers:
  assumes "valid d"
  shows "\<exists>g. Option.bind (down d) down' = Some g \<and> Option.bind (up' g) up = Some (norm d)"
proof -
  obtain f where f: "down d = Some f" "up f = Some (norm d)" using upper.delivers [OF assms] by blast
  then obtain g where "down' f = Some g" "up' g = Some f" using lower.delivers [OF fits [OF assms]] by auto
  then show ?thesis using f by simp
qed

end

sublocale stacked_link \<subseteq> link valid "\<lambda>d. Option.bind (down d) down'" "\<lambda>g. Option.bind (up' g) up" norm
  by unfold_locales (rule stacked_delivers)

section \<open>The multicast layer as a link\<close>

text \<open>The unicast packets a node may send to another one.\<close>

definition unicast :: "HusarnetAddress \<Rightarrow> HusarnetAddress \<Rightarrow> bytes \<Rightarrow> bool" where
  "unicast a b packet \<longleftrightarrow>
     40 < length packet \<and> drop_bit 4 (packet ! 0) = 6 \<and> chunk 8 16 packet = ip_data a \<and>
     chunk 24 16 packet = ip_data b \<and> ip_data b ! 0 = 0xfc \<and> ip_data b ! 1 = 0x94 \<and>
     \<not> (packet ! 6 = 0xff \<and> packet ! 40 = 0x01)"

text \<open>A packet with the fields that do not cross the link replaced.\<close>

definition ip6_norm :: "bytes \<Rightarrow> bytes" where
  "ip6_norm packet =
     ip6_header (length packet - 40) (packet ! 6) (chunk 8 16 packet) (chunk 24 16 packet) @ drop 40 packet"

definition mc_down :: "HusarnetAddress \<Rightarrow> HusarnetAddress \<Rightarrow> bytes \<Rightarrow> bytes option" where
  "mc_down a b packet =
     (case onUpperLayerData_mc a (\<lambda>_. []) packet of [ToLower i d] \<Rightarrow> if i = b then Some d else None | _ \<Rightarrow> None)"

definition mc_up :: "HusarnetAddress \<Rightarrow> HusarnetAddress \<Rightarrow> bytes \<Rightarrow> bytes option" where
  "mc_up a b d = (case onLowerLayerData_mc b a d of [ToUpper i p] \<Rightarrow> if i = a then Some p else None | _ \<Rightarrow> None)"

lemma unicast_down:
  assumes "unicast a b packet"
  shows "onUpperLayerData_mc a dests packet = [ToLower b ((packet ! 6) # drop 40 packet)]"
  using assms by (cases a; cases b) (auto simp: unicast_def onUpperLayerData_mc_def Let_def)

lemma unicast_up:
  assumes "unicast a b packet"
  shows "onLowerLayerData_mc b a ((packet ! 6) # drop 40 packet) = [ToUpper a (ip6_norm packet)]"
proof -
  have "drop 40 packet = packet ! 40 # drop 41 packet"
    using assms Cons_nth_drop_Suc [of 40 packet] by (simp add: unicast_def)
  then have "\<not> (packet ! 6 = 0xff \<and> ((packet ! 6) # drop 40 packet) ! 1 = 0x01)" using assms by (simp add: unicast_def)
  then show ?thesis
    using assms unfolding onLowerLayerData_mc_def nth_Cons_0 Let_def
    by (simp only: if_not_P) (auto simp: unicast_def ip6_norm_def)
qed

interpretation mc: link "unicast a b" "mc_down a b" "mc_up a b" ip6_norm for a b
  by unfold_locales (simp add: mc_down_def mc_up_def unicast_down unicast_up)

text \<open>A normal packet arrives as it was sent.\<close>

lemma ip6_norm_id:
  assumes "40 < length packet" and "take 4 packet = [0x60, 0, 0, 0]" and "packet ! 7 = 3"
    and "packet ! 4 = word_of_nat ((length packet - 40) div 256)" and "packet ! 5 = word_of_nat ((length packet - 40) mod 256)"
  shows "ip6_norm packet = packet"
proof -
  have "packet = take 4 packet @ drop 4 packet" "drop 4 packet = chunk 4 4 packet @ drop 8 packet"
    "drop 8 packet = chunk 8 16 packet @ drop 24 packet" "drop 24 packet = chunk 24 16 packet @ drop 40 packet"
    using append_take_drop_id [of 4 "drop 4 packet"] append_take_drop_id [of 16 "drop 8 packet"]
      append_take_drop_id [of 16 "drop 24 packet"]
    by (simp_all add: chunk_def)
  moreover have "chunk 4 4 packet = [packet ! 4, packet ! 5, packet ! 6, packet ! 7]"
    using assms(1) by (simp add: chunk_def numeral_eq_Suc take_Suc_conv_app_nth)
  ultimately show ?thesis using assms unfolding ip6_norm_def ip6_header_def
    by (metis append.assoc append_Cons append_Nil)
qed


section \<open>What the layer promises\<close>

text \<open>A packet for a multicast group.\<close>

definition multicast :: "bytes \<Rightarrow> bool" where
  "multicast packet \<longleftrightarrow> 40 < length packet \<and> drop_bit 4 (packet ! 0) = 6 \<and> packet ! 24 = 0xff"

lemma chunk_24_0: "40 < length (packet :: bytes) \<Longrightarrow> chunk 24 16 packet ! 0 = packet ! 24"
  by (simp add: chunk_def)

lemma multicast_down:
  assumes "multicast packet"
  shows "onUpperLayerData_mc a dests packet =
    map (\<lambda>i. ToLower i ([0xff, 0x01, packet ! 6] @ chunk 24 16 packet @ drop 40 packet)) (dests (IpAddress (chunk 24 16 packet)))"
  using assms chunk_24_0 [of packet] by (simp add: multicast_def onUpperLayerData_mc_def Let_def)

lemma multicast_up:
  assumes "multicast packet"
  shows "onLowerLayerData_mc b a ([0xff, 0x01, packet ! 6] @ chunk 24 16 packet @ drop 40 packet) =
    [ToUpper IpAddress_default (ip6_header (length packet - 40) (packet ! 6) (ip_data a) (chunk 24 16 packet) @ drop 40 packet)]"
proof -
  have len: "40 < length packet" using assms by (simp add: multicast_def)
  let ?d = "[0xff, 0x01, packet ! 6] @ chunk 24 16 packet @ drop 40 packet"
  have c: "chunk 3 16 ?d = chunk 24 16 packet" "drop 19 ?d = drop 40 packet" "?d ! 2 = packet ! 6" "length ?d = length packet - 21"
    using len by (simp_all add: layout)
  have "\<not> length ?d < 2" "\<not> length ?d < 20" "?d ! 0 = 0xff \<and> ?d ! 1 = 0x01" "length ?d - 19 = length packet - 40"
    using len by simp_all
  then show ?thesis
    using assms chunk_24_0 [OF len] unfolding onLowerLayerData_mc_def Let_def c by (simp add: multicast_def)
qed

text \<open>The multicast layer carries packets between two nodes.  A unicast packet from its own
  node to a peer arrives with version, protocol, addresses and payload intact and the other header
  fields set anew; a multicast packet goes to each configured destination and arrives there with
  the group as destination and, whatever source the packet claimed, the sending peer as source.\<close>

theorem multicast_layer_transport:
  "(unicast a b packet \<longrightarrow> (\<exists>d. onUpperLayerData_mc a dests packet = [ToLower b d] \<and>
      onLowerLayerData_mc b a d = [ToUpper a (ip6_norm packet)])) \<and>
   (multicast packet \<longrightarrow> (\<exists>d. onUpperLayerData_mc a dests packet = map (\<lambda>i. ToLower i d) (dests (IpAddress (chunk 24 16 packet))) \<and>
      onLowerLayerData_mc b a d = [ToUpper IpAddress_default
        (ip6_header (length packet - 40) (packet ! 6) (ip_data a) (chunk 24 16 packet) @ drop 40 packet)]))"
  using unicast_down unicast_up multicast_down multicast_up by blast

theorem multicast_layer_transport_witness:
  "\<exists>d. onUpperLayerData_mc (IpAddress (replicate 16 1)) (\<lambda>_. [])
      ([0x60, 0, 0, 0, 0, 1, 17, 64] @ replicate 16 1 @ [0xfc, 0x94] @ replicate 14 2 @ [9]) =
        [ToLower (IpAddress ([0xfc, 0x94] @ replicate 14 2)) d] \<and>
    onLowerLayerData_mc (IpAddress ([0xfc, 0x94] @ replicate 14 2)) (IpAddress (replicate 16 1)) d =
      [ToUpper (IpAddress (replicate 16 1)) ([0x60, 0, 0, 0, 0, 1, 17, 3] @ replicate 16 1 @ [0xfc, 0x94] @ replicate 14 2 @ [9])]"
proof -
  let ?a = "IpAddress (replicate 16 1)" and ?b = "IpAddress ([0xfc, 0x94] @ replicate 14 2)"
  let ?p = "[0x60, 0, 0, 0, 0, 1, 17, 64] @ replicate 16 1 @ [0xfc, 0x94] @ replicate 14 2 @ [9] :: bytes"
  have "unicast ?a ?b ?p" "ip6_norm ?p = [0x60, 0, 0, 0, 0, 1, 17, 3] @ replicate 16 1 @ [0xfc, 0x94] @ replicate 14 2 @ [9]"
    by code_simp+
  with multicast_layer_transport [of ?a ?b ?p "\<lambda>_. []"] show ?thesis by simp
qed

text \<open>C19: A frame from a peer never yields a packet that claims another source: every packet the
  layer hands up is an IPv6 packet whose source address is the peer it came from, and its
  destination is this node or, for multicast, an address that starts with the byte FF.\<close>

theorem no_source_spoofing:
  assumes "ip_wf source" and "ip_wf me" and "ToUpper i packet \<in> set (onLowerLayerData_mc me source d)"
  shows "40 < length packet \<and> packet ! 0 = 0x60 \<and> chunk 8 16 packet = ip_data source \<and>
    (i = source \<and> chunk 24 16 packet = ip_data me \<or> i = IpAddress_default \<and> packet ! 24 = 0xff)"
proof -
  have h: "40 < length (ip6_header n pr (ip_data source) dst @ x)" "(ip6_header n pr (ip_data source) dst @ x) ! 0 = 0x60"
    "chunk 8 16 (ip6_header n pr (ip_data source) dst @ x) = ip_data source"
    "chunk 24 16 (ip6_header n pr (ip_data source) dst @ x) = dst" "(ip6_header n pr (ip_data source) dst @ x) ! 24 = dst ! 0"
    if "length dst = 16" "x \<noteq> []" for n pr dst x
    using assms(1) that by (simp_all add: ip6_header_def ip_wf_def layout nth_append)
  have len: "2 \<le> length d" using assms(3) by (cases "length d < 2") (simp_all add: onLowerLayerData_mc_def)
  show ?thesis
  proof (cases "d ! 0 = 0xff \<and> d ! 1 = 0x01")
    case True
    let ?x = "ip6_header (length d - 19) (d ! 2) (ip_data source) (chunk 3 16 d) @ drop 19 d"
    have c: "length d < 20 \<or> chunk 3 16 d ! 0 \<noteq> 0xff \<Longrightarrow> onLowerLayerData_mc me source d = []"
      "\<not> length d < 20 \<Longrightarrow> chunk 3 16 d ! 0 = 0xff \<Longrightarrow> onLowerLayerData_mc me source d = [ToUpper IpAddress_default ?x]"
      using True len by (auto simp: onLowerLayerData_mc_def Let_def)
    with assms(3) have x: "20 \<le> length d" "chunk 3 16 d ! 0 = 0xff" "i = IpAddress_default" "packet = ?x"
      by (cases "length d < 20"; cases "chunk 3 16 d ! 0 = 0xff"; simp)+
    then show ?thesis using h [of "chunk 3 16 d" "drop 19 d"] by simp
  next
    case False
    then have "i = source" "packet = ip6_header (length d - 1) (d ! 0) (ip_data source) (ip_data me) @ drop 1 d"
      using assms(3) len by (auto simp: onLowerLayerData_mc_def Let_def)
    then show ?thesis using h [of "ip_data me" "drop 1 d"] len assms(2) by (simp add: ip_wf_def)
  qed
qed

theorem no_source_spoofing_witness:
  "\<exists>packet. onLowerLayerData_mc (IpAddress (replicate 16 2)) (IpAddress (replicate 16 1)) [17, 9] =
      [ToUpper (IpAddress (replicate 16 1)) packet] \<and> chunk 8 16 packet = replicate 16 1"
proof -
  obtain packet where p: "onLowerLayerData_mc (IpAddress (replicate 16 2)) (IpAddress (replicate 16 1)) [17, 9] =
      [ToUpper (IpAddress (replicate 16 1)) packet]" by (simp add: onLowerLayerData_mc_def)
  have "ip_wf (IpAddress (replicate 16 k))" for k by (simp add: ip_wf_def)
  then show ?thesis
    using p no_source_spoofing [of "IpAddress (replicate 16 1)" "IpAddress (replicate 16 2)" "IpAddress (replicate 16 1)" packet "[17, 9]"]
    by auto
qed

text \<open>
  The two frame formats overlap: a unicast packet of protocol 255 whose payload starts with the
  byte 1 is read as a multicast frame by the receiver.
\<close>

lemma protocol_255_confused:
  assumes "40 < length packet" and "drop_bit 4 (packet ! 0) = 6" and "chunk 8 16 packet = ip_data a"
    and "chunk 24 16 packet = ip_data b" and "ip_data b ! 0 = 0xfc" and "ip_data b ! 1 = 0x94"
    and "packet ! 6 = 0xff" and "packet ! 40 = 0x01" and "ToUpper i x \<in> set (onLowerLayerData_mc b a ((packet ! 6) # drop 40 packet))"
  shows "onUpperLayerData_mc a dests packet = [ToLower b ((packet ! 6) # drop 40 packet)] \<and> i = IpAddress_default"
proof -
  have "drop 40 packet = packet ! 40 # drop 41 packet"
    using assms(1) Cons_nth_drop_Suc [of 40 packet] by simp
  then have c: "((packet ! 6) # drop 40 packet) ! 1 = 0x01" using assms(8) by simp
  have "onUpperLayerData_mc a dests packet = [ToLower b ((packet ! 6) # drop 40 packet)]"
    using assms(1-6) by (cases a; cases b) (auto simp: onUpperLayerData_mc_def Let_def)
  moreover have "i = IpAddress_default"
    using assms(9) c unfolding onLowerLayerData_mc_def Let_def assms(7) by (auto split: if_splits)
  ultimately show ?thesis by simp
qed

end
