(* ===== verification/Stack.thy ===== *)
theory Stack
  imports NgSocketProps Layers
begin

text \<open>
  The whole stack, as \<open>HusarnetManager::runHusarnet\<close> wires it with \<open>stackUpperOnLower\<close>: tunnel
  interface, multicast, compression, security and socket.  A call of a layer's consumer is run to
  its end before the caller goes on; the socket's handlers make their call (\<open>Deliver\<close>) last.

  The results: the invariants of the peer table, of the waiting packets and of the socket hold
  together in every state the stack reaches; the stack fails on exactly two datagrams; and a
  packet crosses the stacks of two nodes.
\<close>

section \<open>Wiring\<close>

definition withFrames :: "('s \<Rightarrow> (frame list \<times> 's) option) \<Rightarrow> (frame \<Rightarrow> 's action) \<Rightarrow> 's action" where
  "withFrames handler consumer st =
     (case handler st of None \<Rightarrow> None | Some (frames, st) \<Rightarrow> forEach frames consumer st)"

text \<open>The consumers above the multicast, the compression and the security layer.\<close>

primrec tunConsumer :: "frame \<Rightarrow> 's action" where
  "tunConsumer (ToUpper i d) = emit (TunWrite d)"
| "tunConsumer (ToLower i d) = nop"

primrec multicastConsumer :: "node \<Rightarrow> frame \<Rightarrow> 's action" where
  "multicastConsumer nd (ToUpper i d) = forEach (onLowerLayerData_mc (deviceId (myIdentity nd)) i d) tunConsumer"
| "multicastConsumer nd (ToLower i d) = nop"

text \<open>The security layer sends both ways.\<close>

primrec securityOut :: "bool \<Rightarrow> node \<Rightarrow> env \<Rightarrow> frame \<Rightarrow> 'a ng_state_scheme action" where
  "securityOut with_zstd nd e (ToUpper i d) = withFrames (onLowerLayerData_comp with_zstd nd i d) (multicastConsumer nd)"
| "securityOut with_zstd nd e (ToLower i d) = onUpperLayerData_ng nd e i d"

primrec securityConsumer :: "bool \<Rightarrow> node \<Rightarrow> env \<Rightarrow> frame \<Rightarrow> 'a ng_state_scheme action" where
  "securityConsumer with_zstd nd e (ToLower i d) = withFrames (onUpperLayerData_sec nd i d) (securityOut with_zstd nd e)"
| "securityConsumer with_zstd nd e (ToUpper i d) = nop"

primrec compressionConsumer :: "bool \<Rightarrow> node \<Rightarrow> env \<Rightarrow> frame \<Rightarrow> 'a ng_state_scheme action" where
  "compressionConsumer with_zstd nd e (ToLower i d) =
     withFrames (onUpperLayerData_comp with_zstd nd i d) (securityConsumer with_zstd nd e)"
| "compressionConsumer with_zstd nd e (ToUpper i d) = nop"

text \<open>A packet read from the tunnel interface, and an event at the socket.\<close>

definition tunData ::
  "bool \<Rightarrow> node \<Rightarrow> env \<Rightarrow> (HusarnetAddress \<Rightarrow> HusarnetAddress list) \<Rightarrow> bytes \<Rightarrow> 'a ng_state_scheme action" where
  "tunData with_zstd nd e getMulticastDestinations packet =
     forEach (onUpperLayerData_mc (deviceId (myIdentity nd)) getMulticastDestinations packet)
       (compressionConsumer with_zstd nd e)"

definition deliverUp :: "bool \<Rightarrow> node \<Rightarrow> env \<Rightarrow> net \<Rightarrow> 'a ng_state_scheme action" where
  "deliverUp with_zstd nd e x =
     (case x of
        Deliver i d \<Rightarrow> withFrames (onLowerLayerData_sec nd (now e) i d) (securityOut with_zstd nd e)
      | _ \<Rightarrow> emit x)"

definition socketEvent :: "bool \<Rightarrow> node \<Rightarrow> env \<Rightarrow> ng_event \<Rightarrow> 'a ng_state_scheme action" where
  "socketEvent with_zstd nd e x st =
     (case ng_handle nd e x st of None \<Rightarrow> None | Some (out, st) \<Rightarrow> forEach out (deliverUp with_zstd nd e) st)"

section \<open>The security layer and the socket's invariant\<close>

text \<open>The part of the socket's invariant that is not the security layer's own.\<close>

definition ng_rest :: "'a ng_state_scheme \<Rightarrow> bool" where
  "ng_rest st \<longleftrightarrow>
     sources_ok st \<and> (\<forall>x \<in> set (heap st). ip_wf (peer_id x)) \<and>
     queue_wf (workerQueue st) (workerQueueSize st) \<and> cookie_ok st"

lemma ng_inv_rest: "ng_inv nd st \<longleftrightarrow> sec_inv nd st \<and> ng_rest st"
  by (auto simp: ng_inv_def ng_rest_def cookie_ok_def)

lemma ng_rest_modify:
  assumes "ng_rest st" and "\<And>x. peer_id (f x) = peer_id x" and "\<And>x. sourceAddresses (f x) = sourceAddresses x"
  shows "ng_rest (modify p f st)"
proof (cases "p < length (heap st)")
  case True
  have "sources_ok (modify p f st)" using assms True by (intro sources_ok_modify) (auto simp: ng_rest_def)
  moreover have "ip_wf (peer_id (deref (modify p f st) q))" if "q < length (heap st)" for q
    using that assms True by (auto simp: deref_modify ng_rest_def)
  ultimately show ?thesis using assms(1) by (auto simp: ng_rest_def cookie_ok_def all_set_conv_all_nth)
next
  case False
  then have "modify p f st = st" by (simp add: modify_def list_update_beyond)
  then show ?thesis using assms(1) by simp
qed

lemma ng_rest_update [simp]:
  "ng_rest (st\<lparr>draws := k\<rparr>) = ng_rest st" "ng_rest (st\<lparr>helloseq := s\<rparr>) = ng_rest st"
  "ng_rest (st\<lparr>queuedPackets := q\<rparr>) = ng_rest st"
  by (simp_all add: ng_rest_def sources_ok_def cookie_ok_def)

lemma ng_rest_getOrCreatePeer:
  "ng_inv nd st \<Longrightarrow> getOrCreatePeer nd i st = (r, st') \<Longrightarrow> ip_wf i \<Longrightarrow> ng_rest st'"
  using getOrCreatePeer_ng_inv [of nd st i r st'] by (simp add: ng_inv_rest)

definition keeps_rest :: "'a ng_state_scheme handled \<Rightarrow> bool" where
  "keeps_rest r \<longleftrightarrow> (\<forall>out st'. r = Some (out, st') \<longrightarrow> ng_rest st')"

lemma keeps_restI: "ng_rest st \<Longrightarrow> keeps_rest (Some (out, st))" "keeps_rest None"
  by (simp_all add: keeps_rest_def)

lemma keeps_rest_map: "ng_rest st \<Longrightarrow> keeps_rest (map_option (\<lambda>f. (g f, st)) r)"
  by (auto simp: keeps_rest_def)

lemma keeps_rest_hello: "ng_rest st \<Longrightarrow> keeps_rest (Option.bind r (\<lambda>f. Some (g f, st)))"
  by (auto simp: keeps_rest_def bind_eq_Some_conv)

lemma keeps_if: "(c \<Longrightarrow> keeps_rest a) \<Longrightarrow> (\<not> c \<Longrightarrow> keeps_rest b) \<Longrightarrow> keeps_rest (if c then a else b)"
  by simp

lemma keeps_doSend: "ng_rest st \<Longrightarrow> keeps_rest (doSendDataPacket nd p d st)"
  by (auto simp: keeps_rest_def dest: doSendDataPacket_Some)

lemma keeps_hello_effect:
  assumes "ng_rest st" and p: "p < length (heap st)"
  shows "keeps_rest (hello_effect nd i d n p st)"
proof -
  obtain r st1 where x: "exchangeKeys nd i (chunk 33 32 d) (hello_flags d) p st = (r, st1)"
    by (cases "exchangeKeys nd i (chunk 33 32 d) (hello_flags d) p st")
  obtain rx tx where st1: "st1 = modify p (\<lambda>x. x\<lparr>peer_flags := hello_flags d, rxKey := rx, txKey := tx\<rparr>) st"
    using exchangeKeys_eq [OF x p] by blast
  have r1: "ng_rest st1" unfolding st1 by (rule ng_rest_modify [OF assms(1)]) simp_all
  have r2: "ng_rest st2" if fin: "finishNegotiation nd p st1 = Some (out, st2)" for out st2
  proof -
    have "p < length (heap st1)" using p by (simp add: st1)
    then obtain k where "st2 = modify p (\<lambda>x. x\<lparr>negotiated := True, packetQueue := []\<rparr>)
        (st1\<lparr>queuedPackets := queuedPackets st1 - int (length (packetQueue (deref st1 p))), draws := k\<rparr>)"
      using finishNegotiation_Some [OF fin] by blast
    moreover have "ng_rest (modify p (\<lambda>x. x\<lparr>negotiated := True, packetQueue := []\<rparr>) (st1\<lparr>queuedPackets := n, draws := k\<rparr>))" for n
      by (rule ng_rest_modify) (simp_all add: r1)
    ultimately show ?thesis by simp
  qed
  show ?thesis
    unfolding hello_effect_def x prod.case Let_def
    using r1 r2 assms(1) by (auto intro!: keeps_restI keeps_rest_map split: option.split)
qed

lemma keeps_with_peer:
  assumes "ng_inv nd st" and "ip_wf i" and "keeps_rest (f st)"
    and "\<And>p st. ng_inv nd st \<Longrightarrow> p < length (heap st) \<Longrightarrow> keeps_rest (g p st)"
  shows "keeps_rest (case getOrCreatePeer nd i st of (None, st) \<Rightarrow> f st | (Some p, st) \<Rightarrow> g p st)"
proof -
  obtain r st1 where g: "getOrCreatePeer nd i st = (r, st1)" by (cases "getOrCreatePeer nd i st")
  show ?thesis
    using g getOrCreatePeer_ng_inv [OF assms(1) g assms(2)] assms(3,4) pc.acquire_refused [of nd i st st1]
    by (cases r) auto
qed

lemma keeps_handleHelloPacket: "ng_inv nd st \<Longrightarrow> ip_wf i \<Longrightarrow> keeps_rest (handleHelloPacket nd i d n st)"
  unfolding handleHelloPacket_eq
  by (intro keeps_if keeps_with_peer)
    (auto simp: ng_inv_rest intro!: keeps_restI keeps_hello_effect)

lemma keeps_handleDataPacket: "ng_inv nd st \<Longrightarrow> ip_wf i \<Longrightarrow> keeps_rest (handleDataPacket nd t i d st)"
  unfolding handleDataPacket_def Let_def
  by (rule keeps_if, simp add: keeps_restI ng_inv_rest, rule keeps_with_peer, assumption+)
    (auto simp: ng_inv_rest intro!: keeps_restI keeps_rest_hello ng_rest_modify split: option.split)

lemma keeps_onLowerLayerData_sec:
  assumes "ng_inv nd st" and "ip_wf i"
  shows "keeps_rest (onLowerLayerData_sec nd t i d st)"
proof -
  have "ng_rest (handleHeartbeatReply nd t i ident st)" for ident
    using getOrCreatePeer_ng_inv [OF assms(1) _ assms(2)]
    by (auto simp: handleHeartbeatReply_def ng_inv_rest intro!: ng_rest_modify split: prod.split option.split)
  moreover have "ng_rest st" using assms(1) by (simp add: ng_inv_rest)
  ultimately show ?thesis
    using keeps_handleHelloPacket [OF assms] keeps_handleDataPacket [OF assms]
    by (auto simp: onLowerLayerData_sec_def sv_index_def intro!: keeps_restI)
qed

lemma keeps_onUpperLayerData_sec:
  assumes "ng_inv nd st" and "ip_wf i"
  shows "keeps_rest (onUpperLayerData_sec nd i d st)"
  unfolding onUpperLayerData_sec_def Let_def
  by (rule keeps_with_peer [OF assms])
    (use assms in \<open>auto simp: ng_inv_rest intro!: keeps_restI keeps_rest_hello keeps_doSend ng_rest_modify\<close>)


section \<open>Actions that deliver nothing\<close>

definition quiet :: "'s action \<Rightarrow> bool" where
  "quiet f \<longleftrightarrow> (\<forall>st out st'. f st = Some (out, st') \<longrightarrow> (\<forall>i d. Deliver i d \<notin> set out))"

definition quiet_result :: "(net list \<times> 's) option \<Rightarrow> bool" where
  "quiet_result r \<longleftrightarrow> (\<forall>out st'. r = Some (out, st') \<longrightarrow> (\<forall>i d. Deliver i d \<notin> set out))"

named_theorems quiet_rules

lemma quietD: "quiet f \<Longrightarrow> quiet_result (f st)"
  by (auto simp: quiet_def quiet_result_def)

lemma quietI: "(\<And>st. quiet_result (f st)) \<Longrightarrow> quiet f"
  by (auto simp: quiet_def quiet_result_def)

lemma quiet_basic [quiet_rules]: "quiet nop" "quiet (update g)" "quiet (\<lambda>st. None)"
  "(\<And>i d. x \<noteq> Deliver i d) \<Longrightarrow> quiet (emit x)"
  by (auto simp: quiet_def nop_def update_def emit_def)

lemma quiet_andThen [quiet_rules]: "quiet f \<Longrightarrow> quiet g \<Longrightarrow> quiet (andThen f g)"
  unfolding quiet_def andThen_def by (auto split: option.splits)

lemma quiet_forEach [quiet_rules]: "(\<And>x. quiet (f x)) \<Longrightarrow> quiet (forEach xs f)"
  by (induction xs) (auto intro: quiet_rules)

lemma quiet_if [quiet_rules]: "quiet f \<Longrightarrow> quiet g \<Longrightarrow> quiet (if c then f else g)"
  by simp

lemma quiet_state_if [quiet_rules]: "quiet f \<Longrightarrow> quiet g \<Longrightarrow> quiet (\<lambda>st. if c st then f st else g st)"
  by (simp add: quiet_def)

lemma quiet_results:
  "quiet_result None" "quiet_result (nop st)" "quiet_result (update g st)"
  "quiet_result a \<Longrightarrow> quiet_result b \<Longrightarrow> quiet_result (if c then a else b)"
  by (auto simp: quiet_result_def nop_def update_def)

lemma quiet_result_andThen: "quiet f \<Longrightarrow> quiet g \<Longrightarrow> quiet_result (andThen f g st)"
  by (rule quietD [OF quiet_andThen])

lemma quiet_result_forEach: "(\<And>x. quiet (f x)) \<Longrightarrow> quiet_result (forEach xs f st)"
  by (rule quietD [OF quiet_forEach])

lemma quiet_case_option [quiet_rules]: "quiet f \<Longrightarrow> (\<And>x. quiet (g x)) \<Longrightarrow> quiet (\<lambda>st. case h st of None \<Rightarrow> f st | Some x \<Rightarrow> g x st)"
  by (auto simp: quiet_def split: option.splits)

lemma quiet_case_peer [quiet_rules]:
  "quiet f \<Longrightarrow> (\<And>p. quiet (g p)) \<Longrightarrow> quiet (\<lambda>st. case h st of (None, st) \<Rightarrow> f st | (Some p, st) \<Rightarrow> g p st)"
  unfolding quiet_def by (auto split: prod.splits option.splits)

lemma quiet_send [quiet_rules]:
  "quiet (sendToBaseUdp nd msg)" "quiet (sendToBaseTcp nd msg)" "quiet (sendToPeer nd a m)" "quiet (sendMulticast nd)"
  unfolding sendToBaseUdp_def [abs_def] sendToBaseTcp_def [abs_def] sendToPeer_def [abs_def] sendMulticast_def [abs_def]
    forEach_emit forEach_nop Let_def
  by (auto simp: quiet_def nop_def emit_def andThen_def split: if_splits option.splits PeerToBaseMessageKind.splits)

lemma quiet_by_state: "(\<And>s. quiet (g s)) \<Longrightarrow> quiet (\<lambda>st. g st st)"
  unfolding quiet_def by blast

lemma quiet_sendInfo [quiet_rules]: "quiet (sendInfoRequestToBase nd i)" "quiet (sendLocalAddressesToBase nd)"
proof -
  show "quiet (sendInfoRequestToBase nd i)" unfolding sendInfoRequestToBase_def by (intro quiet_rules)
  show "quiet (sendLocalAddressesToBase nd)"
    unfolding sendLocalAddressesToBase_def [abs_def] by (rule quiet_by_state) (intro quiet_rules)
qed

lemma quiet_helloTo [quiet_rules]: "quiet (helloTo nd a p)"
  unfolding helloTo_def [abs_def] Let_def
  by (intro quietI quiet_results quiet_result_andThen quiet_rules)

lemma quiet_attemptReestablish [quiet_rules]: "quiet (attemptReestablish nd e p)"
  unfolding attemptReestablish_def [abs_def] Let_def case_prod_beta
  by (intro quietI) (rule quiet_result_forEach, intro quiet_rules)

lemma quiet_sendDataToPeer [quiet_rules]: "quiet (sendDataToPeer nd e p d)"
  unfolding sendDataToPeer_def [abs_def] Let_def
  by (rule quietI, rule quiet_result_andThen) (intro quiet_rules)+

lemma quiet_onUpperLayerData_ng [quiet_rules]: "quiet (onUpperLayerData_ng nd e i d)"
  unfolding onUpperLayerData_ng_def [abs_def] by (intro quiet_rules)

lemma quiet_changePeerTargetAddresses [quiet_rules]: "quiet (changePeerTargetAddresses nd e p as)"
  unfolding changePeerTargetAddresses_def [abs_def] Let_def by (intro quiet_rules)

lemma quiet_periodicPeer [quiet_rules]: "quiet (periodicPeer nd e p)"
  unfolding periodicPeer_def [abs_def] Let_def
  by (rule quietI, intro quiet_results quiet_result_andThen quiet_rules)

lemma quiet_requestRefresh [quiet_rules]: "quiet requestRefresh"
  unfolding requestRefresh_def [abs_def] by (intro quiet_rules)

lemma quiet_resendInfoRequests [quiet_rules]: "quiet (resendInfoRequests nd e)"
proof -
  have "quiet (\<lambda>st :: 'a ng_state_scheme. if isActive (now e) (deref st p)
      then sendInfoRequestToBase nd (peer_id (deref st p)) st else nop st)" for p
    by (rule quietI, intro quiet_results) (rule quietD, intro quiet_rules)
  note q = this
  show ?thesis
    unfolding resendInfoRequests_def [abs_def] by (rule quietI, rule quiet_result_forEach, rule q)
qed

lemma quiet_connectToBase [quiet_rules]: "quiet (connectToBase nd e)"
  unfolding connectToBase_def [abs_def] Let_def
  by (rule quietI, intro quiet_results quiet_result_andThen quiet_rules) simp_all

lemma quiet_sendNatInitToBase [quiet_rules]: "quiet (sendNatInitToBase nd e)"
proof -
  have transient: "quiet (\<lambda>st :: 'a ng_state_scheme. if baseTransientPort st \<noteq> 0
     then andThen (sendToBaseUdp nd ((PeerToBaseMessage_of PTB_NAT_INIT_TRANSIENT)
            \<lparr>ptb_deviceId := deviceId (myIdentity nd), ptb_counter := natInitCounter st\<rparr>))
          (update advanceTransientPort) st
     else nop st)"
    by (rule quietI, intro quiet_results quiet_result_andThen quiet_rules)
  show ?thesis
    unfolding sendNatInitToBase_def [abs_def] Let_def
    by (rule quietI, intro quiet_results quiet_result_andThen transient quiet_rules)
qed

lemma quiet_refresh [quiet_rules]: "quiet (refresh nd e)"
  unfolding refresh_def
  by (intro quiet_rules quiet_by_state [where g = "\<lambda>st. forEach (iteratePeers st) (periodicPeer nd e)"])

lemma quiet_multicast [quiet_rules]: "quiet (multicastPacketReceived nd e a d)"
proof -
  have "quiet (\<lambda>st :: 'a ng_state_scheme. let srcAddress = InetAddress (ip_of a) port in
        if linkLocalAddress (deref st p) \<noteq> srcAddress
        then andThen (update (modify p (linkLocalAddress_update (\<lambda>_. srcAddress)))) (attemptReestablish nd e p) st
        else nop st)" for p port
    unfolding Let_def by (intro quiet_rules)
  then show ?thesis
    unfolding multicastPacketReceived_def [abs_def]
    by (cases "fromBinaryString (chunk 2 DEVICEID_LENGTH d)"; cases "unpack (chunk 0 2 d) :: u16 option")
      (simp_all only: prod.case option.case, (intro quiet_rules)+)
qed

lemma quiet_helloReceived [quiet_rules]: "quiet (helloReceived nd e a msg)"
proof -
  have link: "quiet (\<lambda>st :: 'a ng_state_scheme.
      if isLinkLocal (ip_of a) \<and> \<not> InetAddress_bool (linkLocalAddress (deref st p))
      then andThen (update (modify p (linkLocalAddress_update (\<lambda>_. a))))
        (if isActive (now e) (deref st p) then attemptReestablish nd e p else nop) st
      else nop st)" for p
    by (rule quietI, intro quiet_results quiet_result_andThen quiet_rules)
  show ?thesis
    unfolding helloReceived_def [abs_def] by (intro link quiet_rules)
qed

lemma quiet_helloReplyReceived [quiet_rules]: "quiet (helloReplyReceived nd a msg)"
  unfolding helloReplyReceived_def [abs_def] by (intro quiet_rules)

lemma quiet_periodic [quiet_rules]: "quiet (periodic nd e)"
  unfolding periodic_def [abs_def] Let_def case_prod_beta
  by (rule quietI, rule quiet_results(4), rule quiet_results(2), rule quiet_result_andThen) (intro quiet_rules)+

lemma quiet_baseTcpError [quiet_rules]: "quiet (baseTcpError e c)"
  unfolding baseTcpError_def [abs_def] by (intro quiet_rules) simp

section \<open>Frames stay with their peer\<close>

primrec frame_peer :: "frame \<Rightarrow> HusarnetAddress" where
  "frame_peer (ToLower i d) = i"
| "frame_peer (ToUpper i d) = i"

definition for_peer :: "HusarnetAddress \<Rightarrow> 's handled \<Rightarrow> bool" where
  "for_peer i r \<longleftrightarrow> (\<forall>out st'. r = Some (out, st') \<longrightarrow> (\<forall>f \<in> set out. frame_peer f = i))"

lemma for_peerI: "(\<forall>f \<in> set out. frame_peer f = i) \<Longrightarrow> for_peer i (Some (out, st))" "for_peer i None"
  by (simp_all add: for_peer_def)

lemma for_peer_if: "(c \<Longrightarrow> for_peer i a) \<Longrightarrow> (\<not> c \<Longrightarrow> for_peer i b) \<Longrightarrow> for_peer i (if c then a else b)"
  by simp

lemma sendHelloPacket_peer: "sendHelloPacket nd p n s st = Some f \<Longrightarrow> frame_peer f = peer_id (deref st p)"
  by (auto simp: sendHelloPacket_def Let_def split: if_splits)

lemma doSendDataPacket_peer: "for_peer (peer_id (deref st p)) (doSendDataPacket nd p d st)"
  by (auto simp: for_peer_def doSendDataPacket_def Let_def split: if_splits)

lemma flushQueue_peer: "for_peer (peer_id (deref st p)) (flushQueue nd p q st)"
proof (induction q arbitrary: st)
  case (Cons d q)
  let ?st = "st\<lparr>queuedPackets := queuedPackets st - 1\<rparr>"
  have "for_peer (peer_id (deref st p)) (doSendDataPacket nd p d ?st)"
    using doSendDataPacket_peer [of ?st p nd d] by simp
  moreover have "for_peer (peer_id (deref st p)) (flushQueue nd p q st1)"
    if "doSendDataPacket nd p d ?st = Some (out, st1)" for out st1
  proof -
    have "heap st1 = heap st" using doSendDataPacket_Some [OF that] by auto
    then show ?thesis using Cons.IH [of st1] by simp
  qed
  ultimately show ?case by (auto simp: for_peer_def bind_eq_Some_conv)
qed (simp add: for_peer_def)

lemma hello_effect_peer:
  assumes p: "p < length (heap st)" and i: "peer_id (deref st p) = i"
  shows "for_peer i (hello_effect nd j d n p st)"
proof -
  obtain r st1 where x: "exchangeKeys nd j (chunk 33 32 d) (hello_flags d) p st = (r, st1)"
    by (cases "exchangeKeys nd j (chunk 33 32 d) (hello_flags d) p st")
  obtain rx tx where st1: "st1 = modify p (\<lambda>x. x\<lparr>peer_flags := hello_flags d, rxKey := rx, txKey := tx\<rparr>) st"
    using exchangeKeys_eq [OF x p] by blast
  have p1: "p < length (heap st1)" "peer_id (deref st1 p) = i" using p i by (simp_all add: st1 deref_modify)
  have fin: "for_peer i (finishNegotiation nd p st1)"
    using flushQueue_peer [of "modify p (negotiated_update (\<lambda>_. True)) st1" p nd] p1
    by (auto simp: for_peer_def finishNegotiation_def bind_eq_Some_conv deref_modify)
  have id2: "peer_id (deref st2 p) = i" if f: "finishNegotiation nd p st1 = Some (out, st2)" for out st2
    using finishNegotiation_Some [OF f p1(1)] p1 by (auto simp: deref_modify)
  have completed: "for_peer i (case finishNegotiation nd p st1 of None \<Rightarrow> None
      | Some (out, st) \<Rightarrow>
          if n = 2 then map_option (\<lambda>f. (out @ [f], st\<lparr>helloseq := helloseq st + 1\<rparr>))
            (sendHelloPacket nd p 3 (hello_yourseq d) (st\<lparr>helloseq := helloseq st + 1\<rparr>))
          else Some (out, st\<lparr>helloseq := helloseq st + 1\<rparr>))"
  proof (cases "finishNegotiation nd p st1")
    case (Some y)
    obtain out st2 where y: "y = (out, st2)" by (cases y)
    then have f: "finishNegotiation nd p st1 = Some (out, st2)" using Some by simp
    have o: "\<forall>f \<in> set out. frame_peer f = i" using fin f by (simp add: for_peer_def)
    have h: "frame_peer g = i"
      if "sendHelloPacket nd p 3 (hello_yourseq d) (st2\<lparr>helloseq := helloseq st2 + 1\<rparr>) = Some g" for g
      using sendHelloPacket_peer [OF that] id2 [OF f] by simp
    show ?thesis using o h by (auto simp: f for_peer_def)
  qed (simp add: for_peerI)
  have "for_peer i (map_option (\<lambda>f. ([f], st)) (sendHelloPacket nd p 2 (hello_yourseq d) st))"
    using i by (auto simp: for_peer_def dest: sendHelloPacket_peer)
  with completed show ?thesis
    unfolding hello_effect_def x prod.case Let_def
    by (intro for_peer_if for_peerI) simp_all
qed

lemma for_peer_with_peer:
  assumes "pc_inv nd st" and "for_peer i (f st)"
    and "\<And>p st. p < length (heap st) \<Longrightarrow> peer_id (deref st p) = i \<Longrightarrow> for_peer i (g p st)"
  shows "for_peer i (case getOrCreatePeer nd i st of (None, st) \<Rightarrow> f st | (Some p, st) \<Rightarrow> g p st)"
  by (rule pc.with_peer [OF assms(1)]) (use assms(2,3) in auto)

lemma for_peer_hello:
  "peer_id (deref st p) = i \<Longrightarrow> for_peer i (Option.bind (sendHelloPacket nd p n s st) (\<lambda>f. Some ([f], st')))"
  by (auto simp: for_peer_def bind_eq_Some_conv dest: sendHelloPacket_peer)

lemma handleHelloPacket_peer: "pc_inv nd st \<Longrightarrow> for_peer i (handleHelloPacket nd i d n st)"
  unfolding handleHelloPacket_eq
  by (intro for_peer_if for_peer_with_peer hello_effect_peer) (simp_all add: for_peerI)

lemma handleDataPacket_peer: "pc_inv nd st \<Longrightarrow> for_peer i (handleDataPacket nd t i d st)"
  unfolding handleDataPacket_def Let_def
  by (rule for_peer_if, simp add: for_peerI, rule for_peer_with_peer, assumption)
    (auto intro!: for_peerI for_peer_hello split: option.split)

lemma onLowerLayerData_sec_peer: "pc_inv nd st \<Longrightarrow> for_peer i (onLowerLayerData_sec nd t i d st)"
  using handleHelloPacket_peer [of nd st i] handleDataPacket_peer [of nd st i]
  by (auto simp: onLowerLayerData_sec_def sv_index_def handleHeartbeat_def intro!: for_peerI)

lemma onUpperLayerData_sec_peer: "pc_inv nd st \<Longrightarrow> for_peer i (onUpperLayerData_sec nd i d st)"
  unfolding onUpperLayerData_sec_def Let_def
  by (rule for_peer_with_peer, assumption, simp add: for_peerI)
    (auto intro!: for_peer_hello simp: deref_modify doSendDataPacket_peer dest: sym)


section \<open>The stack returns and keeps the invariant\<close>

lemma succeeds_withFrames:
  assumes "handler st = Some (frames, st1)" and "I st1" and "\<And>f. f \<in> set frames \<Longrightarrow> ok I (k f)"
  shows "succeeds I (withFrames handler k st)"
  using assms by (simp add: withFrames_def succeeds_forEach)

lemma ok_withFrames:
  assumes "\<And>st. handler st = Some (frames, st)" and "\<And>f. f \<in> set frames \<Longrightarrow> ok I (k f)"
  shows "ok I (withFrames handler k)"
  by (rule okI, rule succeeds_withFrames) (use assms in auto)

lemma ok_tunConsumer: "ok I (tunConsumer f)"
  by (cases f) (simp_all add: ok_emit ok_nop)

lemma ok_multicastConsumer: "ok I (multicastConsumer nd f)"
  by (cases f) (simp_all add: ok_nop ok_forEach ok_tunConsumer)

lemma ok_securityOut:
  assumes "ng_env nd e" and "ip_wf (frame_peer f)"
  shows "ok (ng_inv nd) (securityOut False nd e f)"
proof (cases f)
  case (ToUpper i d)
  then show ?thesis
    by (auto intro!: okI succeeds_withFrames ok_multicastConsumer simp: onLowerLayerData_comp_def shouldProceed_def)
qed (use assms in \<open>simp add: ok_onUpperLayerData_ng\<close>)

lemma succeeds_security:
  assumes e: "ng_env nd e" and inv: "ng_inv nd st" and i: "ip_wf i"
    and h: "returns_inv nd (h st)" "keeps_rest (h st)" "for_peer i (h st)"
  shows "succeeds (ng_inv nd) (withFrames h (securityOut False nd e) st)"
proof -
  obtain out st1 where r: "h st = Some (out, st1)" "sec_inv nd st1" using h(1) by (auto simp: returns_inv_def)
  then have "ng_inv nd st1" using h(2) by (simp add: ng_inv_rest keeps_rest_def)
  moreover have "\<forall>f \<in> set out. frame_peer f = i" using h(3) r by (simp add: for_peer_def)
  ultimately show ?thesis using r i by (intro succeeds_withFrames ok_securityOut [OF e]) auto
qed

lemma onUpperLayerData_mc_frames:
  assumes "f \<in> set (onUpperLayerData_mc me dests packet)"
  obtains i d where "f = ToLower i d" "ip_wf i \<or> (\<exists>g. i \<in> set (dests g))" "length d \<le> length packet"
proof -
  have len: "40 < length packet" using assms by (cases "length packet \<le> 40") (simp_all add: onUpperLayerData_mc_def)
  then have "length (chunk 24 16 packet) = 16" "Suc (Suc (Suc (length packet - 24))) \<le> length packet" by simp_all
  then show ?thesis
    using assms that len by (auto simp: onUpperLayerData_mc_def Let_def ip_wf_def split: if_splits) blast+
qed

lemma ok_tunData:
  assumes e: "ng_env nd e" and len: "length packet \<le> 4096" and dests: "\<And>g. list_all ip_wf (getMulticastDestinations g)"
  shows "ok (ng_inv nd) (tunData False nd e getMulticastDestinations packet)"
  unfolding tunData_def
proof (rule ok_forEach)
  fix f assume "f \<in> set (onUpperLayerData_mc (deviceId (myIdentity nd)) getMulticastDestinations packet)"
  then obtain i d where f: "f = ToLower i d" "ip_wf i" "length d < 10240"
    using len dests by (elim onUpperLayerData_mc_frames) (auto simp: list_all_iff)
  have sc: "ok (ng_inv nd) (securityConsumer False nd e f)"
    using f e by (auto intro!: okI succeeds_security onUpperLayerData_sec_inv keeps_onUpperLayerData_sec
        onUpperLayerData_sec_peer simp: ng_inv_def sec_inv_def [of nd])
  show "ok (ng_inv nd) (compressionConsumer False nd e f)"
    using sc unfolding f(1) compressionConsumer.simps
    by (intro ok_withFrames [where frames = "[ToLower i d]"]) (simp_all add: onUpperLayerData_comp_def shouldProceed_def)
qed

lemma ok_deliverUp:
  assumes e: "ng_env nd e" and "\<And>i d. x = Deliver i d \<Longrightarrow> ip_wf i \<and> d \<noteq> []"
  shows "ok (ng_inv nd) (deliverUp False nd e x)"
proof (cases x)
  case (Deliver i d)
  then show ?thesis
    using assms by (auto intro!: okI succeeds_security onLowerLayerData_sec_inv keeps_onLowerLayerData_sec
        onLowerLayerData_sec_peer simp: deliverUp_def ng_inv_def sec_inv_def [of nd])
qed (simp_all add: deliverUp_def ok_emit)


text \<open>What the socket delivers.\<close>

definition deliveries_ok :: "net list \<Rightarrow> bool" where
  "deliveries_ok out \<longleftrightarrow> (\<forall>i d. Deliver i d \<in> set out \<longrightarrow> ip_wf i \<and> d \<noteq> [])"

lemma quiet_deliveries: "quiet f \<Longrightarrow> f st = Some (out, st') \<Longrightarrow> deliveries_ok out"
  by (auto simp: quiet_def deliveries_ok_def)

lemma quiet_peerMessage: "ptp_kind msg \<noteq> PTP_DATA \<Longrightarrow> quiet (peerMessageReceived nd e a msg)"
  by (cases "ptp_kind msg") (simp_all add: peerMessageReceived_def quiet_rules)

lemma base_deliveries:
  assumes "parseBaseToPeerMessage d = Some msg"
  shows "baseMessageReceivedUdp nd e msg st = Some (out, st') \<Longrightarrow> deliveries_ok out"
    and "baseMessageReceivedTcp nd e msg st = Some (out, st') \<Longrightarrow> deliveries_ok out"
proof -
  have data: "deliveries_ok [Deliver (btp_source msg) (btp_data msg)]" if "btp_kind msg = BTP_DATA"
    using parseBaseToPeerMessage_source [OF assms that] parseBaseToPeerMessage_shape [of d] assms that
    by (auto simp: deliveries_ok_def)
  show "deliveries_ok out" if h: "baseMessageReceivedUdp nd e msg st = Some (out, st')"
  proof (cases "btp_kind msg = BTP_DATA")
    case True
    then show ?thesis using h data by (simp add: baseMessageReceivedUdp_def emit_def)
  next
    case False
    then have "quiet (baseMessageReceivedUdp nd e msg)"
      unfolding baseMessageReceivedUdp_def
      by (cases "btp_kind msg"; simp only: BaseToPeerMessageKind.case; intro quiet_rules; simp)
    then show ?thesis using h by (rule quiet_deliveries)
  qed
  show "deliveries_ok out" if h: "baseMessageReceivedTcp nd e msg st = Some (out, st')"
  proof (cases "btp_kind msg = BTP_DATA")
    case True
    then show ?thesis using h data by (auto simp: baseMessageReceivedTcp_def andThen_def update_def emit_def)
  next
    case False
    have "quiet (stateReceived msg)"
      by (auto simp: quiet_def stateReceived_def Let_def nop_def split: list.splits if_splits prod.splits)
    with False have "quiet (baseMessageReceivedTcp nd e msg)"
      unfolding baseMessageReceivedTcp_def
      by (cases "btp_kind msg"; simp only: BaseToPeerMessageKind.case; intro quiet_rules; simp)
    then show ?thesis using h by (rule quiet_deliveries)
  qed
qed


text \<open>The one-byte datagram that reaches the security layer as an empty frame.\<close>

definition fatal :: "ng_event \<Rightarrow> 'a ng_state_scheme \<Rightarrow> bool" where
  "fatal x st \<longleftrightarrow>
     (\<exists>a. a \<noteq> baseUdpAddress st \<and>
        (x = Udp a [] \<or> x = Udp a [PTP_value PTP_DATA] \<and> findPeerBySourceAddress a st \<noteq> None))"

lemma parse_data:
  assumes "parsePeerToPeerMessage c d = Some m" and "ptp_kind m = PTP_DATA"
  shows "d = PTP_value PTP_DATA # ptp_data m"
  using assms
  by (cases d) (auto simp: parsePeerToPeerMessage_def PeerToPeerMessage_of_def sv_index_def sv_substr_def Let_def
      bind_eq_Some_conv split: if_splits)

lemma peer_deliveries:
  assumes inv: "ng_inv nd st" and m: "parsePeerToPeerMessage (node_crypto nd) d = Some msg"
    and h: "peerMessageReceived nd e a msg st = Some (out, st')"
    and d: "d = [PTP_value PTP_DATA] \<Longrightarrow> findPeerBySourceAddress a st = None"
  shows "deliveries_ok out"
proof (cases "ptp_kind msg = PTP_DATA")
  case True
  note data = parse_data [OF m True]
  show ?thesis
  proof (cases "findPeerBySourceAddress a st")
    case None
    then show ?thesis using h True by (simp add: peerMessageReceived_def peerDataPacketReceived_def nop_def deliveries_ok_def)
  next
    case (Some p)
    have "p < length (heap st)" using Some inv by (simp add: findPeerBySourceAddress_def ng_inv_def sources_ok_table)
    then have "ip_wf (peer_id (deref st p))" using inv by (simp add: ng_inv_def)
    moreover have "ptp_data msg \<noteq> []" using data d Some by auto
    ultimately show ?thesis
      using h True Some by (auto simp: peerMessageReceived_def peerDataPacketReceived_def emit_def deliveries_ok_def)
  qed
next
  case False
  then show ?thesis using quiet_deliveries [OF quiet_peerMessage h] by simp
qed

lemma parse_kind_data: "parsePeerToPeerMessage c (d0 # r) = Some m \<Longrightarrow> d0 = 0 \<or> d0 = 1 \<Longrightarrow> ptp_kind m \<noteq> PTP_DATA"
  using parse_data [of c "d0 # r" m] by auto

lemma udp_deliveries:
  assumes inv: "ng_inv nd st" and h: "udpPacketReceived nd e a d st = Some (out, st')" and "\<not> fatal (Udp a d) st"
  shows "deliveries_ok out"
proof (cases "a = baseUdpAddress st")
  case True
  then obtain msg where "parseBaseToPeerMessage d = Some msg" "baseMessageReceivedUdp nd e msg st = Some (out, st')"
    using h by (auto simp: udpPacketReceived_def split: option.splits)
  then show ?thesis by (rule base_deliveries(1))
next
  case False
  then obtain d0 r where d: "d = d0 # r" using h udp_empty_fails by (cases d) fastforce+
  show ?thesis
  proof (cases "d0 = 0 \<or> d0 = 1")
    case True
    then have "out = []"
      using h False d by (auto simp: udpPacketReceived_def sv_index_def update_def nop_def split: if_splits)
    then show ?thesis by (simp add: deliveries_ok_def)
  next
    case no: False
    then obtain msg where "parsePeerToPeerMessage (node_crypto nd) d = Some msg"
      and "peerMessageReceived nd e a msg st = Some (out, st')"
      using h False d by (auto simp: udpPacketReceived_def sv_index_def split: option.splits)
    then show ?thesis using peer_deliveries [OF inv] assms(3) False by (auto simp: fatal_def)
  qed
qed


lemma worker_deliveries:
  assumes inv: "ng_inv nd st" and h: "workerStep nd e st = Some (out, st')"
  shows "deliveries_ok out"
proof (cases "workerQueue st")
  case Nil
  then show ?thesis using h by (simp add: workerStep_def nop_def deliveries_ok_def)
next
  case (Cons j q)
  show ?thesis
  proof (cases j)
    case Job_refresh
    then have "refresh nd e (st\<lparr>workerQueue := q\<rparr>) = Some (out, st')" using h Cons by (simp add: workerStep_def)
    then show ?thesis by (rule quiet_deliveries [OF quiet_refresh])
  next
    case (Job_peerMessage a d)
    have "job_wf j" using inv Cons by (simp add: ng_inv_def queue_wf_def)
    then have d: "d \<noteq> [PTP_value PTP_DATA]" using Job_peerMessage by auto
    obtain msg where m: "parsePeerToPeerMessage (node_crypto nd) d = Some msg"
      and r: "peerMessageReceived nd e a msg (st\<lparr>workerQueue := q\<rparr>) = Some (out, st')"
      using h Cons Job_peerMessage by (auto simp: workerStep_def split: option.splits)
    show ?thesis using d by (intro peer_deliveries [OF ng_inv_pop [OF inv Cons] m r]) simp
  qed
qed

lemma event_deliveries:
  assumes inv: "ng_inv nd st" and h: "ng_handle nd e x st = Some (out, st')" and "\<not> fatal x st"
  shows "deliveries_ok out"
proof (cases x)
  case (Upper i d)
  with h show ?thesis by (simp add: quiet_deliveries [OF quiet_onUpperLayerData_ng])
next
  case (Udp a d)
  with h assms(3) show ?thesis by (simp add: udp_deliveries [OF inv])
next
  case (Multicast a d)
  with h show ?thesis by (simp add: quiet_deliveries [OF quiet_multicast])
next
  case Worker
  with h show ?thesis by (simp add: worker_deliveries [OF inv])
next
  case Periodic
  with h show ?thesis by (simp add: quiet_deliveries [OF quiet_periodic])
next
  case (TcpError c)
  with h show ?thesis by (simp add: quiet_deliveries [OF quiet_baseTcpError])
next
  case (TcpData d)
  obtain msg where m: "parseBaseToPeerMessage d = Some msg" using parseBaseToPeerMessage_shape by blast
  then obtain out1 where "baseMessageReceivedTcp nd e msg (st\<lparr>lastBaseTcpMessage := now e\<rparr>) = Some (out1, st')" "out = out1"
    using h TcpData by (auto simp: baseTcpData_def andThen_def update_def split: option.splits)
  then show ?thesis using base_deliveries(2) [OF m] by blast
qed

lemma succeeds_socketEvent:
  assumes e: "ng_env nd e" and inv: "ng_inv nd st" and x: "event_ok x" and "\<not> fatal x st"
  shows "succeeds (ng_inv nd) (socketEvent False nd e x st)"
proof -
  have "d \<noteq> [] \<or> a = baseUdpAddress st" if "x = Udp a d" for a d
    using assms(4) that by (auto simp: fatal_def)
  then obtain out st1 where h: "ng_handle nd e x st = Some (out, st1)" and i: "ng_inv nd st1"
    using ng_handle_ok [OF e x inv] by (auto simp: succeeds_def)
  have "deliveries_ok out" by (rule event_deliveries [OF inv h assms(4)])
  then show ?thesis
    using i by (auto simp: socketEvent_def h deliveries_ok_def intro!: succeeds_forEach ok_deliverUp [OF e])
qed

lemma fatal_fails:
  assumes inv: "ng_inv nd st" and "fatal x st"
  shows "socketEvent False nd e x st = None"
proof -
  obtain a where a: "a \<noteq> baseUdpAddress st"
    and "x = Udp a [] \<or> x = Udp a [PTP_value PTP_DATA] \<and> findPeerBySourceAddress a st \<noteq> None"
    using assms(2) by (auto simp: fatal_def)
  then consider "x = Udp a []" | p where "x = Udp a [PTP_value PTP_DATA]" "findPeerBySourceAddress a st = Some p" by auto
  then show ?thesis
  proof cases
    case 1
    then show ?thesis using udp_empty_fails [OF a] by (simp add: socketEvent_def)
  next
    case 2
    then have "ng_handle nd e x st = Some ([Deliver (peer_id (deref st p)) []], st)"
      using direct_data_delivered [OF 2(2) a, of nd e "[]"] by simp
    then show ?thesis
      by (simp add: socketEvent_def deliverUp_def withFrames_def onLowerLayerData_sec_Nil andThen_def)
  qed
qed

section \<open>Runs of the stack\<close>

datatype stack_event = TunPacket "HusarnetAddress \<Rightarrow> HusarnetAddress list" bytes | SocketEvent ng_event

text \<open>
  The tunnel interface reads at most 4096 bytes; the destinations of a multicast group are addresses
  of the whitelist.  The data from above the socket comes through the stack.
\<close>

fun stack_event_ok :: "stack_event \<Rightarrow> bool" where
  "stack_event_ok (TunPacket dests packet) = (length packet \<le> 4096 \<and> (\<forall>g. list_all ip_wf (dests g)))"
| "stack_event_ok (SocketEvent x) = (\<forall>i d. x \<noteq> Upper i d)"

fun stack_handle :: "node \<Rightarrow> env \<Rightarrow> stack_event \<Rightarrow> ng_state action" where
  "stack_handle nd e (TunPacket dests packet) = tunData False nd e dests packet"
| "stack_handle nd e (SocketEvent x) = socketEvent False nd e x"

text \<open>The whitelist may change between two events.\<close>

inductive stack_reachable :: "node \<Rightarrow> ng_state \<Rightarrow> bool" for nd where
  stack_start: "NgSocket nd q listen (SecurityLayer nd k) = Some st \<Longrightarrow> stack_reachable nd st"
| stack_step: "stack_reachable nd st \<Longrightarrow> ng_env nd e \<Longrightarrow> stack_event_ok x \<Longrightarrow>
    stack_handle (nd\<lparr>isPeerAllowed := allowed\<rparr>) e x st = Some (out, st') \<Longrightarrow> stack_reachable nd st'"

lemma ng_inv_policy [simp]: "ng_inv (nd\<lparr>isPeerAllowed := allowed\<rparr>) st = ng_inv nd st"
  by (simp add: ng_inv_def sec_inv_policy)

lemma ng_env_policy [simp]: "ng_env (nd\<lparr>isPeerAllowed := allowed\<rparr>) e = ng_env nd e"
  by (simp add: ng_env_def node_wf_def)

lemma stack_handle_ok:
  assumes "ng_env nd e" and "stack_event_ok x" and "ng_inv nd st" and "\<And>y. x = SocketEvent y \<Longrightarrow> \<not> fatal y st"
  shows "succeeds (ng_inv nd) (stack_handle nd e x st)"
proof (cases x)
  case (TunPacket dests packet)
  then show ?thesis using assms by (auto intro!: okD [OF ok_tunData])
next
  case (SocketEvent y)
  then have "event_ok y" using assms(2) by (cases y) auto
  then show ?thesis using SocketEvent assms by (auto intro!: succeeds_socketEvent)
qed

lemma stack_reachable_inv: "stack_reachable nd st \<Longrightarrow> ng_inv nd st"
proof (induction rule: stack_reachable.induct)
  case (stack_start q listen k st)
  then show ?case by (rule NgSocket_inv)
next
  case (stack_step st e x allowed out st')
  let ?nd = "nd\<lparr>isPeerAllowed := allowed\<rparr>"
  have "\<not> fatal y st" if "x = SocketEvent y" for y
    using fatal_fails [of ?nd st y e] stack_step that by auto
  then have "succeeds (ng_inv ?nd) (stack_handle ?nd e x st)"
    using stack_step by (intro stack_handle_ok) simp_all
  then show ?case using stack_step by (simp add: succeeds_def)
qed


section \<open>The layers above and relations between heaps\<close>

context heap_relation
begin

lemma resultI: "keeps st st' \<Longrightarrow> result keeps st (Some (out, st'))" "result keeps st None"
  by (simp_all add: result_def)

lemma result_if: "(c \<Longrightarrow> result keeps st a) \<Longrightarrow> (\<not> c \<Longrightarrow> result keeps st b) \<Longrightarrow> result keeps st (if c then a else b)"
  by simp

lemma result_trans: "keeps st st1 \<Longrightarrow> result keeps st1 r \<Longrightarrow> result keeps st r"
  unfolding result_def using keeps_trans by blast

lemma result_hello: "keeps st st' \<Longrightarrow> result keeps st (Option.bind r (\<lambda>f. Some (g f, st')))"
  "keeps st st' \<Longrightarrow> result keeps st (map_option (\<lambda>f. (g f, st')) r)"
  by (auto simp: result_def bind_eq_Some_conv)

lemma keeps_then_modify:
  assumes "keeps st st'" "\<And>x. targetAddress (f x) = targetAddress x" "\<And>x. connected (f x) \<Longrightarrow> connected x"
    "\<And>x. peer_id (f x) = peer_id x"
  shows "keeps st (modify p f st')"
  using keeps_trans [OF assms(1) keeps_modify [OF assms(2-4)]] by simp

lemma result_with_peer:
  assumes "\<And>st. result keeps st (f st)" and "\<And>p st. result keeps st (g p st)"
  shows "result keeps st (case getOrCreatePeer nd i st of (None, st) \<Rightarrow> f st | (Some p, st) \<Rightarrow> g p st)"
proof -
  obtain r st1 where r: "getOrCreatePeer nd i st = (r, st1)" by (cases "getOrCreatePeer nd i st")
  have "result keeps st1 (f st1)" "result keeps st1 (g p st1)" for p by (rule assms)+
  then show ?thesis by (cases r) (simp_all add: r result_trans [OF getOrCreatePeer_keeps [OF r]])
qed

lemma result_doSend: "result keeps st (doSendDataPacket nd p d st)"
  by (auto simp: result_def dest!: doSendDataPacket_Some)

lemma exchangeKeys_keeps:
  assumes "exchangeKeys nd i pk fl p st = (r, st')"
  shows "keeps st st'"
proof -
  obtain rx tx where "st' = modify p (\<lambda>x. x\<lparr>rxKey := rx, txKey := tx\<rparr>) (modify p (peer_flags_update (\<lambda>_. fl)) st)"
    using assms by (auto simp: exchangeKeys_def Let_def split: prod.splits if_splits)
  then show ?thesis by (auto intro!: keeps_then_modify)
qed

lemma finishNegotiation_keeps:
  assumes "finishNegotiation nd p st = Some (out, st')"
  shows "keeps st st'"
proof -
  obtain st1 where f: "flushQueue nd p (packetQueue (deref st p)) (modify p (negotiated_update (\<lambda>_. True)) st) = Some (out, st1)"
    and st': "st' = modify p (packetQueue_update (\<lambda>_. [])) st1"
    using assms by (auto simp: finishNegotiation_def bind_eq_Some_conv)
  have "keeps st st1" using flushQueue_Some [OF f] by (auto intro!: keeps_modify)
  then show ?thesis unfolding st' by (rule keeps_then_modify) simp_all
qed

lemma hello_effect_keeps: "result keeps st (hello_effect nd i d n p st)"
proof -
  obtain r st1 where x: "exchangeKeys nd i (chunk 33 32 d) (hello_flags d) p st = (r, st1)"
    by (cases "exchangeKeys nd i (chunk 33 32 d) (hello_flags d) p st")
  note p1 = exchangeKeys_keeps [OF x]
  have "result keeps st (case finishNegotiation nd p st1 of None \<Rightarrow> None
      | Some (out, st) \<Rightarrow>
          if n = 2 then map_option (\<lambda>f. (out @ [f], st\<lparr>helloseq := helloseq st + 1\<rparr>))
            (sendHelloPacket nd p 3 (hello_yourseq d) (st\<lparr>helloseq := helloseq st + 1\<rparr>))
          else Some (out, st\<lparr>helloseq := helloseq st + 1\<rparr>))"
  proof (cases "finishNegotiation nd p st1")
    case (Some y)
    obtain out st2 where y: "y = (out, st2)" by (cases y)
    then have "keeps st st2" using keeps_trans [OF p1 finishNegotiation_keeps] Some by blast
    then show ?thesis using Some y by (auto intro!: resultI result_hello)
  qed (simp add: resultI)
  then show ?thesis
    unfolding hello_effect_def x prod.case Let_def
    using p1 by (intro result_if resultI result_hello) simp_all
qed

lemma handleHelloPacket_keeps: "result keeps st (handleHelloPacket nd i d n st)"
  unfolding handleHelloPacket_eq
  by (intro result_if result_with_peer hello_effect_keeps resultI) simp_all

lemma handleDataPacket_keeps: "result keeps st (handleDataPacket nd t i d st)"
  unfolding handleDataPacket_def Let_def
  by (rule result_if, simp add: resultI, rule result_with_peer, simp add: resultI)
    (auto intro!: resultI result_hello keeps_modify split: option.split)

lemma onLowerLayerData_sec_keeps: "result keeps st (onLowerLayerData_sec nd t i d st)"
proof -
  have "keeps st (handleHeartbeatReply nd t i ident st)" for ident
    using getOrCreatePeer_keeps [of i st]
    by (auto simp: handleHeartbeatReply_def intro!: keeps_then_modify split: prod.split option.split)
  then show ?thesis
    using handleHelloPacket_keeps handleDataPacket_keeps
    by (auto simp: onLowerLayerData_sec_def sv_index_def intro!: resultI)
qed

lemma onUpperLayerData_sec_keeps: "result keeps st (onUpperLayerData_sec nd i d st)"
  unfolding onUpperLayerData_sec_def Let_def
  by (rule result_with_peer, simp add: resultI)
    (auto intro!: result_hello result_doSend keeps_then_modify)

lemma withFrames_keeps:
  assumes "\<And>st. result keeps st (h st)" and "\<And>f. preserves keeps (k f)"
  shows "preserves keeps (withFrames h k)"
proof (rule preservesI)
  fix st :: "'a ng_state_scheme" and out st' assume w: "withFrames h k st = Some (out, st')"
  then obtain fs st1 where "h st = Some (fs, st1)" and f: "forEach fs k st1 = Some (out, st')"
    by (auto simp: withFrames_def split: option.splits)
  then have "keeps st st1" using assms(1) by (simp add: result_def)
  moreover have "keeps st1 st'" using preservesD [OF preserves_forEach f] assms(2) by blast
  ultimately show "keeps st st'" by (rule keeps_trans)
qed

lemma comp_keeps: "result keeps st (onUpperLayerData_comp z nd i d st)" "result keeps st (onLowerLayerData_comp z nd i d st)"
  using getPeer_keeps [of i st]
  by (auto simp: onUpperLayerData_comp_def onLowerLayerData_comp_def shouldProceed_def result_def split: if_splits option.splits prod.splits)

lemma tunConsumer_keeps: "preserves keeps (tunConsumer f)"
  by (cases f) (simp_all add: preserves_basic)

lemma multicastConsumer_keeps: "preserves keeps (multicastConsumer nd f)"
  by (cases f) (simp_all add: preserves_basic preserves_forEach tunConsumer_keeps)

lemma securityOut_keeps: "preserves keeps (securityOut z nd e f)"
  unfolding onUpperLayerData_ng_def [abs_def]
  by (cases f) (auto simp: onUpperLayerData_ng_def [abs_def]
      intro!: withFrames_keeps comp_keeps multicastConsumer_keeps preserves_getOrCreatePeer sendDataToPeer_keeps)

lemma securityConsumer_keeps: "preserves keeps (securityConsumer z nd e f)"
  by (cases f) (auto intro!: withFrames_keeps onUpperLayerData_sec_keeps securityOut_keeps preserves_rules)

lemma compressionConsumer_keeps: "preserves keeps (compressionConsumer z nd e f)"
  by (cases f) (auto intro!: withFrames_keeps comp_keeps securityConsumer_keeps preserves_rules)

lemma tunData_keeps: "preserves keeps (tunData z nd e dests packet)"
  unfolding tunData_def by (intro preserves_forEach compressionConsumer_keeps)

lemma deliverUp_keeps: "preserves keeps (deliverUp z nd e x)"
  unfolding deliverUp_def
  by (cases x) (auto intro!: withFrames_keeps onLowerLayerData_sec_keeps securityOut_keeps preserves_basic)

lemma deliverAll_keeps: "forEach out1 (deliverUp z nd e) st1 = Some (out, st') \<Longrightarrow> keeps st1 st'"
  by (erule preservesD [OF preserves_forEach, rotated]) (rule deliverUp_keeps)

end

context identity_relation
begin

lemma stack_handle_keeps: "stack_handle nd e x st = Some (out, st') \<Longrightarrow> keeps st st'"
  using preservesD [OF ng_handle_keeps, of e] preservesD [OF tunData_keeps] deliverAll_keeps keeps_trans
  by (cases x) (fastforce simp: socketEvent_def split: option.splits)+

end

text \<open>The peers that are new in a heap were allowed.\<close>

definition admitted :: "(HusarnetAddress \<Rightarrow> bool) \<Rightarrow> peer list \<Rightarrow> peer list \<Rightarrow> bool" where
  "admitted allowed h h' \<longleftrightarrow> (\<exists>new. map peer_id h' = map peer_id h @ new \<and> list_all allowed new)"

lemma peer_ids_update: "(\<And>x. peer_id (f x) = peer_id x) \<Longrightarrow> map peer_id (h[p := f (h ! p)]) = map peer_id h"
  by (rule nth_equalityI) (simp_all add: nth_update_fun)

interpretation admission: identity_relation nd "admitted (isPeerAllowed nd)" for nd
proof
  fix h h' h'' assume "admitted (isPeerAllowed nd) h h'" "admitted (isPeerAllowed nd) h' h''"
  then show "admitted (isPeerAllowed nd) h h''" unfolding admitted_def by auto
qed (simp_all add: admitted_def peer_ids_update)

text \<open>So a path opened by an event at the socket is opened by its handler.\<close>

lemma socketEvent_new_path:
  assumes h: "socketEvent z nd e x st = Some (out, st')" and p: "p < length (heap st)" and new: "new_path st st' p"
  obtains out1 st1 where "ng_handle nd e x st = Some (out1, st1)" "forEach out1 (deliverUp z nd e) st1 = Some (out, st')"
    "\<not> no_new_path st st1"
proof -
  obtain out1 st1 where o: "ng_handle nd e x st = Some (out1, st1)" "forEach out1 (deliverUp z nd e) st1 = Some (out, st')"
    using h by (auto simp: socketEvent_def split: option.splits)
  have "no_new_path st1 st'" by (rule path.deliverAll_keeps [OF o(2)])
  then have "\<not> no_new_path st st1" using no_new_pathD [OF path.R_trans p] new by blast
  with o that show ?thesis by blast
qed

end
