(* ===== verification/StackProps.thy ===== *)
theory StackProps
  imports Stack
begin

text \<open>
  The properties of the running stack, over the states it reaches, with a concrete run of two
  nodes for the witnesses.
\<close>

section \<open>A concrete run\<close>

fun stack_exec :: "node \<Rightarrow> env \<Rightarrow> stack_event list \<Rightarrow> ng_state action" where
  "stack_exec nd e [] = nop"
| "stack_exec nd e (x # xs) = andThen (stack_handle nd e x) (stack_exec nd e xs)"

lemma stack_exec_reachable:
  assumes "ng_env nd e"
  shows "stack_exec nd e xs st = Some (out, st') \<Longrightarrow> list_all stack_event_ok xs \<Longrightarrow> stack_reachable nd st \<Longrightarrow> stack_reachable nd st'"
proof (induction xs arbitrary: st out)
  case (Cons x xs)
  then obtain out1 st1 out2 where s: "stack_handle nd e x st = Some (out1, st1)" "stack_exec nd e xs st1 = Some (out2, st')"
    by (auto simp: andThen_def split: option.splits)
  then have "stack_reachable nd st1"
    using stack_step [of nd st e x "isPeerAllowed nd"] Cons.prems(2,3) assms by simp
  then show ?case using Cons.IH [OF s(2)] Cons.prems(2) by simp
qed (simp add: nop_def)

definition toy_env :: env where
  "toy_env = \<lparr>now = 100000, rand_value = 0, getLocalAddresses = [], getBaseAddresses = [wildcard],
     newConnection = Some 1, husarnet_user_agent = []\<rparr>"

lemma toy_ng_env: "ng_env (toy_node 1) toy_env" "ng_env (toy_node 2) toy_env"
  using toy_crypto_sizes toy_node_wf by (auto simp: ng_env_def toy_env_def toy_node_def)

definition toy_socket :: "nat \<Rightarrow> ng_state" where
  "toy_socket k = the (NgSocket (toy_node k) 4 (\<lambda>_. True) (SecurityLayer (toy_node k) 0))"

lemma toy_socket_reachable: "stack_reachable (toy_node k) (toy_socket k)"
proof -
  have "bindPort (\<lambda>_. True) 5582 = Some 5582" by (simp add: bindPort.simps)
  then have "NgSocket (toy_node k) 4 (\<lambda>_. True) (SecurityLayer (toy_node k) 0) = Some (toy_socket k)"
    by (simp add: NgSocket_def toy_socket_def toy_node_def)
  then show ?thesis by (rule stack_start)
qed

text \<open>Node 1 reads a packet for node 2 from its interface, and the hello reply of node 2 arrives.\<close>

definition toy_packet :: bytes where
  "toy_packet = [0x60, 0, 0, 0, 0, 1, 17, 64] @ ip_data (deviceId (myIdentity (toy_node 1))) @
     ip_data (deviceId (myIdentity (toy_node 2))) @ [9]"

definition toy_reply :: bytes where
  "toy_reply = the (serializePeerToPeerMessage (toy_node 2) ((PeerToPeerMessage_of PTP_HELLO_REPLY)
     \<lparr>ptp_yourId := deviceId (myIdentity (toy_node 1)), ptp_helloCookie := replicate 16 97\<rparr>))"

definition toy_peer_address :: inetaddress where
  "toy_peer_address = InetAddress (IpAddress (replicate 16 3)) 5582"

definition toy_events :: "stack_event list" where
  "toy_events = [TunPacket (\<lambda>_. []) toy_packet, SocketEvent (Udp toy_peer_address toy_reply)]"

definition toy_waiting :: ng_state where
  "toy_waiting = snd (the (stack_exec (toy_node 1) toy_env toy_events (toy_socket 1)))"

lemma toy_run:
  "(case stack_exec (toy_node 1) toy_env toy_events (toy_socket 1) of
      None \<Rightarrow> False
    | Some (out, st) \<Rightarrow>
        (case stack_handle (toy_node 1) toy_env (SocketEvent Worker) st of
           None \<Rightarrow> False
         | Some (out', st') \<Rightarrow> 0 < length (heap st) \<and> new_path st st' 0 \<and>
             fst (getPeer (toy_node 1) (deviceId (myIdentity (toy_node 2))) st) = Some 0 \<and>
             reestablishing (deref st 0) \<and> length (helloCookie (deref st 0)) = 16))"
  by code_simp

lemma toy_waiting_run:
  "stack_exec (toy_node 1) toy_env toy_events (toy_socket 1) \<noteq> None"
  "0 < length (heap toy_waiting)"
  "fst (getPeer (toy_node 1) (deviceId (myIdentity (toy_node 2))) toy_waiting) = Some 0"
  "reestablishing (deref toy_waiting 0)" "length (helloCookie (deref toy_waiting 0)) = 16"
  using toy_run by (auto simp: toy_waiting_def split: option.splits)

lemma toy_waiting_reachable: "stack_reachable (toy_node 1) toy_waiting"
proof -
  obtain out where "stack_exec (toy_node 1) toy_env toy_events (toy_socket 1) = Some (out, toy_waiting)"
    using toy_waiting_run(1) by (auto simp: toy_waiting_def)
  moreover have "length toy_packet \<le> 4096" by code_simp
  ultimately show ?thesis
    using stack_exec_reachable [OF toy_ng_env(1), of toy_events] toy_socket_reachable by (auto simp: toy_events_def)
qed

section \<open>Properties\<close>

text \<open>C7: In every state the stack reaches: the peer table leads to the peer with that address; the
  table of source addresses maps an address to a peer exactly when it is in that peer's own set,
  so no address belongs to two peers, and no peer has more than five; the counter of waiting
  packets is their number and at most the limit, and a negotiated peer has none waiting; the
  worker queue is within its size; the cookie of the base server is absent or has 16 bytes.\<close>

theorem stack_invariant:
  assumes "stack_reachable nd st"
  shows "(\<forall>i p. map_of (peers st) i = Some p \<longrightarrow> p < length (heap st) \<and> peer_id (deref st p) = i) \<and>
    (\<forall>a p. findPeerBySourceAddress a st = Some p \<longleftrightarrow>
        p < length (heap st) \<and> a \<in> set (sourceAddresses (deref st p))) \<and>
    (\<forall>x \<in> set (heap st). distinct (sourceAddresses x) \<and> length (sourceAddresses x) \<le> MAX_SOURCE_ADDRESSES \<and>
        (negotiated x \<longrightarrow> packetQueue x = [])) \<and>
    queuedPackets st = sum_list (map (\<lambda>x. int (length (packetQueue x))) (heap st)) \<and>
    queuedPackets st \<le> MAX_QUEUED_PACKETS \<and>
    length (workerQueue st) \<le> workerQueueSize st \<and> (cookie st = [] \<or> length (cookie st) = 16)"
  using stack_reachable_inv [OF assms]
  by (simp add: ng_inv_def sec_inv_def pc_inv_def sources_ok_def queue_wf_def findPeerBySourceAddress_def waiting_def
      queue_ok_def list_all_iff)

theorem stack_invariant_witness:
  "queuedPackets toy_waiting = sum_list (map (\<lambda>x. int (length (packetQueue x))) (heap toy_waiting)) \<and>
   heap toy_waiting \<noteq> [] \<and> length (workerQueue toy_waiting) \<le> workerQueueSize toy_waiting"
  using stack_invariant [OF toy_waiting_reachable] toy_waiting_run(2) by auto

text \<open>C8: In a reachable state, with a base server configured, every event returns (no failed
  assertion, no out-of-range access, no division by zero) except for two datagrams that do not
  come from the base server: the empty one, and the single byte of a data message without data
  from an address in the table of source addresses.  Packets from the interface always return.\<close>

theorem stack_total:
  assumes "stack_reachable nd st" and "ng_env nd e" and "stack_event_ok x"
  shows "stack_handle nd e x st = None \<longleftrightarrow>
    (\<exists>a d. x = SocketEvent (Udp a d) \<and> a \<noteq> baseUdpAddress st \<and>
       (d = [] \<or> d = [PTP_value PTP_DATA] \<and> findPeerBySourceAddress a st \<noteq> None))"
proof -
  have inv: "ng_inv nd st" by (rule stack_reachable_inv [OF assms(1)])
  have "stack_handle nd e x st = None \<longleftrightarrow> (\<exists>y. x = SocketEvent y \<and> fatal y st)"
    using stack_handle_ok [OF assms(2,3) inv] fatal_fails [OF inv] by (fastforce simp: succeeds_def)
  then show ?thesis by (auto simp: fatal_def)
qed

theorem stack_total_witness:
  "stack_handle (toy_node 1) toy_env (SocketEvent (TcpData [])) toy_waiting \<noteq> None"
  using stack_total [OF toy_waiting_reachable toy_ng_env(1), of "SocketEvent (TcpData [])"] by simp

text \<open>C5: A step of the socket makes a peer connected, or changes the address its data is sent to,
  only by taking from the worker queue a hello reply that is signed by the key behind that peer's
  address, is addressed to this node and carries the cookie of the attempt under way; the new
  address is the one the reply came from.\<close>

theorem path_opened_by_signed_reply:
  assumes "stack_reachable nd st" and "stack_handle nd e x st = Some (out, st')"
    and "p < length (heap st)" and "new_path st st' p"
  shows "\<exists>a d q. x = SocketEvent Worker \<and> workerQueue st = Job_peerMessage a d # q \<and> targetAddress (deref st' p) = a \<and>
    length d = 145 \<and> d ! 0 = PTP_value PTP_HELLO_REPLY \<and>
    pubkeyToDeviceId (node_crypto nd) (chunk 17 32 d) = peer_id (deref st p) \<and>
    verifySignature (node_crypto nd) (take 81 d) (str ''ng-p2p-msg'') (chunk 17 32 d) (chunk 81 64 d) \<and>
    chunk 49 16 (take 81 d) = ip_data (deviceId (myIdentity nd)) \<and>
    reestablishing (deref st p) \<and> chunk 65 16 (take 81 d) = helloCookie (deref st p)"
proof -
  have inv: "ng_inv nd st" by (rule stack_reachable_inv [OF assms(1)])
  have "\<not> no_new_path st st'" using no_new_pathD [OF _ assms(3)] assms(4) by blast
  moreover have "no_new_path st st'" if "tunData False nd e dests packet st = Some (out, st')" for dests packet
    using that by (rule preservesD [OF path.tunData_keeps])
  ultimately obtain y where y: "x = SocketEvent y" "socketEvent False nd e y st = Some (out, st')"
    using assms(2) by (cases x) auto
  obtain out1 st1 where h: "ng_handle nd e y st = Some (out1, st1)" "forEach out1 (deliverUp False nd e) st1 = Some (out, st')"
    and new: "\<not> no_new_path st st1"
    by (rule socketEvent_new_path [OF y(2) assms(3,4)])
  have w: "y = Worker" by (rule handler_new_path [OF h(1) new])
  then have "workerStep nd e st = Some (out1, st1)" using h(1) by simp
  then obtain a d q msg where q: "workerQueue st = Job_peerMessage a d # q"
    and m: "parsePeerToPeerMessage (node_crypto nd) d = Some msg" "ptp_kind msg = PTP_HELLO_REPLY"
    and r: "helloReplyReceived nd a msg (st\<lparr>workerQueue := q\<rparr>) = Some (out1, st1)"
    using new by (rule worker_new_path)
  have st': "st' = st1" using h(2) helloReply_out [OF r] by (simp add: nop_def)
  have "new_path (st\<lparr>workerQueue := q\<rparr>) st1 p" using assms(4) st' by (simp add: new_path_def)
  note n = helloReply_new_path [OF ng_inv_pop [OF inv q] r _ this]
  show ?thesis
    using y w q n st' assms(3) parsePeerToPeerMessage_authentic [OF m(1)] m(2)
    by (intro exI [of _ a] exI [of _ d] exI [of _ q]) simp
qed

theorem path_opened_by_signed_reply_witness:
  "\<exists>a d q. workerQueue toy_waiting = Job_peerMessage a d # q \<and> length d = 145 \<and>
     chunk 65 16 (take 81 d) = helloCookie (deref toy_waiting 0)"
proof -
  obtain out st' where h: "stack_handle (toy_node 1) toy_env (SocketEvent Worker) toy_waiting = Some (out, st')"
    "new_path toy_waiting st' 0"
    using toy_waiting_run(1) toy_run by (auto simp: toy_waiting_def split: option.splits)
  then show ?thesis
    using path_opened_by_signed_reply [OF toy_waiting_reachable h(1) _ h(2)] toy_waiting_run(2) by auto
qed

text \<open>C11: Data for a peer goes directly to its target address when the peer is connected; otherwise
  it is handed to the base server, over UDP while that path is confirmed and over TCP if not,
  and hello messages may precede it.  A node that has the sender's source address in its table
  delivers a direct packet upwards under the sender's address, unchanged.\<close>

theorem data_routing:
  assumes "stack_reachable nd st" and "ng_env nd e" and "p < length (heap st)"
  shows "(\<exists>hellos infos st'. sendDataToPeer nd e p d st = Some
      ((if connected (deref st p) then [UdpSend (targetAddress (deref st p)) (PTP_value PTP_DATA # d)]
        else hellos @ relay nd e st (peer_id (deref st p)) d) @ infos, st') \<and>
     list_all is_hello hellos \<and> (\<forall>x \<in> set infos. \<exists>c y. x = TcpWrite c y)) \<and>
    (\<forall>nd2 e2 st2 a q. findPeerBySourceAddress a st2 = Some q \<and> a \<noteq> baseUdpAddress (st2 :: ng_state) \<longrightarrow>
      udpPacketReceived nd2 e2 a (PTP_value PTP_DATA # d) st2 = Some ([Deliver (peer_id (deref st2 q)) d], st2))"
  using sendData_routes [OF assms(2) stack_reachable_inv [OF assms(1)] assms(3)] direct_data_delivered by blast

theorem data_routing_witness:
  "\<exists>hellos infos st'. sendDataToPeer (toy_node 1) toy_env 0 [7] toy_waiting = Some
      ((if connected (deref toy_waiting 0) then [UdpSend (targetAddress (deref toy_waiting 0)) [2, 7]]
        else hellos @ relay (toy_node 1) toy_env toy_waiting (peer_id (deref toy_waiting 0)) [7]) @ infos, st') \<and>
     list_all is_hello hellos"
proof -
  have "0 < length (heap toy_waiting)" by (rule toy_waiting_run(2))
  from data_routing [OF toy_waiting_reachable toy_ng_env(1) this, of "[7]"] show ?thesis by auto
qed

text \<open>C6: A hello exchange opens the direct path.  If a node waits for a peer's reply and the peer
  accepts the node, then the hello is answered, the peer has learnt the node's source address
  for the node's own identity, and the reply makes the peer connected at the address it came from.\<close>

theorem hello_exchange_connects:
  assumes a: "stack_reachable ndA stA" "node_wf ndA" and b: "stack_reachable ndB stB" "ng_env ndB eB"
    and c: "node_crypto ndB = node_crypto ndA" "crypto_laws (node_crypto ndA)" "crypto_sizes (node_crypto ndA)"
    and p: "getPeer ndA (deviceId (myIdentity ndB)) stA = (Some p, stA1)" "reestablishing (deref stA p)"
      "length (helloCookie (deref stA p)) = 16"
    and q: "getOrCreatePeer ndB (deviceId (myIdentity ndA)) stB = (Some q, stB1)"
  shows "\<exists>hello mh reply mr out stB' stA'.
    serializePeerToPeerMessage ndA ((PeerToPeerMessage_of PTP_HELLO)\<lparr>ptp_yourId := deviceId (myIdentity ndB),
      ptp_helloCookie := helloCookie (deref stA p)\<rparr>) = Some hello \<and>
    parsePeerToPeerMessage (node_crypto ndB) hello = Some mh \<and>
    peerMessageReceived ndB eB srcA mh stB = Some (out @ [UdpSend srcA reply], stB') \<and>
    findPeerBySourceAddress srcA stB' = Some q \<and> peer_id (deref stB' q) = deviceId (myIdentity ndA) \<and>
    parsePeerToPeerMessage (node_crypto ndA) reply = Some mr \<and>
    peerMessageReceived ndA eA srcB mr stA = Some ([], stA') \<and>
    connected (deref stA' p) \<and> targetAddress (deref stA' p) = srcB \<and> \<not> reestablishing (deref stA' p)"
proof -
  let ?A = "deviceId (myIdentity ndA)" and ?B = "deviceId (myIdentity ndB)" and ?ck = "helloCookie (deref stA p)"
  have b': "node_wf ndB" "crypto_laws (node_crypto ndB)" "crypto_sizes (node_crypto ndB)" using b c by (simp_all add: ng_env_def)
  have wf: "ip_wf ?A" "ip_wf ?B" using node_wf_ip(1) a(2) b'(1,3) c(3) by auto
  obtain hello where h: "serializePeerToPeerMessage ndA ((PeerToPeerMessage_of PTP_HELLO)\<lparr>ptp_yourId := ?B, ptp_helloCookie := ?ck\<rparr>) = Some hello"
    "parsePeerToPeerMessage (node_crypto ndA) hello =
      Some ((PeerToPeerMessage_of PTP_HELLO)\<lparr>ptp_myId := ?A, ptp_yourId := ?B, ptp_helloCookie := ?ck\<rparr>)"
    using ptp_hello_roundtrip [of PTP_HELLO ndA ?B ?ck] c(2,3) a(2) wf(2) p(3) by blast
  obtain reply where r: "serializePeerToPeerMessage ndB ((PeerToPeerMessage_of PTP_HELLO_REPLY)\<lparr>ptp_yourId := ?A, ptp_helloCookie := ?ck\<rparr>) = Some reply"
    "parsePeerToPeerMessage (node_crypto ndB) reply =
      Some ((PeerToPeerMessage_of PTP_HELLO_REPLY)\<lparr>ptp_myId := ?B, ptp_yourId := ?A, ptp_helloCookie := ?ck\<rparr>)"
    using ptp_hello_roundtrip [of PTP_HELLO_REPLY ndB ?A ?ck] b' wf(1) p(3) by blast
  obtain out stB' where ans: "peerMessageReceived ndB eB srcA ((PeerToPeerMessage_of PTP_HELLO)
      \<lparr>ptp_myId := ?A, ptp_yourId := ?B, ptp_helloCookie := ?ck\<rparr>) stB = Some (out @ [UdpSend srcA reply], stB')"
    "findPeerBySourceAddress srcA stB' = Some q" "peer_id (deref stB' q) = ?A"
    using hello_answered [OF b(2) stack_reachable_inv [OF b(1)] wf(1) p(3) q r(1)] by blast
  obtain stA' where con: "peerMessageReceived ndA eA srcB ((PeerToPeerMessage_of PTP_HELLO_REPLY)
      \<lparr>ptp_myId := ?B, ptp_yourId := ?A, ptp_helloCookie := ?ck\<rparr>) stA = Some ([], stA')"
    "connected (deref stA' p)" "targetAddress (deref stA' p) = srcB" "\<not> reestablishing (deref stA' p)"
    using reply_connects [OF stack_reachable_inv [OF a(1)] p(1,2) refl] by blast
  show ?thesis
    by (intro exI conjI; rule h(1) h(2) [folded c(1)] ans r(2) [unfolded c(1)] con)
qed


theorem hello_exchange_connects_witness:
  "\<exists>mh reply mr out stB' stA'.
    peerMessageReceived (toy_node 2) toy_env toy_peer_address mh (toy_socket 2) = Some (out @ [UdpSend toy_peer_address reply], stB') \<and>
    findPeerBySourceAddress toy_peer_address stB' = Some 0 \<and>
    parsePeerToPeerMessage toy_crypto reply = Some mr \<and>
    peerMessageReceived (toy_node 1) toy_env toy_peer_address mr toy_waiting = Some ([], stA') \<and>
    connected (deref stA' 0)"
proof -
  have c: "node_crypto (toy_node k) = toy_crypto" for k by (simp add: toy_node_def)
  obtain st1 where p: "getPeer (toy_node 1) (deviceId (myIdentity (toy_node 2))) toy_waiting = (Some 0, st1)"
    using toy_waiting_run(3) by (cases "getPeer (toy_node 1) (deviceId (myIdentity (toy_node 2))) toy_waiting") auto
  have "fst (getOrCreatePeer (toy_node 2) (deviceId (myIdentity (toy_node 1))) (toy_socket 2)) = Some 0" by code_simp
  then obtain st2 where q: "getOrCreatePeer (toy_node 2) (deviceId (myIdentity (toy_node 1))) (toy_socket 2) = (Some 0, st2)"
    by (cases "getOrCreatePeer (toy_node 2) (deviceId (myIdentity (toy_node 1))) (toy_socket 2)") auto
  from hello_exchange_connects [OF toy_waiting_reachable toy_node_wf(1) toy_socket_reachable toy_ng_env(2) _ _ _
      p toy_waiting_run(4,5) q, where srcA = toy_peer_address and srcB = toy_peer_address and eA = toy_env]
  show ?thesis unfolding c using toy_crypto_laws toy_crypto_sizes by blast
qed

text \<open>The keep-alive for the base server's transient ports is never sent.  Every packet of
  \<open>sendNatInitToBase\<close> is a plain NAT_INIT message to one of the announced addresses, although the
  transient port is advanced as if it had been used.\<close>

theorem nat_init_transient_never_sent:
  assumes "stack_reachable nd st" and "ng_env nd e"
  shows "\<exists>out st'. sendNatInitToBase nd e st = Some (out, st') \<and>
    (\<forall>x \<in> set out. \<exists>a \<in> set (allBaseUdpAddresses st). \<exists>y. x = UdpSend a (PTB_value PTB_NAT_INIT # y)) \<and>
    (cookie st \<noteq> [] \<longrightarrow> st' = (if baseTransientPort st \<noteq> 0 then advanceTransientPort else id)
       (st\<lparr>lastNatInitSent := now e, natInitConfirmed := False, natInitCounter := natInitCounter st + 1\<rparr>))"
proof (cases "cookie st = []")
  case True
  then show ?thesis by (simp add: sendNatInitToBase_def nop_def)
next
  case False
  let ?m = "(PeerToBaseMessage_of PTB_NAT_INIT)\<lparr>ptb_deviceId := deviceId (myIdentity nd), ptb_counter := natInitCounter st\<rparr>"
  let ?st = "st\<lparr>lastNatInitSent := now e, natInitConfirmed := False, natInitCounter := natInitCounter st + 1\<rparr>"
  let ?t = "(PeerToBaseMessage_of PTB_NAT_INIT_TRANSIENT)\<lparr>ptb_deviceId := deviceId (myIdentity nd), ptb_counter := natInitCounter ?st\<rparr>"
  have ck: "cookie_ok ?st" using stack_reachable_inv [OF assms(1)] by (simp add: ng_inv_def cookie_ok_def)
  obtain out where out: "sendToBaseUdp nd ?m ?st = Some (out, ?st)" using sendToBaseUdp_const [OF assms(2) ck] by blast
  obtain out2 where out2: "sendToBaseUdp nd ?t ?st = Some (out2, ?st)" using sendToBaseUdp_const [OF assms(2) ck] by blast
  have "out2 = []" using sendToBaseUdp_transient [OF out2] by (simp add: PeerToBaseMessage_of_def)
  then have "sendNatInitToBase nd e st = Some (out, (if baseTransientPort st \<noteq> 0 then advanceTransientPort else id) ?st)"
    using False out out2 by (simp add: sendNatInitToBase_def Let_def andThen_def update_def nop_def)
  then show ?thesis using sendToBaseUdp_natInit [OF out] by (auto simp: PeerToBaseMessage_of_def)
qed

theorem nat_init_transient_never_sent_witness:
  "\<exists>out st'. sendNatInitToBase (toy_node 1) toy_env toy_waiting = Some (out, st') \<and>
     (\<forall>x \<in> set out. \<exists>a \<in> set (allBaseUdpAddresses toy_waiting). \<exists>y. x = UdpSend a (PTB_value PTB_NAT_INIT # y))"
  using nat_init_transient_never_sent [OF toy_waiting_reachable toy_ng_env(1)] by blast

end
