(* ===== verification/Tunnel.thy ===== *)
theory Tunnel
  imports StackProps
begin

text \<open>
  From interface to interface.  The security layer with a session is a link that carries frames
  unchanged, the multicast layer a link on top of it; stacked, and with a direct path below, they
  carry packets from one node's tunnel interface to the other's.
\<close>

section \<open>The security layer as a link\<close>

text \<open>Node \<open>A\<close> has a session with the peer at \<open>p\<close>, and node \<open>B\<close>, for its peer at \<open>q\<close> with address \<open>a\<close>, the matching key.\<close>

definition session_link :: "node \<Rightarrow> nat \<Rightarrow> 'a ng_state_scheme \<Rightarrow> node \<Rightarrow> nat \<Rightarrow> 'a ng_state_scheme \<Rightarrow> HusarnetAddress \<Rightarrow> bool" where
  "session_link ndA p stA ndB q stB a \<longleftrightarrow>
     crypto_sizes (node_crypto ndA) \<and> crypto_laws (node_crypto ndA) \<and> node_crypto ndB = node_crypto ndA \<and>
     pc_inv ndB stB \<and> map_of (peers stB) a = Some q \<and> a \<noteq> deviceId (myIdentity ndB) \<and> isPeerAllowed ndB a \<and>
     a \<noteq> IpAddress_default \<and> negotiated (deref stB q) \<and> txKey (deref stA p) = rxKey (deref stB q)"

definition sec_down :: "node \<Rightarrow> nat \<Rightarrow> 'a ng_state_scheme \<Rightarrow> bytes \<Rightarrow> bytes option" where
  "sec_down nd p st d = (case doSendDataPacket nd p d st of Some ([ToLower i f], st') \<Rightarrow> Some f | _ \<Rightarrow> None)"

definition sec_up :: "node \<Rightarrow> int \<Rightarrow> HusarnetAddress \<Rightarrow> 'a ng_state_scheme \<Rightarrow> bytes \<Rightarrow> bytes option" where
  "sec_up nd t a st f = (case onLowerLayerData_sec nd t a f st of Some ([ToUpper i m], st') \<Rightarrow> Some m | _ \<Rightarrow> None)"

lemma sec_link_delivers:
  assumes l: "session_link ndA p stA ndB q stB a" and m: "m \<noteq> []" "length m \<le> 1950"
  shows "\<exists>f. sec_down ndA p stA m = Some f \<and> sec_up ndB t a stB f = Some m"
proof -
  let ?n = "randombytes (node_crypto ndA) (draws stA) 24"
  have sizes: "crypto_sizes (node_crypto ndB)" "crypto_laws (node_crypto ndB)" "node_crypto ndA = node_crypto ndB"
    using l by (simp_all add: session_link_def)
  have n: "length (randombytes (node_crypto ndB) (draws stA) 24) = 24" using sizes by (simp add: crypto_sizesD)
  have s: "length (pack (0 :: u64)) = 8" by simp
  have "length m \<le> 2001" using m by simp
  note frame = doSendDataPacket_frame [OF this, of ndA p stA]
  obtain st' where "onLowerLayerData_sec ndB t a (0 # ?n @ secretbox (node_crypto ndB) (rxKey (deref stB q)) ?n (pack (0 :: u64) @ m)) stB =
      Some ([ToUpper a m], st')"
    using handleDataPacket_accepts [OF sizes(1,2) _ _ _ _ _ _ m n s, of stB a q t] l
    unfolding session_link_def sizes(3) by blast
  moreover have "txKey (deref stA p) = rxKey (deref stB q)" using l by (simp add: session_link_def)
  ultimately show ?thesis
    using frame by (simp add: sec_down_def sec_up_def sizes(3))
qed

interpretation sec: link "\<lambda>m. session_link ndA p stA ndB q stB a \<and> m \<noteq> [] \<and> length m \<le> 1950"
  "sec_down ndA p stA" "sec_up ndB t a stB" id for ndA p stA ndB q stB a t
  by unfold_locales (unfold id_apply, elim conjE, rule sec_link_delivers)

lemma mc_down_eq: "unicast a b packet \<Longrightarrow> mc_down a b packet = Some ((packet ! 6) # drop 40 packet)"
  by (simp add: mc_down_def unicast_down)

text \<open>The multicast layer over the security layer.\<close>

interpretation tunnel: stacked_link
  "\<lambda>packet. unicast a b packet \<and> length packet \<le> 1989 \<and> session_link ndA p stA ndB q stB a" "mc_down a b" "mc_up a b" ip6_norm
  "\<lambda>m. session_link ndA p stA ndB q stB a \<and> m \<noteq> [] \<and> length m \<le> 1950" "sec_down ndA p stA" "sec_up ndB t a stB"
  for a b ndA p stA ndB q stB t
  by unfold_locales (auto simp: mc_down_eq mc_up_def unicast_up)

section \<open>The two stacks around the link\<close>

lemma sec_down_frame: "heap st' = heap st \<Longrightarrow> draws st' = draws st \<Longrightarrow> sec_down nd p st' d = sec_down nd p st d"
  by (simp add: sec_down_def doSendDataPacket_def Let_def)

lemma sec_downD:
  assumes "sec_down nd p st d = Some f"
  shows "doSendDataPacket nd p d st = Some ([ToLower (peer_id (deref st p)) f], st\<lparr>draws := draws st + 1\<rparr>)"
  using assms by (auto simp: sec_down_def doSendDataPacket_def Let_def split: if_splits)

text \<open>The peer is known to the sender, with a session and a direct path.\<close>

definition direct_peer :: "node \<Rightarrow> HusarnetAddress \<Rightarrow> nat \<Rightarrow> 'a ng_state_scheme \<Rightarrow> bool" where
  "direct_peer nd b p st \<longleftrightarrow>
     map_of (peers st) b = Some p \<and> b \<noteq> deviceId (myIdentity nd) \<and> isPeerAllowed nd b \<and> b \<noteq> IpAddress_default \<and>
     negotiated (deref st p) \<and> connected (deref st p)"

lemma tunData_sends:
  assumes e: "ng_env nd e" and inv: "ng_inv nd st" and d: "direct_peer nd b p st" and wf: "ip_wf b"
    and u: "unicast (deviceId (myIdentity nd)) b packet"
    and f: "Option.bind (mc_down (deviceId (myIdentity nd)) b packet) (sec_down nd p st) = Some f"
  shows "\<exists>infos st'. tunData False nd e dests packet st =
      Some (UdpSend (targetAddress (deref st p)) (PTP_value PTP_DATA # f) # infos, st') \<and>
    (\<forall>x \<in> set infos. \<exists>c y. x = TcpWrite c y)"
proof -
  let ?m = "(packet ! 6) # drop 40 packet"
  have pc: "pc_inv nd st" using inv by (simp add: ng_inv_def sec_inv_def)
  obtain st1 where g: "getOrCreatePeer nd b st = (Some p, st1)" and h1: "heap st1 = heap st" "draws st1 = draws st" "peers st1 = peers st"
    using getOrCreatePeer_known [OF pc, of b p] d by (auto simp: direct_peer_def)
  have inv1: "ng_inv nd st1" using getOrCreatePeer_ng_inv [OF inv g wf] by simp
  have id: "peer_id (deref st1 p) = b" "p < length (heap st1)" using getOrCreatePeer_ng_inv [OF inv g wf] by auto
  let ?st2 = "st1\<lparr>draws := draws st1 + 1\<rparr>"
  have "sec_down nd p st1 ?m = Some f"
    using f mc_down_eq [OF u] by (simp add: sec_down_frame [OF h1(1,2)])
  then have s: "onUpperLayerData_sec nd b ?m st = Some ([ToLower b f], ?st2)"
    using g d h1 sec_downD [of nd p st1 ?m f] id by (simp add: onUpperLayerData_sec_def direct_peer_def)
  have inv2: "ng_inv nd ?st2" using inv1 by (simp add: ng_inv_def sec_inv_def pc_inv_def sources_ok_def)
  then have pc2: "pc_inv nd ?st2" by (simp add: ng_inv_def sec_inv_def)
  obtain st3 where g3: "getOrCreatePeer nd b ?st2 = (Some p, st3)" and h3: "heap st3 = heap st"
    using getOrCreatePeer_known [OF pc2, of b p] d h1 by (auto simp: direct_peer_def)
  have inv3: "ng_inv nd st3" "p < length (heap st3)" using getOrCreatePeer_ng_inv [OF inv2 g3 wf] by auto
  have c: "connected (deref st3 p)" using d h3 by (simp add: direct_peer_def)
  obtain infos st' where r: "sendDataToPeer nd e p f st3 =
      Some ([UdpSend (targetAddress (deref st p)) (PTP_value PTP_DATA # f)] @ infos, st')"
    "\<forall>x \<in> set infos. \<exists>c y. x = TcpWrite c y"
    using sendData_routes [OF e inv3, of f] c h3 by auto
  have "tunData False nd e dests packet st =
      Some (UdpSend (targetAddress (deref st p)) (PTP_value PTP_DATA # f) # infos, st')"
    using r(1) g3 s
    by (simp add: tunData_def unicast_down [OF u] withFrames_def onUpperLayerData_comp_def shouldProceed_def
        onUpperLayerData_ng_def andThen_def nop_def)
  with r(2) show ?thesis by blast
qed

lemma socketEvent_delivers:
  assumes inv: "ng_inv nd st" and s: "findPeerBySourceAddress src st = Some q" "src \<noteq> baseUdpAddress st"
    and a: "peer_id (deref st q) = a"
    and f: "Option.bind (sec_up nd (now e) a st f) (mc_up a (deviceId (myIdentity nd))) = Some packet"
  shows "\<exists>st'. socketEvent False nd e (Udp src (PTP_value PTP_DATA # f)) st = Some ([TunWrite packet], st')"
proof -
  obtain m where m: "sec_up nd (now e) a st f = Some m" "mc_up a (deviceId (myIdentity nd)) m = Some packet"
    using f by (auto simp: bind_eq_Some_conv)
  obtain i st1 where l: "onLowerLayerData_sec nd (now e) a f st = Some ([ToUpper i m], st1)"
    using m(1) by (auto simp: sec_up_def split: option.splits prod.splits list.splits frame.splits)
  have "pc_inv nd st" using inv by (simp add: ng_inv_def sec_inv_def)
  then have "i = a" using onLowerLayerData_sec_peer [of nd st a "now e" f] l by (simp add: for_peer_def)
  moreover obtain j where "onLowerLayerData_mc (deviceId (myIdentity nd)) a m = [ToUpper j packet]"
    using m(2) by (auto simp: mc_up_def split: list.splits frame.splits if_splits)
  ultimately show ?thesis
    using l direct_data_delivered [OF s, of nd e f] a
    by (simp add: socketEvent_def deliverUp_def withFrames_def onLowerLayerData_comp_def shouldProceed_def
        andThen_def nop_def emit_def)
qed

section \<open>From interface to interface\<close>

text \<open>C1: A packet that one node reads from its tunnel interface for a peer it has a session and a
  direct path with leaves as one datagram to the peer's address (status messages to the base
  server may follow), and the peer, which has the matching key and knows the source address,
  writes to its own interface exactly one packet: the same payload and addresses under a header
  with length and hop limit set anew.\<close>

theorem tunnel_end_to_end:
  assumes A: "stack_reachable ndA stA" "ng_env ndA eA" and B: "stack_reachable ndB stB"
    and path: "direct_peer ndA (deviceId (myIdentity ndB)) p stA" "ip_wf (deviceId (myIdentity ndB))"
    and session: "session_link ndA p stA ndB q stB (deviceId (myIdentity ndA))"
    and source: "findPeerBySourceAddress src stB = Some q" "src \<noteq> baseUdpAddress stB"
    and packet: "unicast (deviceId (myIdentity ndA)) (deviceId (myIdentity ndB)) packet" "length packet \<le> 1989"
  shows "\<exists>datagram infos stA' stB'.
    tunData False ndA eA dests packet stA = Some (UdpSend (targetAddress (deref stA p)) datagram # infos, stA') \<and>
    (\<forall>x \<in> set infos. \<exists>c y. x = TcpWrite c y) \<and>
    socketEvent False ndB eB (Udp src datagram) stB = Some ([TunWrite (ip6_norm packet)], stB')"
proof -
  let ?a = "deviceId (myIdentity ndA)" and ?b = "deviceId (myIdentity ndB)"
  have inv: "ng_inv ndA stA" "ng_inv ndB stB" using stack_reachable_inv A(1) B by blast+
  have "unicast ?a ?b packet \<and> length packet \<le> 1989 \<and> session_link ndA p stA ndB q stB ?a"
    using packet session by blast
  from tunnel.stacked_delivers [OF this, of "now eB"] obtain f
    where f: "Option.bind (mc_down ?a ?b packet) (sec_down ndA p stA) = Some f"
      "Option.bind (sec_up ndB (now eB) ?a stB f) (mc_up ?a ?b) = Some (ip6_norm packet)"
    by blast
  have "peer_id (deref stB q) = ?a"
    using session inv(2) by (auto simp: session_link_def ng_inv_def sec_inv_def pc_inv_def)
  from socketEvent_delivers [OF inv(2) source this f(2)] tunData_sends [OF A(2) inv(1) path packet(1) f(1), of dests]
  show ?thesis by blast
qed

text \<open>Two nodes that have exchanged the hello packets of a session through the base server and those of a path directly.\<close>

definition toy_relayed :: "nat \<Rightarrow> nat \<Rightarrow> nat \<Rightarrow> stack_event" where
  "toy_relayed k k' n =
     SocketEvent (Udp InetAddress_default (2 # ip_data (deviceId (myIdentity (toy_node k))) @
       helloPacket (toy_node k) (fst (kx_keypair toy_crypto 9)) n (deviceId (myIdentity (toy_node k'))) 0 0))"

definition toy_hello :: bytes where
  "toy_hello = the (serializePeerToPeerMessage (toy_node 1) ((PeerToPeerMessage_of PTP_HELLO)
     \<lparr>ptp_yourId := deviceId (myIdentity (toy_node 2)), ptp_helloCookie := replicate 16 97\<rparr>))"

definition toy_events1 :: "stack_event list" where
  "toy_events1 = [TunPacket (\<lambda>_. []) toy_packet, toy_relayed 2 1 2, SocketEvent (Udp toy_peer_address toy_reply),
     SocketEvent Worker]"

definition toy_events2 :: "stack_event list" where
  "toy_events2 = [toy_relayed 1 2 1, toy_relayed 1 2 3, SocketEvent (Udp toy_peer_address toy_hello), SocketEvent Worker]"

definition toy_key :: bytes where
  "toy_key = [0, 0, 0, 9] @ replicate 28 6"

lemma toy_run1:
  "(case stack_exec (toy_node 1) toy_env toy_events1 (toy_socket 1) of
      None \<Rightarrow> False
    | Some (out, st) \<Rightarrow>
        map_of (peers st) (deviceId (myIdentity (toy_node 2))) = Some 0 \<and>
        negotiated (deref st 0) \<and> connected (deref st 0) \<and> txKey (deref st 0) = toy_key)"
  by code_simp

lemma toy_run2:
  "(case stack_exec (toy_node 2) toy_env toy_events2 (toy_socket 2) of
      None \<Rightarrow> False
    | Some (out, st) \<Rightarrow>
        map_of (peers st) (deviceId (myIdentity (toy_node 1))) = Some 0 \<and>
        negotiated (deref st 0) \<and> rxKey (deref st 0) = toy_key \<and>
        findPeerBySourceAddress toy_peer_address st = Some 0 \<and> toy_peer_address \<noteq> baseUdpAddress st)"
  by code_simp

lemma toy_packet_unicast:
  "unicast (deviceId (myIdentity (toy_node 1))) (deviceId (myIdentity (toy_node 2))) toy_packet" "length toy_packet \<le> 1989"
  by code_simp+

theorem tunnel_end_to_end_witness:
  "\<exists>(stA :: ng_state) (stB :: ng_state) datagram infos stA' stB'.
    tunData False (toy_node 1) toy_env (\<lambda>_. []) toy_packet stA = Some (UdpSend (targetAddress (deref stA 0)) datagram # infos, stA') \<and>
    socketEvent False (toy_node 2) toy_env (Udp toy_peer_address datagram) stB = Some ([TunWrite (ip6_norm toy_packet)], stB')"
proof -
  obtain outA stA where r1: "stack_exec (toy_node 1) toy_env toy_events1 (toy_socket 1) = Some (outA, stA)"
    and m1: "map_of (peers stA) (deviceId (myIdentity (toy_node 2))) = Some 0"
      "negotiated (deref stA 0)" "connected (deref stA 0)" "txKey (deref stA 0) = toy_key"
    using toy_run1 by (auto split: option.splits)
  obtain outB stB where r2: "stack_exec (toy_node 2) toy_env toy_events2 (toy_socket 2) = Some (outB, stB)"
    and m2: "map_of (peers stB) (deviceId (myIdentity (toy_node 1))) = Some 0"
      "negotiated (deref stB 0)" "rxKey (deref stB 0) = toy_key"
    and src: "findPeerBySourceAddress toy_peer_address stB = Some 0" "toy_peer_address \<noteq> baseUdpAddress stB"
    using toy_run2 by (auto split: option.splits)
  have reach: "stack_reachable (toy_node 1) stA" "stack_reachable (toy_node 2) stB"
    using stack_exec_reachable [OF toy_ng_env(1) r1 _ toy_socket_reachable]
      stack_exec_reachable [OF toy_ng_env(2) r2 _ toy_socket_reachable] toy_packet_unicast(2)
    by (simp_all add: toy_events1_def toy_events2_def toy_relayed_def)
  have cr: "node_crypto (toy_node k) = toy_crypto" "isPeerAllowed (toy_node k) i" for k i by (simp_all add: toy_node_def)
  have ids: "deviceId (myIdentity (toy_node 1)) \<noteq> deviceId (myIdentity (toy_node 2))"
    "deviceId (myIdentity (toy_node 1)) \<noteq> IpAddress_default" "deviceId (myIdentity (toy_node 2)) \<noteq> IpAddress_default"
    "ip_wf (deviceId (myIdentity (toy_node 2)))"
    by code_simp+
  have "pc_inv (toy_node 2) stB" using stack_reachable_inv [OF reach(2)] by (simp add: ng_inv_def sec_inv_def)
  then have session: "session_link (toy_node 1) 0 stA (toy_node 2) 0 stB (deviceId (myIdentity (toy_node 1)))"
    using m1 m2 ids by (simp add: session_link_def cr toy_crypto_sizes toy_crypto_laws)
  have "direct_peer (toy_node 1) (deviceId (myIdentity (toy_node 2))) 0 stA"
    using m1 ids by (simp add: direct_peer_def cr)
  from tunnel_end_to_end [OF reach(1) toy_ng_env(1) reach(2) this ids(4) session src toy_packet_unicast,
      of "\<lambda>_. []" toy_env]
  show ?thesis by blast
qed

end
