(* ===== verification/Http.thy ===== *)
theory Http
  imports Util
begin

text \<open>
  \<open>http.cpp\<close> and \<open>http.h\<close>: the HTTP/1.1 messages of the WebSocket handshake.  The message object
  is a record; its iterator \<open>_it\<close> is an offset into the buffer.  An operation that is undefined in
  C++ or fails an assertion of the container library is \<open>None\<close>: the buffer reserves a quarter of
  the maximal length, and an insertion beyond it moves the buffer and leaves the iterator dangling.
  The number parser of the container library is the parameter \<open>num\<close>.

  The result: a request the encoder writes is read back by the parser, with its method, endpoint,
  headers and body, if it has a header or a body.
\<close>

section \<open>Searching\<close>

fun sv_find :: "bytes \<Rightarrow> bytes \<Rightarrow> nat option" where
  "sv_find pat [] = (if pat = [] then Some 0 else None)"
| "sv_find pat (c # s) = (if take (length pat) (c # s) = pat then Some 0 else map_option Suc (sv_find pat s))"

definition sv_find_from :: "bytes \<Rightarrow> nat \<Rightarrow> bytes \<Rightarrow> nat option" where
  "sv_find_from pat pos s = map_option (\<lambda>i. pos + i) (sv_find pat (drop pos s))"

section \<open>Messages\<close>

datatype Result = OK | INCOMPLETE | INVALID

datatype Type = UNDEFINED | REQUEST | RESPONSE

datatype ParseState = START_LINE | HEADER | BODY | DONE

record HTTPMessage =
  statusCode :: nat
  req_method :: bytes
  req_endpoint :: bytes
  messageType :: Type
  headers :: "(bytes \<times> bytes) list"
  body :: bytes
  msg_buffer :: bytes
  msg_it :: nat
  parserState :: ParseState

definition MAX_MESSAGE_LENGTH :: nat where "MAX_MESSAGE_LENGTH = 8192"

definition EOL_DELIMITER :: bytes where "EOL_DELIMITER = [13, 10]"

definition BODY_DELIMITER :: bytes where "BODY_DELIMITER = [13, 10, 13, 10]"

definition HTTPMessage_new :: HTTPMessage where
  "HTTPMessage_new = \<lparr>statusCode = 0, req_method = [], req_endpoint = [], messageType = UNDEFINED, headers = [],
     body = [], msg_buffer = [], msg_it = 0, parserState = START_LINE\<rparr>"

section \<open>Writing\<close>

definition headerLine :: "bytes \<times> bytes \<Rightarrow> bytes" where
  "headerLine h = fst h @ [58, 32] @ snd h @ EOL_DELIMITER"

text \<open>The text and the message, whose headers may have changed; \<open>None\<close> if the buffer is too small.\<close>

definition encode :: "nat \<Rightarrow> HTTPMessage \<Rightarrow> (bytes \<times> HTTPMessage) option" where
  "encode capacity msg =
     (let msg = (if body msg \<noteq> [] then msg\<lparr>headers := map_assign (str ''Content-Length'') (to_string (length (body msg))) (headers msg)\<rparr>
                 else msg);
          buffer = req_method msg @ [32] @ req_endpoint msg @ str '' HTTP/1.1'' @ EOL_DELIMITER @
            concat (map headerLine (headers msg)) @ EOL_DELIMITER @ body msg
      in if length buffer \<le> capacity then Some (buffer, msg) else None)"

section \<open>Reading\<close>

text \<open>The method has room for 7 and the endpoint for 256 characters.  \<open>end - space2 - 1\<close> is unsigned:
  when the second space is behind the end of the line, the third field is the rest of the buffer.\<close>

definition parseStartLine :: "(bytes \<Rightarrow> nat option) \<Rightarrow> HTTPMessage \<Rightarrow> Result \<times> HTTPMessage" where
  "parseStartLine num msg =
     (let view = drop (msg_it msg) (msg_buffer msg) in
      case sv_find EOL_DELIMITER view of
        None \<Rightarrow> (INCOMPLETE, msg)
      | Some end \<Rightarrow>
          (case sv_find [32] view of
             None \<Rightarrow> (INVALID, msg)
           | Some space1 \<Rightarrow>
               (case sv_find_from [32] (space1 + 1) view of
                  None \<Rightarrow> (INVALID, msg)
                | Some space2 \<Rightarrow>
                    let field1 = take space1 view;
                        field2 = chunk (space1 + 1) (space2 - space1 - 1) view;
                        field3 = (if space2 < end then chunk (space2 + 1) (end - space2 - 1) view else drop (space2 + 1) view)
                    in
                    if field1 = [] \<or> field2 = [] \<or> field3 = [] then (INVALID, msg)
                    else if field1 = str ''HTTP/1.1'' then
                      let msg = msg\<lparr>messageType := RESPONSE\<rparr> in
                      (case num field2 of
                         None \<Rightarrow> (INVALID, msg)
                       | Some code \<Rightarrow> (OK, msg\<lparr>statusCode := code, msg_it := msg_it msg + end + 2\<rparr>))
                    else if field3 = str ''HTTP/1.1'' then
                      let msg = msg\<lparr>messageType := REQUEST, req_method := take 7 field1, req_endpoint := take 256 field2\<rparr> in
                      if length field1 > 7 \<or> length field2 > 256 then (INVALID, msg)
                      else (OK, msg\<lparr>msg_it := msg_it msg + end + 2\<rparr>)
                    else (INVALID, msg))))"

text \<open>The lines up to the separator: false for a line without a colon, and the headers read by then.\<close>

function headerLines :: "bytes \<Rightarrow> nat \<Rightarrow> nat \<Rightarrow> (bytes \<times> bytes) list \<Rightarrow> bool \<times> (bytes \<times> bytes) list" where
  "headerLines view sep pos hs =
     (if pos < sep then
        (case sv_find_from EOL_DELIMITER pos view of
           None \<Rightarrow> (False, hs)
         | Some end \<Rightarrow>
             let line = chunk pos (end - pos) view; pos' = end + 2 in
             if line = [] then (True, hs)
             else (case sv_find [58] line of
                 None \<Rightarrow> (False, hs)
               | Some colon \<Rightarrow> headerLines view sep pos' (map_assign (take colon line) (drop (colon + 2) line) hs)))
      else (True, hs))"
  by pat_completeness auto

termination
  by (relation "measure (\<lambda>(view, sep, pos, hs). sep - pos)") (auto simp: sv_find_from_def)

declare headerLines.simps [simp del]

definition parseHeader :: "HTTPMessage \<Rightarrow> Result \<times> HTTPMessage" where
  "parseHeader msg =
     (let view = drop (msg_it msg) (msg_buffer msg) in
      case sv_find BODY_DELIMITER view of
        None \<Rightarrow> (INCOMPLETE, msg)
      | Some sep \<Rightarrow>
          (case headerLines view sep 0 (headers msg) of
             (ok, hs) \<Rightarrow>
               let msg = msg\<lparr>headers := hs\<rparr> in
               if \<not> ok then (INVALID, msg)
               else (OK, msg\<lparr>msg_it := msg_it msg + sep + 4, parserState := BODY\<rparr>)))"

text \<open>\<open>None\<close> is the failed conversion of a \<open>Content-Length\<close> that is not a number.\<close>

definition parseBody :: "(bytes \<Rightarrow> nat option) \<Rightarrow> HTTPMessage \<Rightarrow> (Result \<times> HTTPMessage) option" where
  "parseBody num msg =
     (let view = drop (msg_it msg) (msg_buffer msg) in
      case map_of (headers msg) (str ''Content-Length'') of
        None \<Rightarrow> Some (OK, msg)
      | Some v \<Rightarrow>
          (case num (takeWhile (\<lambda>c. c \<noteq> 0) v) of
             None \<Rightarrow> None
           | Some contentLength \<Rightarrow>
               if length view < contentLength then Some (INCOMPLETE, msg)
               else Some (OK, msg\<lparr>body := take contentLength view\<rparr>)))"

text \<open>One turn of the loop in \<open>parse\<close>.  An iterator behind the end of the buffer is undefined.\<close>

definition parseStep :: "(bytes \<Rightarrow> nat option) \<Rightarrow> HTTPMessage \<Rightarrow> (Result \<times> HTTPMessage) option" where
  "parseStep num msg =
     (if msg_it msg > length (msg_buffer msg) then None
      else case parserState msg of
        START_LINE \<Rightarrow>
          (case parseStartLine num (msg\<lparr>msg_buffer := drop (msg_it msg) (msg_buffer msg), msg_it := 0\<rparr>) of
             (res, msg) \<Rightarrow> Some (res, if res = OK then msg\<lparr>parserState := HEADER\<rparr> else msg))
      | HEADER \<Rightarrow>
          (case parseHeader msg of (res, msg) \<Rightarrow> Some (res, if res = OK then msg\<lparr>parserState := BODY\<rparr> else msg))
      | BODY \<Rightarrow> map_option (\<lambda>(res, msg). (res, if res = OK then msg\<lparr>parserState := DONE\<rparr> else msg)) (parseBody num msg)
      | DONE \<Rightarrow> Some (INVALID, msg))"

primrec parser_rank :: "ParseState \<Rightarrow> nat" where
  "parser_rank START_LINE = 3"
| "parser_rank HEADER = 2"
| "parser_rank BODY = 1"
| "parser_rank DONE = 0"

lemma parseStep_advances: "parseStep num msg = Some (OK, msg') \<Longrightarrow> parser_rank (parserState msg') < parser_rank (parserState msg)"
  by (auto simp: parseStep_def split: if_splits ParseState.splits prod.splits)

function parseLoop :: "(bytes \<Rightarrow> nat option) \<Rightarrow> HTTPMessage \<Rightarrow> (Result \<times> HTTPMessage) option" where
  "parseLoop num msg =
     (if parserState msg = DONE then Some (OK, msg)
      else case parseStep num msg of
        None \<Rightarrow> None
      | Some (res, msg') \<Rightarrow> if res = OK then parseLoop num msg' else Some (res, msg'))"
  by pat_completeness auto

termination
  by (relation "measure (\<lambda>(num, msg). parser_rank (parserState msg))") (auto dest: parseStep_advances)

declare parseLoop.simps [simp del]

definition http_parse :: "(bytes \<Rightarrow> nat option) \<Rightarrow> bytes \<Rightarrow> HTTPMessage \<Rightarrow> (Result \<times> HTTPMessage) option" where
  "http_parse num view msg =
     (let newSize = length (msg_buffer msg) + length view in
      if newSize > MAX_MESSAGE_LENGTH then Some (INVALID, msg\<lparr>msg_buffer := []\<rparr>)
      else if newSize > MAX_MESSAGE_LENGTH div 4 then None
      else case parseLoop num (msg\<lparr>msg_buffer := msg_buffer msg @ view\<rparr>) of
        None \<Rightarrow> None
      | Some (res, msg) \<Rightarrow>
          let msg = (if res = OK \<or> res = INVALID then msg\<lparr>parserState := START_LINE\<rparr> else msg)
          in Some (res, if res = INVALID then msg\<lparr>msg_buffer := [], msg_it := 0\<rparr> else msg))"

text \<open>For evaluation, with the size in binary.\<close>

lemma http_parse_code [code]:
  "http_parse num view msg =
     (let newSize = int (length (msg_buffer msg)) + int (length view) in
      if newSize > 8192 then Some (INVALID, msg\<lparr>msg_buffer := []\<rparr>)
      else if newSize > 2048 then None
      else case parseLoop num (msg\<lparr>msg_buffer := msg_buffer msg @ view\<rparr>) of
        None \<Rightarrow> None
      | Some (res, msg) \<Rightarrow>
          let msg = (if res = OK \<or> res = INVALID then msg\<lparr>parserState := START_LINE\<rparr> else msg)
          in Some (res, if res = INVALID then msg\<lparr>msg_buffer := [], msg_it := 0\<rparr> else msg))"
proof -
  have "8192 < int a + int b \<longleftrightarrow> 8192 < a + b" "2048 < int a + int b \<longleftrightarrow> 2048 < a + b" for a b by linarith+
  then show ?thesis unfolding http_parse_def MAX_MESSAGE_LENGTH_def Let_def by simp
qed

section \<open>Searching for delimiters\<close>

lemma sv_find_char: "c \<notin> set xs \<Longrightarrow> sv_find [c] (xs @ c # ys) = Some (length xs)"
  by (induction xs) auto

lemma sv_find_char_from:
  assumes "c \<notin> set ys"
  shows "sv_find_from [c] (length xs) (xs @ ys @ c # zs) = Some (length xs + length ys)"
  using assms by (simp add: sv_find_from_def sv_find_char)

lemma sv_find_eol: "13 \<notin> set xs \<Longrightarrow> sv_find EOL_DELIMITER (xs @ EOL_DELIMITER @ ys) = Some (length xs)"
  by (induction xs) (auto simp: EOL_DELIMITER_def)

lemma sv_find_eol_from:
  assumes "13 \<notin> set ys"
  shows "sv_find_from EOL_DELIMITER (length xs) (xs @ ys @ EOL_DELIMITER @ zs) = Some (length xs + length ys)"
  using assms sv_find_eol [of ys zs] by (simp add: sv_find_from_def)

text \<open>The end of a block of lines that are not empty.\<close>

definition text_line :: "bytes \<Rightarrow> bool" where
  "text_line l \<longleftrightarrow> l \<noteq> [] \<and> 13 \<notin> set l"

lemma sv_find_body_line:
  assumes "text_line l"
  shows "sv_find BODY_DELIMITER (l @ EOL_DELIMITER @ EOL_DELIMITER @ rest) = Some (length l)"
    and "zs \<noteq> [] \<Longrightarrow> hd zs \<noteq> 13 \<Longrightarrow> sv_find BODY_DELIMITER (l @ EOL_DELIMITER @ zs) =
      map_option (\<lambda>n. length l + 2 + n) (sv_find BODY_DELIMITER zs)"
proof -
  have skip: "sv_find BODY_DELIMITER (xs @ 13 # ys) = map_option (\<lambda>n. length xs + n) (sv_find BODY_DELIMITER (13 # ys))"
    if "13 \<notin> set xs" for xs ys
    using that by (induction xs) (auto simp: BODY_DELIMITER_def option.map_comp comp_def option.map_ident)
  have l: "13 \<notin> set l" using assms by (simp add: text_line_def)
  show "sv_find BODY_DELIMITER (l @ EOL_DELIMITER @ EOL_DELIMITER @ rest) = Some (length l)"
    using skip [OF l, of "10 # 13 # 10 # rest"] by (simp add: EOL_DELIMITER_def BODY_DELIMITER_def)
  assume "zs \<noteq> []" "hd zs \<noteq> 13"
  then show "sv_find BODY_DELIMITER (l @ EOL_DELIMITER @ zs) = map_option (\<lambda>n. length l + 2 + n) (sv_find BODY_DELIMITER zs)"
    using skip [OF l, of "10 # zs"]
    by (cases zs) (auto simp: EOL_DELIMITER_def BODY_DELIMITER_def option.map_comp comp_def)
qed

definition text_block :: "bytes list \<Rightarrow> bytes" where
  "text_block ls = concat (map (\<lambda>l. l @ EOL_DELIMITER) ls)"

lemma sv_find_body:
  assumes "ls \<noteq> []" and "list_all text_line ls"
  shows "sv_find BODY_DELIMITER (text_block ls @ EOL_DELIMITER @ rest) = Some (length (text_block ls) - 2)"
  using assms
proof (induction ls rule: list_nonempty_induct)
  case (single l)
  then show ?case using sv_find_body_line(1) by (simp add: text_block_def EOL_DELIMITER_def)
next
  case (cons l ls)
  let ?zs = "text_block ls @ EOL_DELIMITER @ rest"
  obtain m ms where ls: "ls = m # ms" using cons.hyps by (cases ls) auto
  have z: "?zs \<noteq> [] \<and> hd ?zs \<noteq> 13" using cons.prems by (cases m) (auto simp: ls text_block_def text_line_def)
  have "sv_find BODY_DELIMITER (l @ EOL_DELIMITER @ ?zs) = map_option (\<lambda>n. length l + 2 + n) (sv_find BODY_DELIMITER ?zs)"
    using sv_find_body_line(2) z cons.prems by simp
  moreover have "length (text_block ls) \<ge> 2" by (simp add: ls text_block_def EOL_DELIMITER_def)
  ultimately show ?case using cons by (simp add: text_block_def EOL_DELIMITER_def)
qed

section \<open>Reading back a request\<close>

definition header_ok :: "bytes \<times> bytes \<Rightarrow> bool" where
  "header_ok h \<longleftrightarrow> 13 \<notin> set (fst h) \<and> 58 \<notin> set (fst h) \<and> 13 \<notin> set (snd h)"

definition header_text :: "bytes \<times> bytes \<Rightarrow> bytes" where
  "header_text h = fst h @ [58, 32] @ snd h"

lemma headerLine_text: "concat (map headerLine hs) = text_block (map header_text hs)"
  by (simp add: text_block_def header_text_def headerLine_def [abs_def] comp_def)

lemma header_text_line: "header_ok h \<Longrightarrow> text_line (header_text h)"
  by (auto simp: header_ok_def header_text_def text_line_def)

lemma headerLines_block:
  "list_all header_ok hs \<Longrightarrow>
     headerLines (pre @ text_block (map header_text hs) @ EOL_DELIMITER @ rest)
       (length pre + length (text_block (map header_text hs)) - 2) (length pre) acc =
     (True, foldl (\<lambda>m h. map_assign (fst h) (snd h) m) acc hs)"
proof (induction hs arbitrary: pre acc)
  case Nil
  then show ?case by (subst headerLines.simps) (auto simp: text_block_def)
next
  case (Cons h hs)
  let ?l = "header_text h" and ?zs = "text_block (map header_text hs) @ EOL_DELIMITER @ rest"
  let ?view = "pre @ text_block (map header_text (h # hs)) @ EOL_DELIMITER @ rest"
  have h: "header_ok h" "text_line ?l" using Cons.prems header_text_line by auto
  have view: "?view = pre @ ?l @ EOL_DELIMITER @ ?zs" "?view = (pre @ ?l @ EOL_DELIMITER) @ ?zs" by (simp_all add: text_block_def)
  have "sv_find_from EOL_DELIMITER (length pre) ?view = Some (length pre + length ?l)"
    using h(2) sv_find_eol_from [of ?l pre ?zs] unfolding view(1) text_line_def by simp
  moreover have "chunk (length pre) (length ?l) ?view = ?l" unfolding view(1) by (simp add: chunk_def)
  moreover have "sv_find [58] ?l = Some (length (fst h))"
    using h(1) sv_find_char [of 58 "fst h"] by (simp add: header_text_def header_ok_def)
  moreover have "?l \<noteq> []" "take (length (fst h)) ?l = fst h" "drop (length (fst h) + 2) ?l = snd h" by (simp_all add: header_text_def)
  moreover define sep where "sep = length pre + length (text_block (map header_text (h # hs))) - 2"
  moreover have "length pre < sep" by (simp add: sep_def text_block_def header_text_def EOL_DELIMITER_def)
  ultimately have "headerLines ?view sep (length pre) acc =
      headerLines ?view sep (length (pre @ ?l @ EOL_DELIMITER)) (map_assign (fst h) (snd h) acc)"
    by (subst headerLines.simps) (simp add: Let_def EOL_DELIMITER_def)
  also have "\<dots> = (True, foldl (\<lambda>m h. map_assign (fst h) (snd h) m) (map_assign (fst h) (snd h) acc) hs)"
  proof -
    have "sep = length (pre @ ?l @ EOL_DELIMITER) + length (text_block (map header_text hs)) - 2"
      by (simp add: sep_def text_block_def)
    then show ?thesis using Cons.IH [of "pre @ ?l @ EOL_DELIMITER"] Cons.prems unfolding view(2) by simp
  qed
  finally show ?case by (simp add: sep_def)
qed

lemma foldl_map_assign:
  "sorted_wrt (<) (map fst (acc @ hs)) \<Longrightarrow> foldl (\<lambda>m h. map_assign (fst h) (snd h) m) acc hs = acc @ hs"
proof (induction hs arbitrary: acc)
  case (Cons h hs)
  have "map_assign (fst h) (snd h) acc = acc @ [h]"
    using Cons.prems map_assign_last [of acc "fst h" "snd h"] by (simp add: sorted_wrt_append)
  then show ?case using Cons.IH [of "acc @ [h]"] Cons.prems by simp
qed simp

lemma map_assign_keys: "fst ` set (map_assign k v m) = insert k (fst ` set m)"
  using dom_map_of_conv_image_fst [of "map_assign k v m"] dom_map_of_conv_image_fst [of m] by (simp add: map_of_map_assign)

lemma map_assign_set: "set (map_assign k v m) \<subseteq> insert (k, v) (set m)"
proof -
  have "set (AList.update k v m) \<subseteq> insert (k, v) (set m)" by (induction m) auto
  then show ?thesis by (auto simp: map_assign_def set_insort_key)
qed

lemma map_assign_sorted:
  assumes "sorted_wrt (<) (map fst m)"
  shows "sorted_wrt (<) (map fst (map_assign k v m))"
proof (cases "map_of m k = None")
  case True
  then have "k \<notin> fst ` set m" by (simp add: map_of_eq_None_iff)
  then show ?thesis using assms True by (simp add: map_assign_def strict_sorted_iff sorted_insort_key distinct_insort_key)
next
  case False
  then have "map fst (AList.update k v m) = map fst m"
    by (induction m) (auto split: if_splits)
  then show ?thesis using False assms by (simp add: map_assign_def)
qed

text \<open>The three stages on the text of a request.\<close>

lemma parseStartLine_request:
  assumes m: "m \<noteq> []" "length m \<le> 7" "32 \<notin> set m" "13 \<notin> set m"
    and e: "e \<noteq> []" "length e \<le> 256" "32 \<notin> set e" "13 \<notin> set e"
    and b: "msg_buffer msg = m @ [32] @ e @ str '' HTTP/1.1'' @ EOL_DELIMITER @ rest" "msg_it msg = 0"
  shows "parseStartLine num msg = (OK, msg\<lparr>messageType := REQUEST, req_method := m, req_endpoint := e,
    msg_it := length m + length e + 12\<rparr>)"
proof -
  let ?line = "m @ [32] @ e @ str '' HTTP/1.1''"
  have "13 \<notin> set ?line" using m e by simp
  then have "sv_find EOL_DELIMITER (msg_buffer msg) = Some (length m + length e + 10)"
    using sv_find_eol [of ?line rest] by (simp add: b)
  moreover have "sv_find [32] (msg_buffer msg) = Some (length m)" using m sv_find_char [of 32 m] by (simp add: b)
  moreover have "sv_find_from [32] (length m + 1) (msg_buffer msg) = Some (length m + 1 + length e)"
    using e sv_find_char_from [of 32 e "m @ [32]" "str ''HTTP/1.1'' @ EOL_DELIMITER @ rest"] by (simp add: b)
  moreover have "m \<noteq> str ''HTTP/1.1''" using m(2) by auto
  ultimately show ?thesis using m e by (simp add: parseStartLine_def b Let_def chunk_def)
qed

lemma parseHeader_onto:
  assumes hs: "hs \<noteq> []" "list_all header_ok hs"
    and b: "drop (msg_it msg) (msg_buffer msg) = concat (map headerLine hs) @ EOL_DELIMITER @ rest"
  shows "parseHeader msg = (OK, msg\<lparr>headers := foldl (\<lambda>m h. map_assign (fst h) (snd h) m) (headers msg) hs,
    msg_it := msg_it msg + length (concat (map headerLine hs)) + 2, parserState := BODY\<rparr>)"
proof -
  let ?block = "text_block (map header_text hs)"
  have b': "drop (msg_it msg) (msg_buffer msg) = ?block @ EOL_DELIMITER @ rest" using b by (simp only: headerLine_text)
  have "list_all text_line (map header_text hs)" using hs(2) header_text_line by (auto simp: list_all_iff)
  then have "sv_find BODY_DELIMITER (?block @ EOL_DELIMITER @ rest) = Some (length ?block - 2)"
    using hs(1) by (intro sv_find_body) simp_all
  moreover have "headerLines (?block @ EOL_DELIMITER @ rest) (length ?block - 2) 0 (headers msg) =
      (True, foldl (\<lambda>m h. map_assign (fst h) (snd h) m) (headers msg) hs)"
    using headerLines_block [OF hs(2), of "[]" rest "headers msg"] by simp
  moreover have "length ?block \<ge> 2" using hs(1) by (cases hs) (simp_all add: text_block_def EOL_DELIMITER_def)
  ultimately show ?thesis by (simp add: parseHeader_def b' Let_def headerLine_text)
qed

lemma parseHeader_block:
  assumes hs: "hs \<noteq> []" "list_all header_ok hs" "sorted_wrt (<) (map fst hs)"
    and b: "drop (msg_it msg) (msg_buffer msg) = concat (map headerLine hs) @ EOL_DELIMITER @ rest" "headers msg = []"
  shows "parseHeader msg = (OK, msg\<lparr>headers := hs, msg_it := msg_it msg + length (concat (map headerLine hs)) + 2, parserState := BODY\<rparr>)"
  using parseHeader_onto [OF hs(1,2) b(1)] foldl_map_assign [of "[]" hs] hs(3) b(2) by simp

text \<open>What the encoder writes, and the headers it leaves in the message.\<close>

lemma encode_request:
  assumes "encode capacity msg = Some (raw, msg')" and "req_method msg \<noteq> []"
  shows "body msg' = body msg"
    and "headers msg' = (if body msg = [] then headers msg
      else map_assign (str ''Content-Length'') (to_string (length (body msg))) (headers msg))"
    and "raw = (req_method msg @ [32] @ req_endpoint msg @ str '' HTTP/1.1'' @ EOL_DELIMITER) @
      concat (map headerLine (headers msg')) @ EOL_DELIMITER @ body msg"
  using assms by (auto simp: encode_def Let_def split: if_splits)

lemma encode_headers:
  assumes "encode capacity msg = Some (raw, msg')" and "req_method msg \<noteq> []"
    and "list_all header_ok (headers msg)" "sorted_wrt (<) (map fst (headers msg))" "headers msg \<noteq> [] \<or> body msg \<noteq> []"
  shows "headers msg' \<noteq> []" "list_all header_ok (headers msg')" "sorted_wrt (<) (map fst (headers msg'))"
proof -
  let ?key = "str ''Content-Length''" and ?len = "to_string (length (body msg))"
  have "header_ok (?key, ?len)" by (simp add: header_ok_def not_digit)
  then show "list_all header_ok (headers msg')" "headers msg' \<noteq> []"
    using encode_request(2) [OF assms(1,2)] assms(3,5) map_assign_set [of ?key ?len "headers msg"] map_assign_keys [of ?key ?len "headers msg"]
    by (auto simp: list_all_iff)
  show "sorted_wrt (<) (map fst (headers msg'))"
    using encode_request(2) [OF assms(1,2)] assms(4) map_assign_sorted by auto
qed

lemma parseBody_length:
  assumes "map_of (headers msg) (str ''Content-Length'') = Some (to_string n)" and "\<And>k. num (to_string k) = Some k"
  shows "parseBody num msg = Some (if length (drop (msg_it msg) (msg_buffer msg)) < n then (INCOMPLETE, msg)
    else (OK, msg\<lparr>body := take n (drop (msg_it msg) (msg_buffer msg))\<rparr>))"
proof -
  have "0 \<notin> set (to_string n)" by (rule not_digit) simp
  then have tw: "takeWhile (\<lambda>c. c \<noteq> 0) (to_string n) = to_string n" by (auto simp: takeWhile_eq_all_conv)
  show ?thesis using assms by (simp add: parseBody_def tw Let_def)
qed

lemma parseBody_rest:
  assumes "drop (msg_it msg) (msg_buffer msg) = b" "body msg = []"
    and "map_of (headers msg) (str ''Content-Length'') = (if b = [] then None else Some (to_string (length b)))"
    and "\<And>n. num (to_string n) = Some n"
  shows "parseBody num msg = Some (OK, msg\<lparr>body := b\<rparr>)"
proof (cases "b = []")
  case False
  then show ?thesis using assms(1,3) parseBody_length [of msg "length b" num] assms(4) by simp
qed (use assms in \<open>simp add: parseBody_def Let_def\<close>)

section \<open>Reading a response\<close>

lemma parseStartLine_response:
  assumes c: "c \<noteq> []" "32 \<notin> set c" "13 \<notin> set c" and r: "r \<noteq> []" "13 \<notin> set r"
    and b: "msg_buffer msg = str ''HTTP/1.1'' @ [32] @ c @ [32] @ r @ EOL_DELIMITER @ rest" "msg_it msg = 0"
    and n: "num c = Some code"
  shows "parseStartLine num msg = (OK, msg\<lparr>messageType := RESPONSE, statusCode := code,
    msg_it := length (str ''HTTP/1.1'' @ [32] @ c @ [32] @ r @ EOL_DELIMITER)\<rparr>)"
proof -
  define v where "v = str ''HTTP/1.1''"
  have v: "v \<noteq> []" "32 \<notin> set v" "13 \<notin> set v" by (simp_all add: v_def)
  let ?line = "v @ [32] @ c @ [32] @ r"
  have b': "msg_buffer msg = v @ [32] @ c @ [32] @ r @ EOL_DELIMITER @ rest" by (simp add: b v_def)
  have "13 \<notin> set ?line" using v c r by simp
  then have "sv_find EOL_DELIMITER (msg_buffer msg) = Some (length v + length c + length r + 2)"
    using sv_find_eol [of ?line rest] by (simp add: b')
  moreover have "sv_find [32] (msg_buffer msg) = Some (length v)" using v sv_find_char [of 32 v] by (simp add: b')
  moreover have "sv_find_from [32] (length v + 1) (msg_buffer msg) = Some (length v + 1 + length c)"
    using c sv_find_char_from [of 32 c "v @ [32]" "r @ EOL_DELIMITER @ rest"] by (simp add: b')
  ultimately show ?thesis using v c r n
    unfolding parseStartLine_def v_def [symmetric] by (simp add: b' b(2) Let_def chunk_def EOL_DELIMITER_def)
qed

lemma map_of_foldl_assign: "map_of (foldl (\<lambda>m h. map_assign (fst h) (snd h) m) acc hs) = map_of acc ++ map_of (rev hs)"
  by (induction hs arbitrary: acc) (auto simp: map_of_map_assign fun_eq_iff map_add_def split: option.splits)

definition http_response_text :: "nat \<Rightarrow> bytes \<Rightarrow> (bytes \<times> bytes) list \<Rightarrow> bytes \<Rightarrow> bytes" where
  "http_response_text code reason hs rest =
     (str ''HTTP/1.1'' @ [32] @ to_string code @ [32] @ reason @ EOL_DELIMITER) @ concat (map headerLine hs) @ EOL_DELIMITER @ rest"

text \<open>A response parsed into a message that has held something else: the length is that of its own
  header, or else what the message held.\<close>

lemma parse_response:
  assumes hs: "hs \<noteq> []" "list_all header_ok hs" and r: "reason \<noteq> []" "13 \<notin> set reason"
    and num: "\<And>k. num (to_string k) = Some k"
    and size: "length (http_response_text code reason hs rest) \<le> 2048"
    and msg: "msg_buffer msg = []" "msg_it msg = 0" "parserState msg = START_LINE"
    and len: "(map_of (headers msg) ++ map_of (rev hs)) (str ''Content-Length'') = Some (to_string n)"
  shows "\<exists>m. http_parse num (http_response_text code reason hs rest) msg = Some (if length rest < n then INCOMPLETE else OK, m) \<and>
    statusCode m = code \<and> (\<not> length rest < n \<longrightarrow> body m = take n rest)"
proof -
  let ?line = "str ''HTTP/1.1'' @ [32] @ to_string code @ [32] @ reason @ EOL_DELIMITER" and ?raw = "http_response_text code reason hs rest"
  let ?fields = "concat (map headerLine hs) @ EOL_DELIMITER" and ?hs = "foldl (\<lambda>m h. map_assign (fst h) (snd h) m) (headers msg) hs"
  let ?start = "length ?line"
  define msg1 where "msg1 = msg\<lparr>msg_buffer := ?raw, messageType := RESPONSE, statusCode := code, msg_it := ?start, parserState := HEADER\<rparr>"
  define msg2 where "msg2 = msg1\<lparr>headers := ?hs, msg_it := ?start + length ?fields, parserState := BODY\<rparr>"
  have d1: "drop (msg_it msg1) (msg_buffer msg1) = concat (map headerLine hs) @ EOL_DELIMITER @ rest"
    by (simp add: msg1_def http_response_text_def del: append_assoc append_Cons)
  have d2: "drop (msg_it msg2) (msg_buffer msg2) = rest"
  proof -
    have "drop (?start + length ?fields) ?raw = drop (length ?fields) (drop ?start ?raw)" by (simp only: drop_drop add.commute)
    also have "\<dots> = rest" using d1 by (simp add: msg1_def)
    finally show ?thesis by (simp add: msg2_def msg1_def)
  qed
  have code: "32 \<notin> set (to_string code)" "13 \<notin> set (to_string code)" by (rule not_digit; simp)+
  have "parseStep num (msg\<lparr>msg_buffer := ?raw\<rparr>) = Some (OK, msg1)"
    using parseStartLine_response [OF to_string_not_Nil code r, of "msg\<lparr>msg_buffer := ?raw, msg_it := 0\<rparr>" "?fields @ rest" num code]
      num [of code] msg
    by (simp add: parseStep_def msg1_def http_response_text_def)
  moreover have "parseStep num msg1 = Some (OK, msg2)"
    using parseHeader_onto [OF hs d1] by (simp add: parseStep_def msg1_def msg2_def http_response_text_def EOL_DELIMITER_def)
  moreover have "parseStep num msg2 = Some (if length rest < n then INCOMPLETE else OK,
      if length rest < n then msg2 else msg2\<lparr>body := take n rest, parserState := DONE\<rparr>)"
  proof -
    have "map_of (headers msg2) (str ''Content-Length'') = Some (to_string n)" using len by (simp add: msg2_def map_of_foldl_assign)
    from parseBody_length [OF this num]
    have "parseBody num msg2 = Some (if length rest < n then (INCOMPLETE, msg2) else (OK, msg2\<lparr>body := take n rest\<rparr>))"
      unfolding d2 .
    then show ?thesis by (simp add: parseStep_def) (simp add: msg2_def msg1_def http_response_text_def)
  qed
  ultimately have "parseLoop num (msg\<lparr>msg_buffer := ?raw\<rparr>) = Some (if length rest < n then INCOMPLETE else OK,
      if length rest < n then msg2 else msg2\<lparr>body := take n rest, parserState := DONE\<rparr>)"
    by (simp add: parseLoop.simps [of num "msg\<lparr>msg_buffer := ?raw\<rparr>"] parseLoop.simps [of num msg1]
        parseLoop.simps [of num msg2] parseLoop.simps [of num "msg2\<lparr>body := take n rest, parserState := DONE\<rparr>"])
      (simp add: msg1_def msg2_def msg)
  then show ?thesis
    using size msg by (simp add: http_parse_def MAX_MESSAGE_LENGTH_def) (simp add: msg2_def msg1_def)
qed

section \<open>Properties\<close>

text \<open>C27: A request with at least one header or a body, whose method, endpoint and headers contain
  none of the delimiters, is read back as it was written: by a fresh message object, in one piece
  of at most 2048 bytes.\<close>

theorem http_request_roundtrip:
  assumes enc: "encode capacity msg = Some (raw, msg')"
    and m: "req_method msg \<noteq> []" "length (req_method msg) \<le> 7" "32 \<notin> set (req_method msg)" "13 \<notin> set (req_method msg)"
    and e: "req_endpoint msg \<noteq> []" "length (req_endpoint msg) \<le> 256" "32 \<notin> set (req_endpoint msg)" "13 \<notin> set (req_endpoint msg)"
    and hs: "list_all header_ok (headers msg)" "sorted_wrt (<) (map fst (headers msg))" "headers msg \<noteq> [] \<or> body msg \<noteq> []"
    and len: "body msg = [] \<Longrightarrow> map_of (headers msg) (str ''Content-Length'') = None" "length raw \<le> 2048"
    and num: "\<And>n. num (to_string n) = Some n"
  shows "\<exists>r. http_parse num raw HTTPMessage_new = Some (OK, r) \<and> messageType r = REQUEST \<and>
    req_method r = req_method msg \<and> req_endpoint r = req_endpoint msg \<and> headers r = headers msg' \<and> body r = body msg"
proof -
  let ?line = "req_method msg @ [32] @ req_endpoint msg @ str '' HTTP/1.1'' @ EOL_DELIMITER"
  let ?hs = "headers msg'" and ?fields = "concat (map headerLine (headers msg')) @ EOL_DELIMITER"
  let ?start = "length ?line"
  note raw_eq = encode_request(3) [OF enc m(1)]
  define msg1 where "msg1 = HTTPMessage_new\<lparr>msg_buffer := raw, messageType := REQUEST, req_method := req_method msg,
    req_endpoint := req_endpoint msg, msg_it := ?start, parserState := HEADER\<rparr>"
  define msg2 where "msg2 = msg1\<lparr>headers := ?hs, msg_it := ?start + length ?fields, parserState := BODY\<rparr>"
  have d1: "drop (msg_it msg1) (msg_buffer msg1) = concat (map headerLine ?hs) @ EOL_DELIMITER @ body msg"
    using raw_eq by (simp add: msg1_def del: append_assoc append_Cons)
  have d2: "drop (msg_it msg2) (msg_buffer msg2) = body msg"
  proof -
    have "drop (?start + length ?fields) raw = drop (length ?fields) (drop ?start raw)" by (simp only: drop_drop add.commute)
    also have "\<dots> = body msg" using d1 by (simp add: msg1_def)
    finally show ?thesis by (simp add: msg2_def msg1_def)
  qed
  have "parseStep num (HTTPMessage_new\<lparr>msg_buffer := raw\<rparr>) = Some (OK, msg1)"
    using parseStartLine_request [OF m e, of "HTTPMessage_new\<lparr>msg_buffer := raw\<rparr>"] raw_eq
    by (simp add: parseStep_def HTTPMessage_new_def msg1_def EOL_DELIMITER_def)
  moreover have "parseStep num msg1 = Some (OK, msg2)"
    using parseHeader_block [OF encode_headers [OF enc m(1) hs] d1]
    by (simp add: parseStep_def msg1_def msg2_def HTTPMessage_new_def raw_eq EOL_DELIMITER_def)
  moreover have "parseBody num msg2 = Some (OK, msg2\<lparr>body := body msg\<rparr>)"
    using d2 len(1) encode_request(2) [OF enc m(1)] num
    by (intro parseBody_rest) (auto simp: msg2_def msg1_def HTTPMessage_new_def map_of_map_assign)
  then have "parseStep num msg2 = Some (OK, msg2\<lparr>body := body msg, parserState := DONE\<rparr>)"
    by (simp add: parseStep_def msg2_def msg1_def raw_eq)
  ultimately have "parseLoop num (HTTPMessage_new\<lparr>msg_buffer := raw\<rparr>) = Some (OK, msg2\<lparr>body := body msg, parserState := DONE\<rparr>)"
    by (simp add: parseLoop.simps [of num "HTTPMessage_new\<lparr>msg_buffer := raw\<rparr>"] parseLoop.simps [of num msg1]
        parseLoop.simps [of num msg2] parseLoop.simps [of num "msg2\<lparr>body := body msg, parserState := DONE\<rparr>"])
      (simp add: msg1_def msg2_def HTTPMessage_new_def)
  then show ?thesis
    using len(2) by (simp add: http_parse_def HTTPMessage_new_def MAX_MESSAGE_LENGTH_def msg2_def msg1_def)
qed

text \<open>A concrete request.\<close>

definition toy_number :: "bytes \<Rightarrow> nat option" where
  "toy_number s = (if s \<noteq> [] \<and> list_all isdigit s then Some (dec_value s) else None)"

lemma toy_number_to_string: "toy_number (to_string n) = Some n"
  using to_string_digits [of n] by (simp add: toy_number_def)

definition toy_request :: HTTPMessage where
  "toy_request = HTTPMessage_new\<lparr>req_method := str ''POST'', req_endpoint := str ''/x'',
     headers := [(str ''Host'', str ''[fc94::2]:80'')], body := [13, 10]\<rparr>"

theorem http_request_roundtrip_witness:
  "\<exists>raw msg' r. encode 1024 toy_request = Some (raw, msg') \<and> http_parse toy_number raw HTTPMessage_new = Some (OK, r) \<and>
     headers r = [(str ''Content-Length'', str ''2''), (str ''Host'', str ''[fc94::2]:80'')] \<and> body r = [13, 10]"
proof -
  have sizes: "case encode 1024 toy_request of None \<Rightarrow> False
      | Some (raw, msg') \<Rightarrow> length raw \<le> 2048 \<and> headers msg' = [(str ''Content-Length'', str ''2''), (str ''Host'', str ''[fc94::2]:80'')]"
    by code_simp
  then obtain raw msg' where e: "encode 1024 toy_request = Some (raw, msg')" and len: "length raw \<le> 2048"
    and h: "headers msg' = [(str ''Content-Length'', str ''2''), (str ''Host'', str ''[fc94::2]:80'')]"
    by (auto split: option.splits)
  have "\<exists>r. http_parse toy_number raw HTTPMessage_new = Some (OK, r) \<and> messageType r = REQUEST \<and>
    req_method r = req_method toy_request \<and> req_endpoint r = req_endpoint toy_request \<and> headers r = headers msg' \<and> body r = body toy_request"
    by (rule http_request_roundtrip [OF e]) (simp_all add: toy_request_def header_ok_def len toy_number_to_string)
  then show ?thesis using e h by (auto simp: toy_request_def)
qed

text \<open>A message without headers is never complete: the search for the separator starts behind the
  end of the start line.\<close>

lemma no_headers_incomplete:
  "map_option fst (http_parse num (str ''GET / HTTP/1.1'' @ EOL_DELIMITER @ EOL_DELIMITER) HTTPMessage_new) = Some INCOMPLETE"
  by (simp add: http_parse_def MAX_MESSAGE_LENGTH_def parseLoop.simps parseStep_def HTTPMessage_new_def parseStartLine_def
      parseHeader_def EOL_DELIMITER_def BODY_DELIMITER_def sv_find_from_def chunk_def)

text \<open>The bytes of a body are not removed when the next message is parsed: they are taken for the
  beginning of its start line.\<close>

definition toy_second :: "(Result \<times> HTTPMessage) option" where
  "toy_second =
     (case http_parse toy_number (str ''POST / HTTP/1.1'' @ EOL_DELIMITER @ str ''Content-Length: 2'' @ BODY_DELIMITER @ str ''ab'') HTTPMessage_new of
        None \<Rightarrow> None
      | Some (res, msg) \<Rightarrow> http_parse toy_number (str ''GET / HTTP/1.1'' @ EOL_DELIMITER @ str ''A: b'' @ BODY_DELIMITER) msg)"

lemma body_not_consumed: "map_option (\<lambda>(res, msg). (res, req_method msg)) toy_second = Some (INCOMPLETE, str ''abGET'')"
  by (simp add: toy_second_def http_parse_def MAX_MESSAGE_LENGTH_def parseLoop.simps parseStep_def HTTPMessage_new_def parseStartLine_def
      parseHeader_def parseBody_def headerLines.simps EOL_DELIMITER_def BODY_DELIMITER_def sv_find_from_def chunk_def map_assign_def
      toy_number_def isdigit_def dec_value_def Let_def)

end
