(* ===== verification/Sockets.thy ===== *)
theory Sockets
  imports IpAddress
begin

text \<open>
  \<open>ports/sockets.cpp\<close>: the UDP sockets, the framed TCP connections and the select loop below the
  NAT traversal socket.

  The system calls are answers of an environment record, one answer per call.  A TCP socket's
  incoming data is a list of segments, in the order they arrive, and a flag saying that the stream
  has ended behind them; \<open>recv\<close> hands out at most one segment, cut to the space there is.
  \<open>send\<close> is a function from what remains to be sent to the number of bytes taken.  Callbacks are
  recorded as events, in the order of the calls; a socket carries the name of its callback.

  The results: however the stream is cut into segments, the packets delivered are those that
  were written, in order, within the size the buffer allows; a failed write leaves a strict prefix
  of a frame on the stream; the loop ends and removes exactly the failed connections after one
  error callback each; the datagrams it delivers have between 1 and 2000 bytes.
\<close>

section \<open>Socket addresses\<close>

text \<open>\<open>sin_port\<close> and \<open>sin6_port\<close> are in network order, as the host reads them.\<close>

datatype sockaddr = Sockaddr_in u16 bytes | Sockaddr_in6 u16 bytes | Sockaddr_other

definition htons :: "u16 \<Rightarrow> u16" where
  "htons p = push_bit 8 p OR drop_bit 8 p"

definition useV6 :: bool where
  "useV6 = True"

definition makeSockaddr :: "inetaddress \<Rightarrow> bool \<Rightarrow> sockaddr" where
  "makeSockaddr address v6 =
     (if v6 then Sockaddr_in6 (htons (port_of address)) (ip_data (ip_of address))
      else Sockaddr_in (htons (port_of address))
        (if \<not> InetAddress_bool address \<or> isMappedV4 (ip_of address) then chunk 12 4 (ip_data (ip_of address)) else replicate 4 0))"

fun ipFromSockaddr :: "sockaddr \<Rightarrow> inetaddress" where
  "ipFromSockaddr (Sockaddr_in p a) = InetAddress (IpAddress (replicate 10 0 @ [0xFF, 0xFF] @ a)) (htons p)"
| "ipFromSockaddr (Sockaddr_in6 p a) =
     InetAddress (IpAddress (if a ! 0 = 0 \<and> a ! 1 = 0x64 \<and> a ! 2 = 0xff \<and> a ! 3 = 0x9b
       then replicate 10 0 @ [0xFF, 0xFF] @ drop 12 a else a)) (htons p)"
| "ipFromSockaddr Sockaddr_other = InetAddress_default"

section \<open>State\<close>

definition UDP_BUFFER_SIZE :: nat where "UDP_BUFFER_SIZE = 2000"

definition TCP_READ_BUFFER :: nat where "TCP_READ_BUFFER = 2000"

datatype Encapsulation = NONE | FRAMED_TLS_MASKED

record TcpConnection =
  conn_fd :: int
  readBuffer :: bytes
  encapsulation :: Encapsulation
  hasErrored :: bool

definition TLS_HEADER :: bytes where
  "TLS_HEADER = [0x17, 0x03, 0x03]"

record 'cb sockets =
  udpSockets :: "(int \<times> 'cb) list"
  customSockets :: "(int \<times> 'cb) list"
  tcpConnections :: "TcpConnection list"
  unicastUdpFd :: int
  multicastUdpFd4 :: int
  multicastUdpFd6 :: int

text \<open>The answers of the system to the calls made while a socket is opened.\<close>

record sys =
  new_fd :: int
  bind_ok :: "sockaddr \<Rightarrow> bool"
  join_ok :: bool
  connect_ok :: bool
  connect_ready :: bool
  so_error :: int

section \<open>UDP\<close>

definition bindUdpSocket :: "sys \<Rightarrow> inetaddress \<Rightarrow> bool \<Rightarrow> bool \<Rightarrow> int" where
  "bindUdpSocket s address reuse v6 =
     (if new_fd s < 0 then -1
      else if \<not> bind_ok s (makeSockaddr address useV6) then -1
      else new_fd s)"

definition udpListenUnicast :: "sys \<Rightarrow> int \<Rightarrow> 'cb \<Rightarrow> bool \<Rightarrow> 'cb sockets \<Rightarrow> bool \<times> 'cb sockets" where
  "udpListenUnicast s port callback setAsDefault st =
     (let fd = bindUdpSocket s (InetAddress wildcard (word_of_int port)) False useV6 in
      if fd = -1 then (False, st)
      else (True, st\<lparr>unicastUdpFd := (if setAsDefault then fd else unicastUdpFd st),
        udpSockets := udpSockets st @ [(fd, callback)]\<rparr>))"

definition udpListenMulticast :: "sys \<Rightarrow> inetaddress \<Rightarrow> 'cb \<Rightarrow> 'cb sockets \<Rightarrow> bool \<times> 'cb sockets" where
  "udpListenMulticast s address callback st =
     (if isMappedV4 (ip_of address) then
        let fd = bindUdpSocket s (InetAddress wildcard (port_of address)) True False in
        if fd = -1 then (False, st)
        else
          let st = st\<lparr>multicastUdpFd4 := fd\<rparr> in
          if join_ok s then (True, st\<lparr>udpSockets := udpSockets st @ [(fd, callback)]\<rparr>) else (False, st)
      else
        let fd = bindUdpSocket s (InetAddress wildcard (port_of address)) True useV6 in
        if fd = -1 then (False, st)
        else
          let st = st\<lparr>multicastUdpFd6 := fd\<rparr> in
          if join_ok s then (True, st\<lparr>udpSockets := udpSockets st @ [(fd, callback)]\<rparr>) else (False, st))"

text \<open>What is sent: the descriptor, the address and the data of the call of \<open>sendto\<close>.\<close>

definition udpSend :: "inetaddress \<Rightarrow> bytes \<Rightarrow> int \<Rightarrow> 'cb sockets \<Rightarrow> (int \<times> sockaddr \<times> bytes) option" where
  "udpSend address data fd st =
     (if fd = -1 \<and> unicastUdpFd st = -1 then None
      else Some (if fd = -1 then unicastUdpFd st else fd, makeSockaddr address useV6, data))"

definition udpSendMulticast :: "inetaddress \<Rightarrow> bytes \<Rightarrow> 'cb sockets \<Rightarrow> (int \<times> sockaddr \<times> bytes) option" where
  "udpSendMulticast address data st =
     (let sa = makeSockaddr address useV6 in
      if isMappedV4 (ip_of address)
      then if multicastUdpFd4 st = -1 then None else Some (multicastUdpFd4 st, sa, data)
      else if multicastUdpFd6 st = -1 then None else Some (multicastUdpFd6 st, sa, data))"

definition bindCustomFd :: "int \<Rightarrow> 'cb \<Rightarrow> 'cb sockets \<Rightarrow> 'cb sockets" where
  "bindCustomFd fd readyCallback st = st\<lparr>customSockets := customSockets st @ [(fd, readyCallback)]\<rparr>"

section \<open>TCP connections\<close>

text \<open>The result is the descriptor, or -1; the second component lists the descriptors closed.\<close>

definition connectUnmanagedTcpSocket :: "sys \<Rightarrow> int \<times> int list" where
  "connectUnmanagedTcpSocket s =
     (if new_fd s < 0 then (-1, [])
      else if \<not> connect_ok s then (-1, [new_fd s])
      else if \<not> connect_ready s then (-1, [new_fd s])
      else if so_error s \<noteq> 0 then (-1, [new_fd s])
      else (new_fd s, []))"

definition tcp_connect :: "sys \<Rightarrow> Encapsulation \<Rightarrow> 'cb sockets \<Rightarrow> TcpConnection option \<times> int list \<times> 'cb sockets" where
  "tcp_connect s transportType st =
     (let conn = \<lparr>conn_fd = new_fd s, readBuffer = [], encapsulation = transportType, hasErrored = False\<rparr> in
      if conn_fd conn < 0 then (None, [], st)
      else if \<not> connect_ok s then (None, [conn_fd conn], st)
      else if \<not> connect_ready s then (None, [conn_fd conn], st)
      else if so_error s \<noteq> 0 then (None, [conn_fd conn], st)
      else (Some conn, [], st\<lparr>tcpConnections := tcpConnections st @ [conn]\<rparr>))"

definition tcp_close :: "TcpConnection \<Rightarrow> TcpConnection" where
  "tcp_close conn = conn\<lparr>conn_fd := -1, hasErrored := True\<rparr>"

subsection \<open>Writing\<close>

text \<open>The bytes that went out and the result of the call.\<close>

function sendLoop :: "(bytes \<Rightarrow> int) \<Rightarrow> bytes \<Rightarrow> bytes \<times> bool" where
  "sendLoop send rest =
     (let n = send rest in
      if n \<le> 0 then ([], False)
      else if drop (nat n) rest = [] then (take (nat n) rest, True)
      else
        let (out, ok) = sendLoop send (drop (nat n) rest)
        in (take (nat n) rest @ out, ok))"
  by pat_completeness auto

termination
  by (relation "measure (\<lambda>(send, rest). length rest)") auto

declare sendLoop.simps [simp del]

lemma sendLoop_all: "(\<And>d. d \<noteq> [] \<Longrightarrow> 0 < send d) \<Longrightarrow> d \<noteq> [] \<Longrightarrow> sendLoop send d = (d, True)"
proof (induction d rule: length_induct)
  case (1 d)
  let ?n = "nat (send d)"
  have n: "0 < send d" using 1 by blast
  show ?case
  proof (cases "drop ?n d = []")
    case True
    then show ?thesis using n by (simp add: sendLoop.simps [of send d] Let_def)
  next
    case False
    have "length (drop ?n d) < length d" using n 1(3) by simp
    then have "sendLoop send (drop ?n d) = (drop ?n d, True)" using 1 False by blast
    then show ?thesis using n False by (simp add: sendLoop.simps [of send d] Let_def)
  qed
qed

definition tls_frame :: "bytes \<Rightarrow> bytes" where
  "tls_frame packet = TLS_HEADER @ pack (word_of_nat (length packet) :: u16) @ packet"

text \<open>\<open>None\<close> is the failed assertion on an empty packet.\<close>

definition tcp_write :: "TcpConnection option \<Rightarrow> (bytes \<Rightarrow> int) \<Rightarrow> bytes \<Rightarrow> (bytes \<times> bool) option" where
  "tcp_write conn send packet =
     (case conn of
        None \<Rightarrow> Some ([], False)
      | Some conn \<Rightarrow>
          if conn_fd conn = -1 then Some ([], False)
          else if \<not> length packet > 0 then None
          else Some (sendLoop send (if encapsulation conn = FRAMED_TLS_MASKED then tls_frame packet else packet)))"

definition tcp_write_vector :: "nat \<Rightarrow> TcpConnection \<Rightarrow> (bytes \<Rightarrow> int) \<Rightarrow> bytes \<Rightarrow> (bytes \<times> bool) option" where
  "tcp_write_vector capacity conn send packet =
     (if conn_fd conn = -1 then Some ([], False)
      else if \<not> length packet > 0 then None
      else if encapsulation conn = FRAMED_TLS_MASKED then
        if length packet + 5 > capacity then Some ([], False)
        else Some (sendLoop send (tls_frame packet))
      else Some (sendLoop send packet))"

subsection \<open>Reading\<close>

datatype recv_result = Received bytes | Would_block | Recv_failed

fun recv :: "nat \<Rightarrow> bool \<Rightarrow> bytes list \<Rightarrow> recv_result \<times> bytes list" where
  "recv n ended [] = (if ended then Recv_failed else Would_block, [])"
| "recv n ended ([] # segs) = recv n ended segs"
| "recv n ended (s # segs) = (Received (take n s), if length s \<le> n then segs else drop n s # segs)"

text \<open>
  The inner loop over the buffer: the packets handed to the callback, the connection, and whether
  the loop was left by \<open>break\<close>, so that the outer loop goes on.
\<close>

function readFrames :: "TcpConnection \<Rightarrow> bytes list \<times> TcpConnection \<times> bool" where
  "readFrames conn =
     (let buf = readBuffer conn in
      if length buf \<le> 5 then ([], conn, False)
      else if take 3 buf \<noteq> TLS_HEADER then ([], tcp_close conn, False)
      else
        let expectedSize = unat (le_word (chunk 3 2 buf) :: u16);
            packetLen = 5 + expectedSize
        in if packetLen \<ge> TCP_READ_BUFFER then ([], tcp_close conn, False)
           else if length buf \<ge> packetLen then
             let (packets, conn, continue) = readFrames (conn\<lparr>readBuffer := drop packetLen buf\<rparr>)
             in (chunk 5 expectedSize buf # packets, conn, continue)
           else ([], conn, True))"
  by pat_completeness auto

termination
  by (relation "measure (\<lambda>conn. length (readBuffer conn))") auto

declare readFrames.simps [simp del]

definition processBuffer :: "TcpConnection \<Rightarrow> bytes list \<times> TcpConnection \<times> bool" where
  "processBuffer conn =
     (if encapsulation conn = NONE then ([readBuffer conn], conn\<lparr>readBuffer := []\<rparr>, True)
      else readFrames conn)"

definition expectedSize :: "bytes \<Rightarrow> nat" where
  "expectedSize buf = unat (le_word (chunk 3 2 buf) :: u16)"

text \<open>The five ways through one round of the loop.\<close>

lemma readFrames_step:
  fixes conn :: TcpConnection
  defines "buf \<equiv> readBuffer conn" and "n \<equiv> 5 + expectedSize (readBuffer conn)"
  shows "length buf \<le> 5 \<Longrightarrow> readFrames conn = ([], conn, False)"
    and "5 < length buf \<Longrightarrow> take 3 buf \<noteq> TLS_HEADER \<or> TCP_READ_BUFFER \<le> n \<Longrightarrow> readFrames conn = ([], tcp_close conn, False)"
    and "5 < length buf \<Longrightarrow> take 3 buf = TLS_HEADER \<Longrightarrow> n < TCP_READ_BUFFER \<Longrightarrow> length buf < n \<Longrightarrow> readFrames conn = ([], conn, True)"
    and "5 < length buf \<Longrightarrow> take 3 buf = TLS_HEADER \<Longrightarrow> n < TCP_READ_BUFFER \<Longrightarrow> n \<le> length buf \<Longrightarrow>
      readFrames conn = (case readFrames (conn\<lparr>readBuffer := drop n buf\<rparr>) of
        (packets, conn, continue) \<Rightarrow> (chunk 5 (expectedSize buf) buf # packets, conn, continue))"
  by (subst readFrames.simps; auto simp: buf_def n_def Let_def expectedSize_def)+

lemma readFrames_cases [case_names short bad wait packet]:
  assumes "length buf \<le> 5 \<Longrightarrow> P"
    and "5 < length buf \<Longrightarrow> take 3 buf \<noteq> TLS_HEADER \<or> TCP_READ_BUFFER \<le> 5 + expectedSize buf \<Longrightarrow> P"
    and "5 < length buf \<Longrightarrow> take 3 buf = TLS_HEADER \<Longrightarrow> 5 + expectedSize buf < TCP_READ_BUFFER \<Longrightarrow> length buf < 5 + expectedSize buf \<Longrightarrow> P"
    and "5 < length buf \<Longrightarrow> take 3 buf = TLS_HEADER \<Longrightarrow> 5 + expectedSize buf < TCP_READ_BUFFER \<Longrightarrow> 5 + expectedSize buf \<le> length buf \<Longrightarrow> P"
  shows P
  using assms by (meson not_le)

lemma readFrames_shrinks:
  "readFrames conn = (packets, conn', continue) \<Longrightarrow>
     length (readBuffer conn') \<le> length (readBuffer conn) \<and>
     (continue \<longrightarrow> length (readBuffer conn') < TCP_READ_BUFFER - 1)"
proof (induction "length (readBuffer conn)" arbitrary: conn packets rule: less_induct)
  case less
  show ?case
  proof (cases rule: readFrames_cases [of "readBuffer conn"])
    case packet
    then obtain ps where "readFrames (conn\<lparr>readBuffer := drop (5 + expectedSize (readBuffer conn)) (readBuffer conn)\<rparr>) = (ps, conn', continue)"
      using less.prems readFrames_step(4) [of conn] by (auto split: prod.splits)
    then show ?thesis using less.hyps [of "conn\<lparr>readBuffer := drop (5 + expectedSize (readBuffer conn)) (readBuffer conn)\<rparr>"] packet
      by fastforce
  qed (use less.prems readFrames_step(1-3) [of conn] in \<open>auto simp: tcp_close_def\<close>)
qed

lemma processBuffer_shrinks:
  "processBuffer conn = (packets, conn', continue) \<Longrightarrow>
     length (readBuffer conn') \<le> length (readBuffer conn) \<and>
     (continue \<longrightarrow> length (readBuffer conn') < TCP_READ_BUFFER - 1)"
  using readFrames_shrinks [of conn packets conn' continue]
  by (auto simp: processBuffer_def TCP_READ_BUFFER_def split: if_splits)

lemma recv_Received:
  "recv n ended segs = (Received d, segs') \<Longrightarrow> 0 < n \<Longrightarrow> d \<noteq> [] \<and> length d \<le> n \<and> concat segs = d @ concat segs'"
  by (induction n ended segs rule: recv.induct) (auto split: if_splits)

text \<open>
  \<open>_handleRead\<close> for one readiness of the socket; built for the ESP32 (\<open>esp\<close>) it leaves the loop after one
  read.  A connection whose buffer is full reads nothing; \<open>waiting_conn_bound\<close> below shows that
  this does not happen.
\<close>

function handleRead :: "bool \<Rightarrow> bool \<Rightarrow> TcpConnection \<Rightarrow> bytes list \<Rightarrow> bytes list \<times> TcpConnection \<times> bytes list" where
  "handleRead esp ended conn segs =
     (let available = TCP_READ_BUFFER - length (readBuffer conn) in
      case (if available > 0 then recv available ended segs else (Received [], segs)) of
        (Would_block, segs) \<Rightarrow> ([], conn, segs)
      | (Recv_failed, segs) \<Rightarrow> ([], tcp_close conn, segs)
      | (Received d, segs) \<Rightarrow>
          let (packets, conn, continue) = processBuffer (conn\<lparr>readBuffer := readBuffer conn @ d\<rparr>) in
          if continue \<and> \<not> esp
          then let (later, conn, segs) = handleRead esp ended conn segs in (packets @ later, conn, segs)
          else (packets, conn, segs))"
  by pat_completeness auto

termination
proof (relation "measure (\<lambda>(esp, ended, conn, segs). 2 * length (concat segs) + length (readBuffer conn))", goal_cases)
  case (2 esp ended conn segs available r segs1 d res packets res' conn' continue)
  have "processBuffer (conn\<lparr>readBuffer := readBuffer conn @ d\<rparr>) = (packets, conn', continue)" using 2 by simp
  note p = processBuffer_shrinks [OF this]
  show ?case
  proof (cases "available > 0")
    case True
    then have "d \<noteq> []" "concat segs = d @ concat segs1"
      using recv_Received [of available ended segs d segs1] 2 by auto
    then show ?thesis using p 2 by (cases d) auto
  next
    case False
    then show ?thesis using p 2 by (auto simp: TCP_READ_BUFFER_def)
  qed
qed simp

declare handleRead.simps [simp del]

section \<open>The select loop\<close>

text \<open>
  One round: the platform, the result of \<open>select\<close>, whether it was interrupted, the descriptors it
  reports, the datagrams waiting at each UDP socket and the state of each TCP stream.
\<close>

record world =
  esp_platform :: bool
  select_result :: int
  interrupted :: bool
  ready :: "int \<Rightarrow> bool"
  datagrams :: "int \<Rightarrow> (sockaddr \<times> bytes) list"
  stream :: "int \<Rightarrow> bytes list"
  stream_ended :: "int \<Rightarrow> bool"

datatype 'cb sock_event =
    UdpCallback 'cb inetaddress bytes
  | CustomCallback 'cb
  | DataCallback int bytes
  | ErrorCallback TcpConnection

text \<open>An empty datagram makes \<open>recvfrom\<close> return 0, which ends the loop like an error.\<close>

fun udpDrain :: "'cb \<Rightarrow> (sockaddr \<times> bytes) list \<Rightarrow> 'cb sock_event list" where
  "udpDrain callback [] = []"
| "udpDrain callback ((s, d) # ds) =
     (let r = take UDP_BUFFER_SIZE d in
      if length r \<le> 0 then [] else UdpCallback callback (ipFromSockaddr s) r # udpDrain callback ds)"

text \<open>The descriptors \<open>select\<close> waits for, and those it leaves in the set.\<close>

definition readset :: "world \<Rightarrow> 'cb sockets \<Rightarrow> int \<Rightarrow> bool" where
  "readset w st fd \<longleftrightarrow>
     ready w fd \<and>
     (fd \<in> fst ` set (udpSockets st) \<or> fd \<in> fst ` set (customSockets st) \<or>
      (\<exists>conn \<in> set (tcpConnections st). conn_fd conn = fd \<and> fd > 0))"

definition readTcp :: "world \<Rightarrow> 'cb sockets \<Rightarrow> TcpConnection \<Rightarrow> 'cb sock_event list \<times> TcpConnection" where
  "readTcp w st conn =
     (if conn_fd conn = -1 then ([], conn)
      else if readset w st (conn_fd conn) then
        (case handleRead (esp_platform w) (stream_ended w (conn_fd conn)) conn (stream w (conn_fd conn)) of
           (packets, conn', segs) \<Rightarrow> (map (DataCallback (conn_fd conn)) packets, conn'))
      else ([], conn))"

definition runOnce :: "world \<Rightarrow> 'cb sockets \<Rightarrow> 'cb sock_event list \<times> 'cb sockets" where
  "runOnce w st =
     (if select_result w < 0 \<and> \<not> interrupted w then ([], st)
      else
        let udp = concat (map (\<lambda>(fd, callback).
              if fd = -1 then [] else if readset w st fd then udpDrain callback (datagrams w fd) else []) (udpSockets st));
            custom = concat (map (\<lambda>(fd, callback).
              if fd = -1 then [] else if readset w st fd then [CustomCallback callback] else []) (customSockets st));
            reads = map (readTcp w st) (tcpConnections st);
            conns = map snd reads
        in (udp @ custom @ concat (map fst reads) @ map ErrorCallback (filter hasErrored conns),
            st\<lparr>tcpConnections := filter (\<lambda>conn. \<not> hasErrored conn) conns\<rparr>))"

text \<open>
  A connection over several rounds: in each, the segments of \<open>arrivals\<close> come in behind those not
  read yet.
\<close>

primrec selectReads :: "bool \<Rightarrow> TcpConnection \<Rightarrow> bytes list \<Rightarrow> bytes list list \<Rightarrow> bytes list \<times> TcpConnection \<times> bytes list" where
  "selectReads esp conn segs [] = ([], conn, segs)"
| "selectReads esp conn segs (arrived # arrivals) =
     (if conn_fd conn = -1 then ([], conn, segs @ arrived @ concat arrivals)
      else case handleRead esp False conn (segs @ arrived) of
        (packets, conn, segs) \<Rightarrow>
          (case selectReads esp conn segs arrivals of (later, conn, segs) \<Rightarrow> (packets @ later, conn, segs)))"

section \<open>Reading a stream\<close>

lemma expectedSize_append: "5 \<le> length buf \<Longrightarrow> expectedSize (buf @ d) = expectedSize buf"
  by (simp add: expectedSize_def chunk_def)

lemma buffer_self [simp]: "conn\<lparr>readBuffer := readBuffer conn\<rparr> = (conn :: TcpConnection)"
  by simp

text \<open>Reading in one piece is reading in two.\<close>

lemma readFrames_append:
  "readFrames conn = (packets, conn', continue) \<Longrightarrow> \<not> hasErrored conn' \<Longrightarrow>
     readFrames (conn\<lparr>readBuffer := readBuffer conn @ d\<rparr>) =
       (case readFrames (conn'\<lparr>readBuffer := readBuffer conn' @ d\<rparr>) of (later, c, k) \<Rightarrow> (packets @ later, c, k))"
proof (induction "length (readBuffer conn)" arbitrary: conn packets rule: less_induct)
  case less
  let ?n = "5 + expectedSize (readBuffer conn)"
  let ?conn1 = "conn\<lparr>readBuffer := drop ?n (readBuffer conn)\<rparr>"
  show ?case
  proof (cases rule: readFrames_cases [of "readBuffer conn"])
    case packet
    then obtain ps where ps: "readFrames ?conn1 = (ps, conn', continue)" "packets = chunk 5 (expectedSize (readBuffer conn)) (readBuffer conn) # ps"
      using less.prems readFrames_step(4) [of conn] by (auto split: prod.splits)
    have "readFrames (?conn1\<lparr>readBuffer := readBuffer ?conn1 @ d\<rparr>) =
        (case readFrames (conn'\<lparr>readBuffer := readBuffer conn' @ d\<rparr>) of (later, c, k) \<Rightarrow> (ps @ later, c, k))"
      using less.hyps [OF _ ps(1) less.prems(2)] packet by simp
    moreover have "chunk 5 (expectedSize (readBuffer conn)) (readBuffer conn @ d) = chunk 5 (expectedSize (readBuffer conn)) (readBuffer conn)"
      using packet by (simp add: chunk_def)
    ultimately show ?thesis
      using packet ps(2) readFrames_step(4) [of "conn\<lparr>readBuffer := readBuffer conn @ d\<rparr>"]
      by (simp add: expectedSize_append split: prod.splits)
  qed (use less.prems readFrames_step(1-3) [of conn] in \<open>auto simp: tcp_close_def split: prod.splits\<close>)
qed

lemma readFrames_append_bad:
  "readFrames conn = (packets, conn', continue) \<Longrightarrow> hasErrored conn' \<Longrightarrow> \<not> hasErrored conn \<Longrightarrow>
     \<exists>c. readFrames (conn\<lparr>readBuffer := readBuffer conn @ d\<rparr>) = (packets, c, False) \<and> hasErrored c"
proof (induction "length (readBuffer conn)" arbitrary: conn packets rule: less_induct)
  case less
  let ?n = "5 + expectedSize (readBuffer conn)"
  let ?conn1 = "conn\<lparr>readBuffer := drop ?n (readBuffer conn)\<rparr>"
  show ?case
  proof (cases rule: readFrames_cases [of "readBuffer conn"])
    case packet
    then obtain ps where ps: "readFrames ?conn1 = (ps, conn', continue)" "packets = chunk 5 (expectedSize (readBuffer conn)) (readBuffer conn) # ps"
      using less.prems readFrames_step(4) [of conn] by (auto split: prod.splits)
    have "\<exists>c. readFrames (?conn1\<lparr>readBuffer := readBuffer ?conn1 @ d\<rparr>) = (ps, c, False) \<and> hasErrored c"
      using less.hyps [OF _ ps(1) less.prems(2)] less.prems(3) packet by simp
    moreover have "chunk 5 (expectedSize (readBuffer conn)) (readBuffer conn @ d) = chunk 5 (expectedSize (readBuffer conn)) (readBuffer conn)"
      using packet by (simp add: chunk_def)
    ultimately show ?thesis
      using packet ps(2) readFrames_step(4) [of "conn\<lparr>readBuffer := readBuffer conn @ d\<rparr>"]
      by (auto simp: expectedSize_append split: prod.splits)
  next
    case bad
    then show ?thesis
      using less.prems readFrames_step(2) [of conn] readFrames_step(2) [of "conn\<lparr>readBuffer := readBuffer conn @ d\<rparr>"]
      by (auto simp: expectedSize_append tcp_close_def)
  qed (use less.prems readFrames_step(1,3) [of conn] in auto)
qed

text \<open>A connection that waits for more: nothing in its buffer can be delivered yet.\<close>

definition waiting_conn :: "TcpConnection \<Rightarrow> bool" where
  "waiting_conn conn \<longleftrightarrow>
     encapsulation conn = FRAMED_TLS_MASKED \<and> \<not> hasErrored conn \<and> conn_fd conn \<noteq> -1 \<and>
     (\<exists>continue. readFrames conn = ([], conn, continue))"

lemma tcp_close_fields [simp]:
  "conn_fd (tcp_close conn) = -1" "hasErrored (tcp_close conn)" "readBuffer (tcp_close conn) = readBuffer conn"
  "encapsulation (tcp_close conn) = encapsulation conn"
  by (simp_all add: tcp_close_def)

lemma waiting_conn_bound:
  assumes "waiting_conn conn"
  shows "length (readBuffer conn) < TCP_READ_BUFFER - 1"
proof (cases rule: readFrames_cases [of "readBuffer conn"])
  case bad
  then have "readFrames conn = ([], tcp_close conn, False)" by (rule readFrames_step(2))
  then have "conn = tcp_close conn" using assms by (auto simp: waiting_conn_def)
  then have "hasErrored conn" by (metis tcp_close_fields(2))
  then show ?thesis using assms by (simp add: waiting_conn_def)
next
  case packet
  then show ?thesis using assms readFrames_step(4) [of conn] by (auto simp: waiting_conn_def split: prod.splits)
qed (simp_all add: TCP_READ_BUFFER_def)

lemma readFrames_waiting:
  "readFrames conn = (packets, conn', continue) \<Longrightarrow> encapsulation conn = FRAMED_TLS_MASKED \<Longrightarrow> \<not> hasErrored conn \<Longrightarrow>
     conn_fd conn \<noteq> -1 \<Longrightarrow> if hasErrored conn' then conn_fd conn' = -1 \<and> \<not> continue else waiting_conn conn' \<and> conn_fd conn' = conn_fd conn"
proof (induction "length (readBuffer conn)" arbitrary: conn packets rule: less_induct)
  case less
  let ?n = "5 + expectedSize (readBuffer conn)"
  let ?conn1 = "conn\<lparr>readBuffer := drop ?n (readBuffer conn)\<rparr>"
  show ?case
  proof (cases rule: readFrames_cases [of "readBuffer conn"])
    case packet
    then obtain ps where ps: "readFrames ?conn1 = (ps, conn', continue)"
      using less.prems readFrames_step(4) [of conn] by (auto split: prod.splits)
    then show ?thesis using less.hyps [OF _ ps] less.prems packet by (auto split: if_splits)
  qed (use less.prems readFrames_step(1-3) [of conn] in \<open>auto simp: tcp_close_def waiting_conn_def\<close>)
qed

lemma recv_other:
  "recv n ended segs = (Would_block, segs') \<Longrightarrow> concat segs = [] \<and> segs' = [] \<and> \<not> ended"
  "recv n ended segs = (Recv_failed, segs') \<Longrightarrow> concat segs = [] \<and> segs' = [] \<and> ended"
  by (induction n ended segs rule: recv.induct) (auto split: if_splits)

text \<open>What one call of \<open>_handleRead\<close> does with the stream: it takes some prefix of it and delivers
  what that prefix completes.\<close>

lemma handleRead_reads:
  "handleRead esp ended conn segs = (packets, conn', segs') \<Longrightarrow> waiting_conn conn \<Longrightarrow>
   \<exists>taken k c. concat segs = taken @ concat segs' \<and>
     readFrames (conn\<lparr>readBuffer := readBuffer conn @ taken\<rparr>) = (packets, c, k) \<and>
     (concat segs \<noteq> [] \<longrightarrow> taken \<noteq> []) \<and> (ended \<and> concat segs = [] \<longrightarrow> hasErrored conn') \<and>
     (conn' = c \<or> ended \<and> \<not> hasErrored c \<and> conn' = tcp_close c) \<and>
     (if hasErrored c then conn_fd c = -1 else waiting_conn c \<and> conn_fd c = conn_fd conn)"
proof (induction esp ended conn segs arbitrary: packets rule: handleRead.induct)
  case (1 esp ended conn segs)
  let ?avail = "TCP_READ_BUFFER - length (readBuffer conn)"
  have av: "0 < ?avail" using waiting_conn_bound [OF 1(3)] by (simp add: TCP_READ_BUFFER_def)
  have conn: "encapsulation conn = FRAMED_TLS_MASKED" "\<not> hasErrored conn" "conn_fd conn \<noteq> -1"
    using 1(3) by (simp_all add: waiting_conn_def)
  obtain k0 where k0: "readFrames conn = ([], conn, k0)" using 1(3) by (auto simp: waiting_conn_def)
  obtain r segs1 where r: "recv ?avail ended segs = (r, segs1)" by fastforce
  show ?case
  proof (cases r)
    case (Received d)
    have d: "d \<noteq> []" "concat segs = d @ concat segs1" using recv_Received r Received av by blast+
    let ?conn1 = "conn\<lparr>readBuffer := readBuffer conn @ d\<rparr>"
    obtain ps1 conn1 k1 where p: "processBuffer ?conn1 = (ps1, conn1, k1)" by (cases "processBuffer ?conn1")
    then have f: "readFrames ?conn1 = (ps1, conn1, k1)" using conn by (simp add: processBuffer_def)
    have w: "if hasErrored conn1 then conn_fd conn1 = -1 \<and> \<not> k1 else waiting_conn conn1 \<and> conn_fd conn1 = conn_fd conn"
      using readFrames_waiting [OF f] conn by simp
    show ?thesis
    proof (cases "k1 \<and> \<not> esp")
      case True
      then obtain ps2 where h: "handleRead esp ended conn1 segs1 = (ps2, conn', segs')" "packets = ps1 @ ps2"
        using 1(2) av r Received p by (subst (asm) handleRead.simps) (auto simp: Let_def split: prod.splits)
      have w1: "waiting_conn conn1" "\<not> hasErrored conn1" "conn_fd conn1 = conn_fd conn" using w True by (auto split: if_splits)
      obtain taken k c where t: "concat segs1 = taken @ concat segs'"
        "readFrames (conn1\<lparr>readBuffer := readBuffer conn1 @ taken\<rparr>) = (ps2, c, k)"
        "conn' = c \<or> ended \<and> \<not> hasErrored c \<and> conn' = tcp_close c"
        "if hasErrored c then conn_fd c = -1 else waiting_conn c \<and> conn_fd c = conn_fd conn1"
        using 1(1) [of ?avail r segs1 d "(ps1, conn1, k1)" ps1 "(conn1, k1)" conn1 k1 ps2] av r Received p True h(1) w1 by auto
      have "readFrames (?conn1\<lparr>readBuffer := readBuffer ?conn1 @ taken\<rparr>) = (packets, c, k)"
        using readFrames_append [OF f w1(2), of taken] t(2) h(2) by simp
      then show ?thesis using t d w1(3) by (intro exI [of _ "d @ taken"] exI [of _ k] exI [of _ c]) simp
    next
      case False
      then have "packets = ps1" "conn' = conn1" "segs' = segs1"
        using 1(2) av r Received p by (subst (asm) handleRead.simps; simp add: Let_def)+
      then show ?thesis using f d w by (intro exI [of _ d] exI [of _ k1] exI [of _ conn1]) (auto split: if_splits)
    qed
  next
    case Would_block
    then have "packets = []" "conn' = conn" "segs' = segs1"
      using 1(2) av r by (subst (asm) handleRead.simps; simp add: Let_def)+
    moreover have "concat segs = []" "concat segs1 = []" "\<not> ended" using recv_other(1) [of ?avail ended segs segs1] r Would_block by auto
    ultimately show ?thesis using k0 conn 1(3)
      by (intro exI [of _ "[]"] exI [of _ k0] exI [of _ conn]) (simp del: concat_eq_Nil_conv)
  next
    case Recv_failed
    then have "packets = []" "conn' = tcp_close conn" "segs' = segs1"
      using 1(2) av r by (subst (asm) handleRead.simps; simp add: Let_def)+
    moreover have "concat segs = []" "concat segs1 = []" "ended" using recv_other(2) [of ?avail ended segs segs1] r Recv_failed by auto
    ultimately show ?thesis using k0 conn 1(3)
      by (intro exI [of _ "[]"] exI [of _ k0] exI [of _ conn]) (simp del: concat_eq_Nil_conv)
  qed
qed

lemma handleRead_consumes:
  assumes "handleRead esp False conn segs = (packets, conn', segs')" and "waiting_conn conn"
  shows "\<exists>taken k. concat segs = taken @ concat segs' \<and>
     readFrames (conn\<lparr>readBuffer := readBuffer conn @ taken\<rparr>) = (packets, conn', k) \<and>
     (concat segs \<noteq> [] \<longrightarrow> taken \<noteq> []) \<and>
     (if hasErrored conn' then conn_fd conn' = -1 else waiting_conn conn')"
  using handleRead_reads [OF assms] by (metis (full_types))

text \<open>Over several rounds.\<close>

lemma selectReads_consumes:
  "selectReads esp conn segs arrivals = (packets, conn', segs') \<Longrightarrow> waiting_conn conn \<Longrightarrow>
   \<exists>taken k. concat (segs @ concat arrivals) = taken @ concat segs' \<and>
     readFrames (conn\<lparr>readBuffer := readBuffer conn @ taken\<rparr>) = (packets, conn', k) \<and>
     (if hasErrored conn' then conn_fd conn' = -1 else waiting_conn conn')"
proof (induction arrivals arbitrary: conn segs packets)
  case Nil
  then show ?case by (auto simp: waiting_conn_def intro!: exI [of _ "[]"])
next
  case (Cons a arrivals)
  have fd: "conn_fd conn \<noteq> -1" using Cons.prems(2) by (simp add: waiting_conn_def)
  obtain ps1 conn1 segs1 where h: "handleRead esp False conn (segs @ a) = (ps1, conn1, segs1)" by (rule prod_cases3)
  obtain ps2 where s: "selectReads esp conn1 segs1 arrivals = (ps2, conn', segs')" "packets = ps1 @ ps2"
    using Cons.prems(1) h fd by (auto split: prod.splits)
  obtain taken k where t: "concat (segs @ a) = taken @ concat segs1"
    "readFrames (conn\<lparr>readBuffer := readBuffer conn @ taken\<rparr>) = (ps1, conn1, k)"
    "if hasErrored conn1 then conn_fd conn1 = -1 else waiting_conn conn1"
    using handleRead_consumes [OF h Cons.prems(2)] by blast
  show ?case
  proof (cases "hasErrored conn1")
    case True
    then have "ps2 = []" "conn' = conn1" "concat segs' = concat segs1 @ concat (concat arrivals)"
      using s(1) t(3) by (cases arrivals; auto)+
    then show ?thesis using t s(2) True by (intro exI [of _ taken] exI [of _ k]) auto
  next
    case False
    then have w: "waiting_conn conn1" using t(3) by simp
    obtain taken2 k2 where t2: "concat (segs1 @ concat arrivals) = taken2 @ concat segs'"
      "readFrames (conn1\<lparr>readBuffer := readBuffer conn1 @ taken2\<rparr>) = (ps2, conn', k2)"
      "if hasErrored conn' then conn_fd conn' = -1 else waiting_conn conn'"
      using Cons.IH [OF s(1) w] by blast
    have "readFrames (conn\<lparr>readBuffer := readBuffer conn @ taken @ taken2\<rparr>) = (packets, conn', k2)"
      using readFrames_append [OF t(2) False, of taken2] t2(2) s(2) by simp
    moreover have e: "concat (segs @ concat (a # arrivals)) = concat (segs @ a) @ concat (concat arrivals)" by simp
    have "concat (segs @ concat (a # arrivals)) = (taken @ taken2) @ concat segs'"
      unfolding e t(1) using t2(1) by simp
    ultimately show ?thesis using t2(3) by blast
  qed
qed

text \<open>Enough rounds read everything.\<close>

lemma selectReads_reads_all:
  "selectReads esp conn segs (replicate n []) = (packets, conn', segs') \<Longrightarrow> waiting_conn conn \<Longrightarrow> length (concat segs) \<le> n \<Longrightarrow>
   hasErrored conn' \<or> concat segs' = []"
proof (induction n arbitrary: conn segs packets)
  case 0
  then show ?case by simp
next
  case (Suc n)
  have fd: "conn_fd conn \<noteq> -1" using Suc.prems(2) by (simp add: waiting_conn_def)
  obtain ps1 conn1 segs1 where h: "handleRead esp False conn segs = (ps1, conn1, segs1)" by (rule prod_cases3)
  obtain ps2 where s: "selectReads esp conn1 segs1 (replicate n []) = (ps2, conn', segs')"
    using Suc.prems(1) h fd by (auto split: prod.splits)
  obtain taken where t: "concat segs = taken @ concat segs1" "concat segs \<noteq> [] \<longrightarrow> taken \<noteq> []"
    "if hasErrored conn1 then conn_fd conn1 = -1 else waiting_conn conn1"
    using handleRead_consumes [OF h Suc.prems(2)] by blast
  show ?case
  proof (cases "hasErrored conn1")
    case True
    then have "conn' = conn1" using s t(3) by (cases n) auto
    then show ?thesis using True by simp
  next
    case False
    have "length (concat segs1) \<le> n" using t(1,2) Suc.prems(3) by (cases taken) (auto simp del: concat_eq_Nil_conv)
    then show ?thesis using Suc.IH [OF s] t(3) False by simp
  qed
qed

lemma selectReads_append:
  "selectReads esp conn segs (xs @ ys) = (case selectReads esp conn segs xs of (ps, conn1, segs1) \<Rightarrow>
     (case selectReads esp conn1 segs1 ys of (qs, conn2, segs2) \<Rightarrow> (ps @ qs, conn2, segs2)))"
  if "concat ys = []"
proof (induction xs arbitrary: conn segs)
  case (Cons x xs)
  have "selectReads esp c s ys = ([], c, s)" if "conn_fd c = -1" for c s
    using that \<open>concat ys = []\<close> by (cases ys) auto
  then show ?case using Cons that by (auto split: prod.splits)
qed (simp split: prod.splits)

section \<open>Writing\<close>

lemma sendLoop_prefix:
  "sendLoop send rest = (out, ok) \<Longrightarrow> if ok then out = rest else \<exists>x. x \<noteq> [] \<and> rest = out @ x \<or> rest = []"
proof (induction send rest arbitrary: out rule: sendLoop.induct)
  case (1 send rest)
  show ?case
  proof (cases "send rest \<le> 0 \<or> drop (nat (send rest)) rest = []")
    case True
    then show ?thesis using 1(2) by (subst (asm) sendLoop.simps) (auto simp: Let_def split: if_splits)
  next
    case False
    then obtain out2 where o2: "sendLoop send (drop (nat (send rest)) rest) = (out2, ok)" "out = take (nat (send rest)) rest @ out2"
      using 1(2) by (subst (asm) sendLoop.simps) (auto simp: Let_def split: prod.splits)
    have "if ok then out2 = drop (nat (send rest)) rest
        else \<exists>x. x \<noteq> [] \<and> drop (nat (send rest)) rest = out2 @ x \<or> drop (nat (send rest)) rest = []"
      using 1(1) [OF refl _ _ o2(1)] False by simp
    then show ?thesis using o2(2) False by (metis append.assoc append_take_drop_id)
  qed
qed

lemma length_tls_frame [simp]: "length (tls_frame packet) = 5 + length packet"
  by (simp add: tls_frame_def TLS_HEADER_def)

lemma tls_frame_fields:
  "take 3 (tls_frame packet @ x) = TLS_HEADER"
  "length packet < 2 ^ 16 \<Longrightarrow> expectedSize (tls_frame packet @ x) = length packet"
  "chunk 5 (length packet) (tls_frame packet @ x) = packet"
  "drop (5 + length packet) (tls_frame packet @ x) = x"
proof -
  have l: "length TLS_HEADER = 3" by (simp add: TLS_HEADER_def)
  show "take 3 (tls_frame packet @ x) = TLS_HEADER" by (simp add: tls_frame_def l)
  have c: "chunk 3 2 (tls_frame packet @ x) = pack (word_of_nat (length packet) :: u16)"
    by (simp add: tls_frame_def layout l)
  have "le_word (pack w) = w" for w :: u16 using unpack_pack [of w] by (simp add: unpack_def split: if_splits)
  then show "expectedSize (tls_frame packet @ x) = length packet" if "length packet < 2 ^ 16"
    using that by (simp add: expectedSize_def c unat_of_nat)
  show "chunk 5 (length packet) (tls_frame packet @ x) = packet"
    by (simp add: tls_frame_def layout l)
  show "drop (5 + length packet) (tls_frame packet @ x) = x" by simp
qed

lemma readFrames_tls_frames:
  "list_all (\<lambda>p. 0 < length p \<and> length p < TCP_READ_BUFFER - 5) packets \<Longrightarrow> readBuffer conn = concat (map tls_frame packets) \<Longrightarrow>
   readFrames conn = (packets, conn\<lparr>readBuffer := []\<rparr>, False)"
proof (induction packets arbitrary: conn)
  case Nil
  then show ?case using readFrames_step(1) [of conn] by simp
next
  case (Cons p packets)
  let ?x = "concat (map tls_frame packets)"
  have p: "0 < length p" "length p < TCP_READ_BUFFER - 5" using Cons.prems(1) by simp_all
  have b: "readBuffer conn = tls_frame p @ ?x" using Cons.prems(2) by simp
  have "length p < 2 ^ 16" using p(2) by (simp add: TCP_READ_BUFFER_def)
  note f = tls_frame_fields(1,3) [of p ?x] tls_frame_fields(2) [OF this, of ?x]
  have "readFrames conn = (case readFrames (conn\<lparr>readBuffer := ?x\<rparr>) of
      (packets, conn, continue) \<Rightarrow> (p # packets, conn, continue))"
    using readFrames_step(4) [of conn] p f by (simp add: b)
  moreover have "readFrames (conn\<lparr>readBuffer := ?x\<rparr>) = (packets, conn\<lparr>readBuffer := []\<rparr>, False)"
    using Cons.IH [of "conn\<lparr>readBuffer := ?x\<rparr>"] Cons.prems(1) by simp
  ultimately show ?case by simp
qed

section \<open>Properties\<close>

text \<open>C20: Packets of 1 to 1994 bytes that were written to a framed connection arrive in order and
  unchanged, whatever number of bytes each \<open>send\<close> takes, however the stream is cut into segments
  and however these are spread over the rounds of the loop, on the ESP32 (one read per round) as elsewhere.  Everything is delivered after at
  most as many further rounds as there are bytes, and the connection stays open.\<close>

theorem tcp_transport:
  assumes sizes: "list_all (\<lambda>p. 0 < length p \<and> length p \<le> 1994) packets"
    and writes: "list_all2 (\<lambda>p w. \<exists>send. tcp_write (Some sender) send p = Some (w, True)) packets written"
    and sender: "encapsulation sender = FRAMED_TLS_MASKED" "conn_fd sender \<noteq> -1"
    and conn: "encapsulation conn = FRAMED_TLS_MASKED" "conn_fd conn \<noteq> -1" "\<not> hasErrored conn" "readBuffer conn = []"
    and stream: "concat (concat arrivals) = concat written" "length (concat written) \<le> rounds"
  shows "\<exists>segs. selectReads esp conn [] (arrivals @ replicate rounds []) = (packets, conn, segs) \<and> concat segs = []"
proof -
  have "written = map tls_frame packets"
    using writes by (induction rule: list_all2_induct)
      (use sender sendLoop_prefix in \<open>fastforce simp: tcp_write_def split: if_splits\<close>)+
  then have w: "concat (concat arrivals) = concat (map tls_frame packets)" using stream(1) by simp
  have sz: "list_all (\<lambda>p. 0 < length p \<and> length p < TCP_READ_BUFFER - 5) packets"
    using sizes by (auto simp: list_all_iff TCP_READ_BUFFER_def)
  have self: "conn\<lparr>readBuffer := []\<rparr> = conn" using conn(4) by (metis buffer_self)
  have "readFrames conn = ([], conn, False)" using conn(4) by (intro readFrames_step(1)) simp
  then have wc: "waiting_conn conn" using conn by (auto simp: waiting_conn_def)
  have all: "readFrames (conn\<lparr>readBuffer := concat (map tls_frame packets)\<rparr>) = (packets, conn, False)"
    using readFrames_tls_frames [OF sz, of "conn\<lparr>readBuffer := concat (map tls_frame packets)\<rparr>"] self by simp
  obtain ps conn' segs' where s: "selectReads esp conn [] (arrivals @ replicate rounds []) = (ps, conn', segs')" by (rule prod_cases3)
  obtain taken k where t: "concat (concat arrivals) = taken @ concat segs'"
    "readFrames (conn\<lparr>readBuffer := taken\<rparr>) = (ps, conn', k)"
    using selectReads_consumes [OF s wc] conn(4) by auto
  have ok: "\<not> hasErrored conn'"
    using readFrames_append_bad [OF t(2), of "concat segs'"] t(1) all w conn(3) by auto
  obtain ps1 conn1 segs1 ps2 where s1: "selectReads esp conn [] arrivals = (ps1, conn1, segs1)"
    "selectReads esp conn1 segs1 (replicate rounds []) = (ps2, conn', segs')"
    using s selectReads_append [of "replicate rounds []" esp conn "[]" arrivals] by (auto split: prod.splits)
  obtain taken1 where t1: "concat (concat arrivals) = taken1 @ concat segs1" "if hasErrored conn1 then conn_fd conn1 = -1 else waiting_conn conn1"
    using selectReads_consumes [OF s1(1) wc] by auto
  have "\<not> hasErrored conn1"
  proof
    assume "hasErrored conn1"
    then have "conn' = conn1" using s1(2) t1(2) by (cases rounds) auto
    then show False using \<open>hasErrored conn1\<close> ok by simp
  qed
  moreover have "length (concat segs1) \<le> rounds" using t1(1) stream by (metis le_add2 le_trans length_append)
  ultimately have e: "concat segs' = []" using selectReads_reads_all [OF s1(2)] t1(2) ok by (metis (full_types))
  then have "ps = packets" "conn' = conn" using t all w by (simp_all del: concat_eq_Nil_conv)
  then show ?thesis using s e by blast
qed

definition toy_conn :: TcpConnection where
  "toy_conn = \<lparr>conn_fd = 3, readBuffer = [], encapsulation = FRAMED_TLS_MASKED, hasErrored = False\<rparr>"

theorem tcp_transport_witness:
  "\<exists>segs. selectReads False toy_conn [] ([[[0x17]], [[3, 3, 2, 0, 8], [9, 0x17, 3, 3, 1]], [[0, 7]]] @ replicate 13 []) =
     ([[8, 9], [7]], toy_conn, segs) \<and> concat segs = []"
proof -
  have l: "list_all (\<lambda>p. 0 < length p \<and> length p \<le> 1994) [[8, 9], [7 :: byte]]" by simp
  have w: "tcp_write (Some toy_conn) (\<lambda>_. 4) [8, 9] = Some ([0x17, 3, 3, 2, 0, 8, 9], True)"
    "tcp_write (Some toy_conn) (\<lambda>_. 4) [7] = Some ([0x17, 3, 3, 1, 0, 7], True)"
    by code_simp+
  have "list_all2 (\<lambda>p w. \<exists>send. tcp_write (Some toy_conn) send p = Some (w, True))
      [[8, 9], [7]] [[0x17, 3, 3, 2, 0, 8, 9], [0x17, 3, 3, 1, 0, 7]]"
    using w by auto
  from tcp_transport [OF l this, of toy_conn "[[[0x17]], [[3, 3, 2, 0, 8], [9, 0x17, 3, 3, 1]], [[0, 7]]]" 13 False]
  show ?thesis by (simp add: toy_conn_def)
qed

text \<open>A write that fails, because the socket would block or is broken, has put a strict prefix
  of the frame on the stream and leaves the connection open.  If more than the frame's header went
  out and the next packet is then written, the receiver delivers, in place of the first packet,
  one whose end is taken from the frame of the second.\<close>

theorem partial_write_corrupts:
  assumes failed: "tcp_write (Some sender) send p = Some (w, False)"
    and sender: "encapsulation sender = FRAMED_TLS_MASKED" "conn_fd sender \<noteq> -1"
    and sizes: "length p \<le> 1994" "5 < length w" "length p + 5 \<le> length w + length (tls_frame q)"
    and conn: "readBuffer conn = w @ tls_frame q"
  shows "length w < length (tls_frame p) \<and> w = take (length w) (tls_frame p) \<and>
    (\<exists>later conn' continue. readFrames conn = (take (length p) (drop 5 w @ tls_frame q) # later, conn', continue))"
proof -
  have "p \<noteq> []" and s: "sendLoop send (tls_frame p) = (w, False)"
    using failed sender by (auto simp: tcp_write_def split: if_splits)
  have "tls_frame p \<noteq> []" using length_tls_frame [of p] by (metis add_eq_0_iff_both_eq_0 list.size(3) zero_neq_numeral)
  then obtain x where x: "x \<noteq> []" "tls_frame p = w @ x" using sendLoop_prefix [OF s] by auto
  have len: "length w < length (tls_frame p)" "w = take (length w) (tls_frame p)" unfolding x(2) using x(1) by simp_all
  have n: "length p < 2 ^ 16" using sizes(1) by simp
  have "take 3 (w @ tls_frame q) = take 3 (tls_frame p @ [])" "chunk 3 2 (w @ tls_frame q) = chunk 3 2 (tls_frame p @ [])"
    unfolding x(2) using sizes(2) by (simp_all add: chunk_def)
  then have f: "take 3 (w @ tls_frame q) = TLS_HEADER" "expectedSize (w @ tls_frame q) = length p"
    using tls_frame_fields(1) [of p "[]"] tls_frame_fields(2) [OF n, of "[]"] by (simp_all add: expectedSize_def)
  have "readFrames conn = (case readFrames (conn\<lparr>readBuffer := drop (5 + length p) (w @ tls_frame q)\<rparr>) of
      (packets, conn, continue) \<Rightarrow> (chunk 5 (length p) (w @ tls_frame q) # packets, conn, continue))"
    by (rule readFrames_step(4) [of conn, unfolded conn f(2)]) (use f(1) sizes in \<open>auto simp: TCP_READ_BUFFER_def TLS_HEADER_def\<close>)
  moreover have "chunk 5 (length p) (w @ tls_frame q) = take (length p) (drop 5 w @ tls_frame q)"
    using sizes(2) by (simp add: chunk_def)
  ultimately show ?thesis using len by (auto split: prod.splits)
qed

theorem partial_write_corrupts_witness:
  "\<exists>later conn' continue. readFrames (toy_conn\<lparr>readBuffer := [0x17, 3, 3, 2, 0, 8] @ tls_frame [7]\<rparr>) =
     ([8, 0x17] # later, conn', continue)"
proof -
  let ?send = "\<lambda>rest :: bytes. if length rest = 7 then 6 else -1"
  have "tcp_write (Some toy_conn) ?send [8, 9] = Some ([0x17, 3, 3, 2, 0, 8], False)" by code_simp
  moreover have "encapsulation toy_conn = FRAMED_TLS_MASKED" "conn_fd toy_conn \<noteq> -1" by (simp_all add: toy_conn_def)
  ultimately have "\<exists>later conn' continue. readFrames (toy_conn\<lparr>readBuffer := [0x17, 3, 3, 2, 0, 8] @ tls_frame [7]\<rparr>) =
      (take (length [8, 9 :: byte]) (drop 5 [0x17, 3, 3, 2, 0, 8] @ tls_frame [7]) # later, conn', continue)"
    by (intro conjunct2 [OF conjunct2 [OF partial_write_corrupts]]) simp_all
  moreover have "take (length [8, 9 :: byte]) (drop 5 [0x17, 3, 3, 2, 0, 8] @ tls_frame [7]) = [8, 0x17]" by code_simp
  ultimately show ?thesis by (simp only:)
qed

text \<open>The loop never delivers an empty datagram, nor one that exceeds the buffer.\<close>

lemma udpDrain_sizes: "UdpCallback cb a d \<in> set (udpDrain callback ds) \<Longrightarrow> 0 < length d \<and> length d \<le> UDP_BUFFER_SIZE"
  by (induction callback ds rule: udpDrain.induct) (auto simp: Let_def split: if_splits)

lemma readTcp_events: "x \<in> set (fst (readTcp w st conn)) \<Longrightarrow> \<exists>fd d. x = DataCallback fd d"
  by (auto simp: readTcp_def split: prod.splits if_splits)

lemma udpDrain_eq:
  "udpDrain callback ds = map (\<lambda>(s, d). UdpCallback callback (ipFromSockaddr s) (take UDP_BUFFER_SIZE d)) (takeWhile (\<lambda>(s, d). d \<noteq> []) ds)"
  by (induction callback ds rule: udpDrain.induct) (auto simp: Let_def UDP_BUFFER_SIZE_def)

text \<open>The round as a whole: all callbacks, in their order, and what is left.\<close>

lemma runOnce_eq:
  assumes "0 \<le> select_result w \<or> interrupted w"
  shows "runOnce w st =
      (concat (map (\<lambda>(fd, callback). if fd \<noteq> -1 \<and> ready w fd then udpDrain callback (datagrams w fd) else []) (udpSockets st)) @
       map (\<lambda>(fd, callback). CustomCallback callback) (filter (\<lambda>(fd, callback). fd \<noteq> -1 \<and> ready w fd) (customSockets st)) @
       concat (map (fst \<circ> readTcp w st) (tcpConnections st)) @
       map ErrorCallback (filter hasErrored (map (snd \<circ> readTcp w st) (tcpConnections st))),
       st\<lparr>tcpConnections := filter (\<lambda>c. \<not> hasErrored c) (map (snd \<circ> readTcp w st) (tcpConnections st))\<rparr>)"
proof -
  have udp: "map (\<lambda>(fd, callback). if fd = -1 then [] else if readset w st fd then udpDrain callback (datagrams w fd) else []) (udpSockets st) =
      map (\<lambda>(fd, callback). if fd \<noteq> -1 \<and> ready w fd then udpDrain callback (datagrams w fd) else []) (udpSockets st)"
    by (rule map_cong) (force simp: readset_def)+
  have "concat (map (\<lambda>(fd, callback). if fd = -1 then [] else if readset w st fd then [CustomCallback callback] else []) xs) =
      map (\<lambda>(fd, callback). CustomCallback callback) (filter (\<lambda>(fd, callback). fd \<noteq> -1 \<and> ready w fd) xs)"
    if "set xs \<subseteq> set (customSockets st)" for xs
    using that by (induction xs) (force simp: readset_def)+
  note custom = this [OF subset_refl]
  have "\<not> (select_result w < 0 \<and> \<not> interrupted w)" using assms by auto
  then show ?thesis unfolding runOnce_def Let_def udp custom map_map by (simp only: if_False)
qed

lemma runOnce_datagrams:
  assumes "UdpCallback cb a d \<in> set (fst (runOnce w st))"
  shows "0 < length d \<and> length d \<le> UDP_BUFFER_SIZE"
proof (cases "0 \<le> select_result w \<or> interrupted w")
  case True
  then show ?thesis using assms udpDrain_sizes [of cb a d] readTcp_events [of "UdpCallback cb a d" w st]
    by (auto simp: runOnce_eq split: if_splits)
qed (use assms in \<open>simp add: runOnce_def\<close>)

text \<open>What follows in the stream is not a frame, or one that is too large.\<close>

definition malformed :: "bytes \<Rightarrow> bool" where
  "malformed buf \<longleftrightarrow> 5 < length buf \<and> (take 3 buf \<noteq> TLS_HEADER \<or> TCP_READ_BUFFER \<le> 5 + expectedSize buf)"

text \<open>A connection between two rounds: closed and about to be removed, or open with nothing in its
  buffer that could be delivered.\<close>

definition conn_ok :: "TcpConnection \<Rightarrow> bool" where
  "conn_ok conn \<longleftrightarrow>
     (if hasErrored conn then conn_fd conn = -1
      else 0 < conn_fd conn \<and> (encapsulation conn = NONE \<and> readBuffer conn = [] \<or> waiting_conn conn))"

text \<open>What a round owes to a connection: nothing if it is not reported; otherwise some of what is
  in the stream, at least one byte if there is one, is cut into packets, as it comes or along the
  frames, and the rest is kept.  The connection fails only if the stream has ended or is malformed, and
  it does if the stream has ended and nothing is left to read.\<close>

definition served :: "world \<Rightarrow> TcpConnection \<Rightarrow> bytes list \<Rightarrow> TcpConnection \<Rightarrow> bool" where
  "served w conn packets conn' \<longleftrightarrow>
     (let incoming = concat (stream w (conn_fd conn)); ended = stream_ended w (conn_fd conn) in
      if hasErrored conn \<or> \<not> ready w (conn_fd conn) then packets = [] \<and> conn' = conn
      else \<exists>taken rest. incoming = taken @ rest \<and> (incoming \<noteq> [] \<longrightarrow> taken \<noteq> []) \<and>
        readBuffer conn @ taken =
          (if encapsulation conn = NONE then concat packets else concat (map tls_frame packets)) @ readBuffer conn' \<and>
        encapsulation conn' = encapsulation conn \<and>
        (if hasErrored conn'
         then conn_fd conn' = -1 \<and> (ended \<or> encapsulation conn = FRAMED_TLS_MASKED \<and> malformed (readBuffer conn'))
         else conn_fd conn' = conn_fd conn \<and> \<not> (ended \<and> incoming = [])))"

lemma servedI:
  assumes "\<not> hasErrored conn" and "ready w (conn_fd conn)"
    and "concat (stream w (conn_fd conn)) = taken @ rest" and "concat (stream w (conn_fd conn)) \<noteq> [] \<longrightarrow> taken \<noteq> []"
    and "readBuffer conn @ taken = (if encapsulation conn = NONE then concat packets else concat (map tls_frame packets)) @ readBuffer conn'"
    and "encapsulation conn' = encapsulation conn"
    and "hasErrored conn' \<Longrightarrow> conn_fd conn' = -1 \<and>
      (stream_ended w (conn_fd conn) \<or> encapsulation conn = FRAMED_TLS_MASKED \<and> malformed (readBuffer conn'))"
    and "\<not> hasErrored conn' \<Longrightarrow> conn_fd conn' = conn_fd conn \<and> \<not> (stream_ended w (conn_fd conn) \<and> concat (stream w (conn_fd conn)) = [])"
  shows "served w conn packets conn'"
  unfolding served_def Let_def using assms by metis

lemma tls_frame_chunk:
  assumes "5 + expectedSize buf \<le> length buf" and "take 3 buf = TLS_HEADER"
  shows "tls_frame (chunk 5 (expectedSize buf) buf) @ drop (5 + expectedSize buf) buf = buf"
proof -
  have "pack (word_of_nat (expectedSize buf) :: u16) = chunk 3 2 buf"
    using assms(1) le_bytes_le_word [of "chunk 3 2 buf", where 'a = 16]
    by (simp add: expectedSize_def pack_def chunk_def)
  moreover have "length (chunk 5 (expectedSize buf) buf) = expectedSize buf" using assms(1) by (simp add: chunk_def)
  ultimately have "tls_frame (chunk 5 (expectedSize buf) buf) = take 3 buf @ chunk 3 2 buf @ chunk 5 (expectedSize buf) buf"
    using assms(2) by (simp add: tls_frame_def)
  then show ?thesis by (simp add: chunk_def drop_drop add.commute) (metis append_take_drop_id drop_drop numeral_Bit0 numeral_Bit1 add.commute)
qed

lemma readFrames_frames:
  "readFrames conn = (packets, conn', continue) \<Longrightarrow>
     readBuffer conn = concat (map tls_frame packets) @ readBuffer conn' \<and> encapsulation conn' = encapsulation conn \<and>
     (hasErrored conn' \<longrightarrow> hasErrored conn \<or> malformed (readBuffer conn'))"
proof (induction "length (readBuffer conn)" arbitrary: conn packets rule: less_induct)
  case less
  let ?n = "5 + expectedSize (readBuffer conn)"
  let ?conn1 = "conn\<lparr>readBuffer := drop ?n (readBuffer conn)\<rparr>"
  show ?case
  proof (cases rule: readFrames_cases [of "readBuffer conn"])
    case packet
    then obtain ps where ps: "readFrames ?conn1 = (ps, conn', continue)" "packets = chunk 5 (expectedSize (readBuffer conn)) (readBuffer conn) # ps"
      using less.prems readFrames_step(4) [of conn] by (auto split: prod.splits)
    have "readBuffer ?conn1 = concat (map tls_frame ps) @ readBuffer conn' \<and> encapsulation conn' = encapsulation ?conn1 \<and>
        (hasErrored conn' \<longrightarrow> hasErrored ?conn1 \<or> malformed (readBuffer conn'))"
      using less.hyps [OF _ ps(1)] packet by simp
    then show ?thesis using tls_frame_chunk [OF packet(4,2)] ps(2) by simp
  qed (use less.prems readFrames_step(1-3) [of conn] in \<open>auto simp: malformed_def\<close>)
qed

lemma handleRead_plain:
  "handleRead esp ended conn segs = (packets, conn', segs') \<Longrightarrow> encapsulation conn = NONE \<Longrightarrow> readBuffer conn = [] \<Longrightarrow>
   concat segs = concat packets @ concat segs' \<and> (concat segs \<noteq> [] \<longrightarrow> concat packets \<noteq> []) \<and>
   (conn' = conn \<and> \<not> (ended \<and> concat segs = []) \<or> ended \<and> conn' = tcp_close conn)"
proof (induction esp ended conn segs arbitrary: packets rule: handleRead.induct)
  case (1 esp ended conn segs)
  let ?avail = "TCP_READ_BUFFER - length (readBuffer conn)"
  have av: "0 < ?avail" using 1(4) by (simp add: TCP_READ_BUFFER_def)
  obtain r segs1 where r: "recv ?avail ended segs = (r, segs1)" by fastforce
  show ?case
  proof (cases r)
    case (Received d)
    have d: "d \<noteq> []" "concat segs = d @ concat segs1" using recv_Received r Received av by blast+
    have p: "processBuffer (conn\<lparr>readBuffer := readBuffer conn @ d\<rparr>) = ([d], conn, True)"
      using 1(3,4) by (simp add: processBuffer_def)
    show ?thesis
    proof (cases esp)
      case True
      then have "packets = [d]" "conn' = conn" "segs' = segs1"
        using 1(2) av r Received p by (subst (asm) handleRead.simps; simp add: Let_def)+
      then show ?thesis using d by (simp del: concat_eq_Nil_conv)
    next
      case False
      then obtain ps2 where h: "handleRead esp ended conn segs1 = (ps2, conn', segs')" "packets = [d] @ ps2"
        using 1(2) av r Received p by (subst (asm) handleRead.simps) (auto simp: Let_def split: prod.splits)
      have ih: "concat segs1 = concat ps2 @ concat segs' \<and> (concat segs1 \<noteq> [] \<longrightarrow> concat ps2 \<noteq> []) \<and>
          (conn' = conn \<and> \<not> (ended \<and> concat segs1 = []) \<or> ended \<and> conn' = tcp_close conn)"
        by (rule 1(1) [of ?avail r segs1 d "([d], conn, True)" "[d]" "(conn, True)" conn True ps2])
          (use av r Received p False h(1) 1(3,4) in simp_all)
      have "concat packets = d @ concat ps2" using h(2) by simp
      then have "concat segs = concat packets @ concat segs'" "concat packets \<noteq> []" "concat segs \<noteq> []" using d ih by (metis append.assoc append_is_Nil_conv)+
      then show ?thesis using ih by metis
    qed
  next
    case Would_block
    then have "packets = []" "conn' = conn" "segs' = segs1"
      using 1(2) av r by (subst (asm) handleRead.simps; simp add: Let_def)+
    moreover have "concat segs = []" "concat segs1 = []" "\<not> ended" using recv_other(1) [of ?avail ended segs segs1] r Would_block by auto
    ultimately show ?thesis by (simp del: concat_eq_Nil_conv)
  next
    case Recv_failed
    then have "packets = []" "conn' = tcp_close conn" "segs' = segs1"
      using 1(2) av r by (subst (asm) handleRead.simps; simp add: Let_def)+
    moreover have "concat segs = []" "concat segs1 = []" "ended" using recv_other(2) [of ?avail ended segs segs1] r Recv_failed by auto
    ultimately show ?thesis by (simp del: concat_eq_Nil_conv)
  qed
qed

lemma conn_ok_close: "conn_ok (tcp_close conn)"
  by (simp add: conn_ok_def)

lemma conn_ok_connect:
  assumes "tcp_connect s transportType st = (r, closed, st')" and "new_fd s \<noteq> 0" and "\<forall>conn \<in> set (tcpConnections st). conn_ok conn"
  shows "\<forall>conn \<in> set (tcpConnections st'). conn_ok conn"
proof -
  let ?conn = "\<lparr>conn_fd = new_fd s, readBuffer = [], encapsulation = transportType, hasErrored = False\<rparr>"
  have "readFrames ?conn = ([], ?conn, False)" by (rule readFrames_step(1)) simp
  then have "0 < new_fd s \<Longrightarrow> conn_ok ?conn" by (cases transportType) (auto simp: conn_ok_def waiting_conn_def)
  then show ?thesis using assms by (auto simp: tcp_connect_def Let_def split: if_splits)
qed

lemma readTcp_served:
  assumes "conn \<in> set (tcpConnections st)" and "conn_ok conn" and "readTcp w st conn = (events, conn')"
  shows "\<exists>packets. events = map (DataCallback (conn_fd conn)) packets \<and> served w conn packets conn' \<and> conn_ok conn'"
proof (cases "hasErrored conn \<or> \<not> ready w (conn_fd conn)")
  case True
  then have "readTcp w st conn = ([], conn)"
    using assms(2) by (auto simp: readTcp_def readset_def conn_ok_def)
  then show ?thesis using True assms(2,3) by (auto simp: served_def)
next
  case False
  let ?segs = "stream w (conn_fd conn)" and ?ended = "stream_ended w (conn_fd conn)"
  obtain packets segs' where h: "handleRead (esp_platform w) ?ended conn ?segs = (packets, conn', segs')"
    and e: "events = map (DataCallback (conn_fd conn)) packets"
  proof -
    have "readset w st (conn_fd conn)" "conn_fd conn \<noteq> -1" using assms(1,2) False by (auto simp: readset_def conn_ok_def)
    then show ?thesis using assms(3) that by (auto simp: readTcp_def split: prod.splits)
  qed
  have "served w conn packets conn' \<and> conn_ok conn'"
  proof (cases "encapsulation conn = NONE")
    case True
    then have "readBuffer conn = []" using assms(2) False by (auto simp: conn_ok_def waiting_conn_def)
    note buf = this
    have taken: "concat ?segs = concat packets @ concat segs'" "concat ?segs \<noteq> [] \<longrightarrow> concat packets \<noteq> []"
      and c: "conn' = conn \<and> \<not> (?ended \<and> concat ?segs = []) \<or> ?ended \<and> conn' = tcp_close conn"
      using handleRead_plain [OF h True buf] by blast+
    have "served w conn packets conn'"
      by (rule servedI [OF _ _ taken]) (use c False True buf in \<open>auto simp del: concat_eq_Nil_conv\<close>)
    moreover have "conn_ok conn'" using c assms(2) conn_ok_close by auto
    ultimately show ?thesis by simp
  next
    case framed: False
    then have w: "waiting_conn conn" "encapsulation conn = FRAMED_TLS_MASKED" using assms(2) False by (auto simp: conn_ok_def waiting_conn_def)
    obtain taken k c where t: "concat ?segs = taken @ concat segs'"
      "readFrames (conn\<lparr>readBuffer := readBuffer conn @ taken\<rparr>) = (packets, c, k)"
      "concat ?segs \<noteq> [] \<longrightarrow> taken \<noteq> []" "?ended \<and> concat ?segs = [] \<longrightarrow> hasErrored conn'"
      "conn' = c \<or> ?ended \<and> \<not> hasErrored c \<and> conn' = tcp_close c"
      "if hasErrored c then conn_fd c = -1 else waiting_conn c \<and> conn_fd c = conn_fd conn"
      using handleRead_reads [OF h w(1)] by blast
    have f: "readBuffer conn @ taken = concat (map tls_frame packets) @ readBuffer c" "encapsulation c = FRAMED_TLS_MASKED"
      "hasErrored c \<longrightarrow> malformed (readBuffer c)"
      using readFrames_frames [OF t(2)] w False by simp_all
    have "served w conn packets conn'"
      by (rule servedI [OF _ _ t(1,3)]) (use t(4-6) f w(2) False in \<open>auto simp del: concat_eq_Nil_conv split: if_splits\<close>)
    moreover have "conn_ok conn'" using t(5,6) False assms(2) by (auto simp: conn_ok_def)
    ultimately show ?thesis by simp
  qed
  then show ?thesis using e by blast
qed

text \<open>The states the socket layer can reach from its start.  No connection gets descriptor 0, which the
  process has open since its start; \<open>runOnce\<close> would never wait for it.\<close>

inductive sockets_reachable :: "'cb sockets \<Rightarrow> bool" where
  sockets_start: "sockets_reachable \<lparr>udpSockets = [], customSockets = [], tcpConnections = [],
    unicastUdpFd = -1, multicastUdpFd4 = -1, multicastUdpFd6 = -1\<rparr>"
| sockets_unicast: "sockets_reachable st \<Longrightarrow> udpListenUnicast s port callback setAsDefault st = (r, st') \<Longrightarrow> sockets_reachable st'"
| sockets_multicast: "sockets_reachable st \<Longrightarrow> udpListenMulticast s address callback st = (r, st') \<Longrightarrow> sockets_reachable st'"
| sockets_custom: "sockets_reachable st \<Longrightarrow> sockets_reachable (bindCustomFd fd callback st)"
| sockets_connect: "sockets_reachable st \<Longrightarrow> tcp_connect s transportType st = (conn, closed, st') \<Longrightarrow> new_fd s \<noteq> 0 \<Longrightarrow> sockets_reachable st'"
| sockets_close: "sockets_reachable st \<Longrightarrow> i < length (tcpConnections st) \<Longrightarrow>
    sockets_reachable (st\<lparr>tcpConnections := (tcpConnections st)[i := tcp_close (tcpConnections st ! i)]\<rparr>)"
| sockets_round: "sockets_reachable st \<Longrightarrow> runOnce w st = (events, st') \<Longrightarrow> sockets_reachable st'"

lemma runOnce_conn_ok:
  assumes "runOnce w st = (events, st')" and "\<forall>conn \<in> set (tcpConnections st). conn_ok conn"
  shows "\<forall>conn \<in> set (tcpConnections st'). conn_ok conn"
proof (cases "0 \<le> select_result w \<or> interrupted w")
  case True
  have "conn_ok (snd (readTcp w st conn))" if "conn \<in> set (tcpConnections st)" for conn
    using readTcp_served [OF that _ prod.collapse [symmetric], of w] assms(2) that by blast
  then show ?thesis using assms(1) by (auto simp: runOnce_eq [OF True])
next
  case False
  then show ?thesis using assms by (auto simp: runOnce_def)
qed

lemma sockets_reachable_ok: "sockets_reachable st \<Longrightarrow> \<forall>conn \<in> set (tcpConnections st). conn_ok conn"
proof (induction rule: sockets_reachable.induct)
  case (sockets_unicast st s port callback setAsDefault r st')
  then show ?case by (auto simp: udpListenUnicast_def Let_def split: if_splits)
next
  case (sockets_multicast st s address callback r st')
  then show ?case by (auto simp: udpListenMulticast_def Let_def split: if_splits)
next
  case (sockets_close st i)
  then show ?case using conn_ok_close set_update_subset_insert [of "tcpConnections st" i] by fastforce
next
  case (sockets_connect st s transportType conn closed st')
  show ?case by (rule conn_ok_connect [OF sockets_connect.hyps(2,3) sockets_connect.IH])
next
  case (sockets_round st w events st')
  show ?case by (rule runOnce_conn_ok [OF sockets_round.hyps(2) sockets_round.IH])
qed (simp_all add: bindCustomFd_def)

text \<open>C21: A round of the select loop in any state the socket layer can reach.  Afterwards every connection is
  open, and has at least two of the 2000 bytes of its receive buffer free.  Served are, in this
  order: every UDP socket that is reported, with all its datagrams up to the first empty one, each cut
  to 2000 bytes; every custom socket that is reported; every TCP connection that is reported, with
  packets that are cut from its stream as \<open>served\<close> says, while the others are left alone.  Then every
  failed connection gets one error callback, and exactly the failed ones are removed.\<close>

theorem runOnce_connections:
  assumes "sockets_reachable st" and "0 \<le> select_result w" and "runOnce w st = (events, st')"
  shows "(\<forall>conn \<in> set (tcpConnections st'). \<not> hasErrored conn \<and> conn_fd conn \<noteq> -1 \<and> length (readBuffer conn) \<le> 1998) \<and>
    (\<exists>rs. list_all2 (\<lambda>conn (packets, conn'). served w conn packets conn') (tcpConnections st) rs \<and>
       st' = st\<lparr>tcpConnections := filter (\<lambda>c. \<not> hasErrored c) (map snd rs)\<rparr> \<and>
       events =
         concat (map (\<lambda>(fd, callback).
           if fd \<noteq> -1 \<and> ready w fd
           then map (\<lambda>(s, d). UdpCallback callback (ipFromSockaddr s) (take 2000 d)) (takeWhile (\<lambda>(s, d). d \<noteq> []) (datagrams w fd))
           else []) (udpSockets st)) @
         map (\<lambda>(fd, callback). CustomCallback callback) (filter (\<lambda>(fd, callback). fd \<noteq> -1 \<and> ready w fd) (customSockets st)) @
         concat (map (\<lambda>(conn, packets, conn'). map (DataCallback (conn_fd conn)) packets) (zip (tcpConnections st) rs)) @
         map ErrorCallback (filter hasErrored (map snd rs)))"
proof -
  have ok: "\<forall>conn \<in> set (tcpConnections st). conn_ok conn" by (rule sockets_reachable_ok [OF assms(1)])
  have bound: "length (readBuffer conn) \<le> 1998" "conn_fd conn \<noteq> -1" if "conn_ok conn" "\<not> hasErrored conn" for conn
    using that waiting_conn_bound [of conn] by (auto simp: conn_ok_def TCP_READ_BUFFER_def)
  have "\<forall>conn \<in> set (tcpConnections st). \<exists>r. map (DataCallback (conn_fd conn)) (fst r) = fst (readTcp w st conn) \<and>
      snd r = snd (readTcp w st conn) \<and> served w conn (fst r) (snd r)"
    using readTcp_served [of _ st w] ok by (metis fst_conv prod.collapse snd_conv)
  then obtain f where f: "\<forall>conn \<in> set (tcpConnections st). map (DataCallback (conn_fd conn)) (fst (f conn)) = fst (readTcp w st conn) \<and>
      snd (f conn) = snd (readTcp w st conn) \<and> served w conn (fst (f conn)) (snd (f conn))"
    by metis
  let ?rs = "map f (tcpConnections st)"
  have snd_eq: "map (snd \<circ> readTcp w st) (tcpConnections st) = map snd ?rs" using f by simp
  have "map (\<lambda>(conn, packets, conn'). map (DataCallback (conn_fd conn)) packets) (zip xs (map f xs)) = map (fst \<circ> readTcp w st) xs"
    if "\<forall>conn \<in> set xs. map (DataCallback (conn_fd conn)) (fst (f conn)) = fst (readTcp w st conn)" for xs
    using that by (induction xs) (simp_all add: split_beta)
  from this [of "tcpConnections st"] have fst_eq:
    "map (\<lambda>(conn, packets, conn'). map (DataCallback (conn_fd conn)) packets) (zip (tcpConnections st) ?rs) =
      map (fst \<circ> readTcp w st) (tcpConnections st)" using f by blast
  have s: "list_all2 (\<lambda>conn (packets, conn'). served w conn packets conn') (tcpConnections st) ?rs"
    using f by (simp add: list_all2_conv_all_nth split_beta del: prod.collapse) (metis nth_mem)
  have r: "0 \<le> select_result w \<or> interrupted w" using assms(2) by simp
  have eq: "events = fst (runOnce w st)" "st' = snd (runOnce w st)" using assms(3) by simp_all
  have "\<forall>conn \<in> set (tcpConnections st'). conn_ok conn" by (rule runOnce_conn_ok [OF assms(3) ok])
  moreover have "st' = st\<lparr>tcpConnections := filter (\<lambda>c. \<not> hasErrored c) (map snd ?rs)\<rparr>"
    unfolding eq(2) runOnce_eq [OF r] snd_eq by simp
  ultimately show ?thesis
    unfolding eq(1) runOnce_eq [OF r] snd_eq udpDrain_eq UDP_BUFFER_SIZE_def using s bound fst_eq
    by (intro conjI exI [of _ ?rs]) auto
qed

definition toy_world :: world where
  "toy_world = \<lparr>esp_platform = False, select_result = 2, interrupted = False, ready = (\<lambda>fd. fd < 5), datagrams = (\<lambda>_. [(Sockaddr_in6 0 (replicate 16 0), [1])]),
     stream = (\<lambda>_. [[1, 2, 3, 4, 5, 6]]), stream_ended = (\<lambda>_. False)\<rparr>"

definition toy_sockets :: "nat sockets" where
  "toy_sockets = \<lparr>udpSockets = [(4, 0)], customSockets = [], tcpConnections = [toy_conn, toy_conn\<lparr>conn_fd := 7\<rparr>],
     unicastUdpFd = 4, multicastUdpFd4 = -1, multicastUdpFd6 = -1\<rparr>"

lemma toy_sockets_reachable: "sockets_reachable toy_sockets"
proof -
  define s :: "int \<Rightarrow> sys" where "s = (\<lambda>fd. \<lparr>new_fd = fd, bind_ok = (\<lambda>_. True), join_ok = True, connect_ok = True, connect_ready = True, so_error = 0\<rparr>)"
  let ?st = "\<lambda>udp fd conns. \<lparr>udpSockets = udp, customSockets = [], tcpConnections = conns, unicastUdpFd = fd, multicastUdpFd4 = -1, multicastUdpFd6 = -1\<rparr>"
  have "udpListenUnicast (s 4) 5582 0 True (?st [] (-1) []) = (True, ?st [(4, 0)] 4 [])"
    by (simp add: s_def udpListenUnicast_def bindUdpSocket_def)
  from sockets_unicast [OF sockets_start this] have 1: "sockets_reachable (?st [(4, 0)] 4 [])" .
  have "tcp_connect (s 3) FRAMED_TLS_MASKED (?st [(4, 0)] 4 []) = (Some toy_conn, [], ?st [(4, 0)] 4 [toy_conn])"
    by (simp add: s_def toy_conn_def tcp_connect_def Let_def)
  from sockets_connect [OF 1 this] have 2: "sockets_reachable (?st [(4, 0)] 4 [toy_conn])" by (simp add: s_def)
  have "tcp_connect (s 7) FRAMED_TLS_MASKED (?st [(4, 0)] 4 [toy_conn]) =
      (Some (toy_conn\<lparr>conn_fd := 7\<rparr>), [], ?st [(4, 0)] 4 [toy_conn, toy_conn\<lparr>conn_fd := 7\<rparr>])"
    by (simp add: s_def toy_conn_def tcp_connect_def Let_def)
  from sockets_connect [OF 2 this] show ?thesis by (simp add: s_def toy_sockets_def)
qed

theorem runOnce_connections_witness:
  "UdpCallback 0 (ipFromSockaddr (Sockaddr_in6 0 (replicate 16 0))) [1] \<in> set (fst (runOnce toy_world toy_sockets)) \<and>
   toy_conn\<lparr>conn_fd := 7\<rparr> \<in> set (tcpConnections (snd (runOnce toy_world toy_sockets)))"
proof -
  have "0 \<le> select_result toy_world" by (simp add: toy_world_def)
  note round = runOnce_connections [OF toy_sockets_reachable this prod.collapse [symmetric]]
  obtain rs where
    rs: "list_all2 (\<lambda>conn (packets, conn'). served toy_world conn packets conn') (tcpConnections toy_sockets) rs"
      "snd (runOnce toy_world toy_sockets) = toy_sockets\<lparr>tcpConnections := filter (\<lambda>c. \<not> hasErrored c) (map snd rs)\<rparr>"
    and events: "\<exists>later. fst (runOnce toy_world toy_sockets) = concat (map (\<lambda>(fd, callback).
           if fd \<noteq> -1 \<and> ready toy_world fd
           then map (\<lambda>(s, d). UdpCallback callback (ipFromSockaddr s) (take 2000 d)) (takeWhile (\<lambda>(s, d). d \<noteq> []) (datagrams toy_world fd))
           else []) (udpSockets toy_sockets)) @ later"
    using round by blast
  have "(\<lambda>(packets, conn'). served toy_world (toy_conn\<lparr>conn_fd := 7\<rparr>) packets conn') (rs ! 1)" "length rs = 2"
    using rs(1) by (auto simp: toy_sockets_def list_all2_conv_all_nth)
  then have "snd (rs ! 1) = toy_conn\<lparr>conn_fd := 7\<rparr>" "rs ! 1 \<in> set rs" 
    by (auto simp: served_def toy_world_def toy_conn_def split: prod.splits)
  moreover have "UdpCallback 0 (ipFromSockaddr (Sockaddr_in6 0 (replicate 16 0))) [1] \<in> set (fst (runOnce toy_world toy_sockets))"
    using events by (elim exE) (simp add: toy_world_def toy_sockets_def del: ipFromSockaddr.simps)
  ultimately show ?thesis using rs(2) by (force simp: toy_conn_def)
qed

lemma htons_htons [simp]: "htons (htons p) = p"
  unfolding htons_def by (rule bit_word_eqI) (auto simp: bit_simps)

text \<open>An address survives the way through a socket address, except that the NAT64 prefix is
  replaced by the prefix of mapped IPv4 addresses.\<close>

theorem sockaddr_roundtrip:
  assumes "ip_wf (ip_of a)"
  shows "ipFromSockaddr (makeSockaddr a True) =
      (if take 4 (ip_data (ip_of a)) = [0, 0x64, 0xff, 0x9b]
       then InetAddress (IpAddress (replicate 10 0 @ [0xFF, 0xFF] @ drop 12 (ip_data (ip_of a)))) (port_of a) else a) \<and>
    (isMappedV4 (ip_of a) \<longrightarrow> ipFromSockaddr (makeSockaddr a False) = a)"
proof -
  obtain d p where a: "a = InetAddress (IpAddress d) p" by (metis inetaddress.exhaust ipaddress.exhaust)
  have l: "length d = 16" using assms a by (simp add: ip_wf_def)
  have t: "take 4 d = [d ! 0, d ! 1, d ! 2, d ! 3]" using l by (simp add: numeral_eq_Suc take_Suc_conv_app_nth)
  have "d = take 12 d @ chunk 12 4 d" using l by (simp add: chunk_def)
  then have "isMappedV4 (IpAddress d) \<Longrightarrow> replicate 10 0 @ [0xFF, 0xFF] @ chunk 12 4 d = d"
    unfolding isMappedV4_def by (metis append.assoc ipaddress.sel)
  then show ?thesis unfolding a using t by (auto simp: makeSockaddr_def)
qed

theorem sockaddr_roundtrip_witness:
  "ipFromSockaddr (makeSockaddr (InetAddress (IpAddress (replicate 16 1)) 5582) True) = InetAddress (IpAddress (replicate 16 1)) 5582"
  using sockaddr_roundtrip [of "InetAddress (IpAddress (replicate 16 1)) 5582"] by (simp add: ip_wf_def numeral_eq_Suc)

end
