(* ===== verification/Sha1.thy ===== *)
theory Sha1
  imports Util
begin

unbundle bit_operations_syntax

text \<open>
  \<open>sha1.c\<close>: the hash of the WebSocket handshake.  The code works on a block of sixteen words in
  place and renames the five working variables from round to round instead of moving their values;
  a context collects the input in a buffer and counts its bits in two 32-bit words.  The model is of
  the little-endian build.  It is shown to compute SHA-1 as FIPS 180 defines it, with a schedule of
  eighty words and a padded message.
\<close>

section \<open>Rounds\<close>

definition rol :: "u32 \<Rightarrow> nat \<Rightarrow> u32" where
  "rol v k = push_bit k v OR drop_bit (32 - k) v"

text \<open>The working variables \<open>a\<close> to \<open>e\<close> and the block; \<open>blk0\<close> and \<open>blk\<close> assign to the block and
  have the value assigned.\<close>

type_synonym vars = "u32 list"
type_synonym block = "u32 list"

definition blk0 :: "nat \<Rightarrow> block \<Rightarrow> u32 \<times> block" where
  "blk0 i l = (let x = (rol (l ! i) 24 AND 0xFF00FF00) OR (rol (l ! i) 8 AND 0x00FF00FF) in (x, l[i := x]))"

definition blk :: "nat \<Rightarrow> block \<Rightarrow> u32 \<times> block" where
  "blk i l =
     (let x = rol (l ! ((i + 13) mod 16) XOR l ! ((i + 8) mod 16) XOR l ! ((i + 2) mod 16) XOR l ! (i mod 16)) 1
      in (x, l[i mod 16 := x]))"

text \<open>The five macros; their parameters \<open>v\<close> to \<open>z\<close> are positions of variables.\<close>

type_synonym roles = "nat \<times> nat \<times> nat \<times> nat \<times> nat"

definition macro :: "(u32 \<Rightarrow> u32 \<Rightarrow> u32 \<Rightarrow> u32) \<Rightarrow> u32 \<Rightarrow> (nat \<Rightarrow> block \<Rightarrow> u32 \<times> block) \<Rightarrow> roles \<Rightarrow> nat \<Rightarrow> vars \<times> block \<Rightarrow> vars \<times> block" where
  "macro f k input r i s =
     (case (r, s) of ((v, w, x, y, z), (vs, l)) \<Rightarrow>
        let (b, l) = input i l;
            vs = vs[z := vs ! z + (f (vs ! w) (vs ! x) (vs ! y) + b + k + rol (vs ! v) 5)]
        in (vs[w := rol (vs ! w) 30], l))"

definition R0 :: "roles \<Rightarrow> nat \<Rightarrow> vars \<times> block \<Rightarrow> vars \<times> block" where
  "R0 = macro (\<lambda>w x y. (w AND (x XOR y)) XOR y) 0x5A827999 blk0"

definition R1 :: "roles \<Rightarrow> nat \<Rightarrow> vars \<times> block \<Rightarrow> vars \<times> block" where
  "R1 = macro (\<lambda>w x y. (w AND (x XOR y)) XOR y) 0x5A827999 blk"

definition R2 :: "roles \<Rightarrow> nat \<Rightarrow> vars \<times> block \<Rightarrow> vars \<times> block" where
  "R2 = macro (\<lambda>w x y. w XOR x XOR y) 0x6ED9EBA1 blk"

definition R3 :: "roles \<Rightarrow> nat \<Rightarrow> vars \<times> block \<Rightarrow> vars \<times> block" where
  "R3 = macro (\<lambda>w x y. ((w OR x) AND y) OR (w AND x)) 0x8F1BBCDC blk"

definition R4 :: "roles \<Rightarrow> nat \<Rightarrow> vars \<times> block \<Rightarrow> vars \<times> block" where
  "R4 = macro (\<lambda>w x y. w XOR x XOR y) 0xCA62C1D6 blk"

text \<open>The unrolled loop: the parameters of the rounds repeat after five.\<close>

definition parameters :: "nat \<Rightarrow> roles" where
  "parameters i = [(0, 1, 2, 3, 4), (4, 0, 1, 2, 3), (3, 4, 0, 1, 2), (2, 3, 4, 0, 1), (1, 2, 3, 4, 0)] ! (i mod 5)"

definition round :: "nat \<Rightarrow> vars \<times> block \<Rightarrow> vars \<times> block" where
  "round i = (if i < 16 then R0 else if i < 20 then R1 else if i < 40 then R2 else if i < 60 then R3 else R4) (parameters i) i"

definition load :: "bytes \<Rightarrow> block" where
  "load buffer = map (\<lambda>i. le_word (chunk (4 * i) 4 buffer)) [0..<16]"

definition SHA1Transform :: "u32 list \<Rightarrow> bytes \<Rightarrow> u32 list" where
  "SHA1Transform state buffer = map2 (+) state (fst (fold round [0..<80] (state, load buffer)))"

section \<open>Contexts\<close>

record SHA1_CTX =
  ctx_state :: "u32 list"
  count0 :: u32
  count1 :: u32
  ctx_buffer :: bytes

definition SHA1Init :: "bytes \<Rightarrow> SHA1_CTX" where
  "SHA1Init garbage = \<lparr>ctx_state = [0x67452301, 0xEFCDAB89, 0x98BADCFE, 0x10325476, 0xC3D2E1F0], count0 = 0, count1 = 0,
     ctx_buffer = garbage\<rparr>"

definition memcpy :: "bytes \<Rightarrow> nat \<Rightarrow> bytes \<Rightarrow> bytes" where
  "memcpy dest at source = take at dest @ source @ drop (at + length source) dest"

lemma length_memcpy [simp]: "at + length source \<le> length dest \<Longrightarrow> length (memcpy dest at source) = length dest"
  by (simp add: memcpy_def)

text \<open>The loop over the full blocks that are still in the input, with what it leaves of it.\<close>

function transformBlocks :: "u32 list \<Rightarrow> bytes \<Rightarrow> u32 list \<times> bytes" where
  "transformBlocks state data =
     (if 64 \<le> length data then transformBlocks (SHA1Transform state (take 64 data)) (drop 64 data) else (state, data))"
  by pat_completeness auto

termination
  by (relation "measure (\<lambda>(state, data). length data)") auto

declare transformBlocks.simps [simp del]

text \<open>The positions in the input are natural numbers: the sums of the loop do not wrap for inputs of
  fewer than \<open>2 ^ 32 - 64\<close> bytes (the code passes one or eight).\<close>

definition SHA1Update :: "bytes \<Rightarrow> SHA1_CTX \<Rightarrow> SHA1_CTX" where
  "SHA1Update data c =
     (let len = word_of_nat (length data) :: u32;
          j = count0 c;
          c = c\<lparr>count0 := count0 c + push_bit 3 len\<rparr>;
          c = (if count0 c < j then c\<lparr>count1 := count1 c + 1\<rparr> else c);
          c = c\<lparr>count1 := count1 c + drop_bit 29 len\<rparr>;
          j = unat (drop_bit 3 j AND 63)
      in if j + length data > 63 then
           let i = 64 - j;
               buffer = memcpy (ctx_buffer c) j (take i data);
               (state, rest) = transformBlocks (SHA1Transform (ctx_state c) buffer) (drop i data)
           in c\<lparr>ctx_state := state, ctx_buffer := memcpy buffer 0 rest\<rparr>
         else c\<lparr>ctx_buffer := memcpy (ctx_buffer c) j data\<rparr>)"

definition finalcount :: "SHA1_CTX \<Rightarrow> bytes" where
  "finalcount c = map (\<lambda>i. ucast (drop_bit ((3 - i mod 4) * 8) (if i \<ge> 4 then count0 c else count1 c) AND 255)) [0..<8]"

text \<open>The bits counted are those of whole bytes; the rest of the count turns round in 64 steps.\<close>

definition position :: "u32 \<Rightarrow> nat" where
  "position w = unat w div 8 mod 64"

lemma count0_update: "count0 (SHA1Update data c) = count0 c + push_bit 3 (word_of_nat (length data))"
  by (simp add: SHA1Update_def Let_def split: prod.split)

lemma position_next: "position (w + 8) = Suc (position w) mod 64"
proof -
  have *: "n mod 512 div 8 = n div 8 mod 64" for n :: nat using mod_mult2_eq [of n 8 64] by simp
  have "unat (w + 8) mod 512 = (unat w + 8) mod 512"
    by (simp add: unat_word_ariths mod_mod_cancel)
  then have "unat (w + 8) mod 512 div 8 = (unat w + 8) mod 512 div 8" by simp
  moreover have "(unat w + 8) div 8 = Suc (unat w div 8)" by simp
  ultimately show ?thesis unfolding * position_def by (simp add: mod_Suc_eq del: div_add_self2)
qed

lemma position_masks:
  "unat (drop_bit 3 w AND 63) = position w" "w AND 504 = 448 \<longleftrightarrow> position w = 56"
proof -
  have m: "(63 :: u32) = mask 6" "(504 :: u32) = push_bit 3 (mask 6)" by (simp_all add: mask_eq_exp_minus_1 push_bit_eq_mult)
  show 1: "unat (drop_bit 3 w AND 63) = position w"
    unfolding m take_bit_eq_mask [symmetric] by (simp add: position_def drop_bit_eq_div take_bit_eq_mod unat_div_distrib unat_mod_distrib)
  have "w AND 504 = push_bit 3 (drop_bit 3 w AND 63)"
    unfolding m by (rule bit_word_eqI) (auto simp: bit_simps)
  moreover have "(448 :: u32) = push_bit 3 56" by (simp add: push_bit_eq_mult)
  ultimately have "w AND 504 = 448 \<longleftrightarrow> push_bit 3 (drop_bit 3 w AND 63) = push_bit 3 (56 :: u32)" by simp
  also have "\<dots> \<longleftrightarrow> drop_bit 3 w AND 63 = (56 :: u32)"
  proof
    assume "push_bit 3 (drop_bit 3 w AND 63) = push_bit 3 (56 :: u32)"
    then have "drop_bit 3 (push_bit 3 (drop_bit 3 w AND 63)) = drop_bit 3 (push_bit 3 (56 :: u32))" by simp
    moreover have "drop_bit 3 (push_bit 3 (drop_bit 3 w AND 63)) = drop_bit 3 w AND 63"
      unfolding m by (rule bit_word_eqI) (auto simp: bit_simps)
    ultimately show "drop_bit 3 w AND 63 = (56 :: u32)" by (simp add: push_bit_eq_mult)
  qed simp
  also have "\<dots> \<longleftrightarrow> position w = 56" unfolding 1 [symmetric] by (simp add: word_unat_eq_iff)
  finally show "w AND 504 = 448 \<longleftrightarrow> position w = 56" .
qed

function padZeros :: "SHA1_CTX \<Rightarrow> SHA1_CTX" where
  "padZeros c = (if count0 c AND 504 \<noteq> 448 then padZeros (SHA1Update [0] c) else c)"
  by pat_completeness auto

termination
proof (relation "measure (\<lambda>c. (120 - position (count0 c)) mod 64)")
  fix c :: SHA1_CTX assume "count0 c AND 504 \<noteq> 448"
  then have "position (count0 c) \<noteq> 56" by (simp add: position_masks)
  moreover have "position (count0 c) < 64" by (simp add: position_def)
  moreover have "position (count0 (SHA1Update [0] c)) = Suc (position (count0 c)) mod 64"
    by (simp add: count0_update push_bit_eq_mult position_next)
  ultimately show "(SHA1Update [0] c, c) \<in> measure (\<lambda>c. (120 - position (count0 c)) mod 64)"
    by (cases "position (count0 c) = 63") (auto simp: mod_if)
qed simp

declare padZeros.simps [simp del]

definition SHA1Final :: "SHA1_CTX \<Rightarrow> bytes" where
  "SHA1Final c =
     (let c' = SHA1Update (finalcount c) (padZeros (SHA1Update [0x80] c))
      in map (\<lambda>i. ucast (drop_bit ((3 - i mod 4) * 8) (ctx_state c' ! (i div 4)) AND 255)) [0..<20])"

definition SHA1 :: "bytes \<Rightarrow> bytes \<Rightarrow> bytes" where
  "SHA1 garbage s = SHA1Final (fold (\<lambda>x. SHA1Update [x]) s (SHA1Init garbage))"

section \<open>The standard\<close>

definition be_word :: "bytes \<Rightarrow> u32" where
  "be_word bs = le_word (rev bs)"

fun schedule :: "bytes \<Rightarrow> nat \<Rightarrow> u32" where
  "schedule m t =
     (if t < 16 then be_word (chunk (4 * t) 4 m)
      else rol (schedule m (t - 3) XOR schedule m (t - 8) XOR schedule m (t - 14) XOR schedule m (t - 16)) 1)"

declare schedule.simps [simp del]

definition Ch :: "u32 \<Rightarrow> u32 \<Rightarrow> u32 \<Rightarrow> u32" where
  "Ch x y z = (x AND y) XOR (NOT x AND z)"

definition Maj :: "u32 \<Rightarrow> u32 \<Rightarrow> u32 \<Rightarrow> u32" where
  "Maj x y z = (x AND y) XOR (x AND z) XOR (y AND z)"

definition Parity :: "u32 \<Rightarrow> u32 \<Rightarrow> u32 \<Rightarrow> u32" where
  "Parity x y z = x XOR y XOR z"

definition std_f :: "nat \<Rightarrow> u32 \<Rightarrow> u32 \<Rightarrow> u32 \<Rightarrow> u32" where
  "std_f t = (if t < 20 then Ch else if t < 40 then Parity else if t < 60 then Maj else Parity)"

definition std_K :: "nat \<Rightarrow> u32" where
  "std_K t = (if t < 20 then 0x5A827999 else if t < 40 then 0x6ED9EBA1 else if t < 60 then 0x8F1BBCDC else 0xCA62C1D6)"

definition std_step :: "bytes \<Rightarrow> nat \<Rightarrow> u32 list \<Rightarrow> u32 list" where
  "std_step m t h =
     [rol (h ! 0) 5 + std_f t (h ! 1) (h ! 2) (h ! 3) + h ! 4 + std_K t + schedule m t, h ! 0, rol (h ! 1) 30, h ! 2, h ! 3]"

definition std_block :: "u32 list \<Rightarrow> bytes \<Rightarrow> u32 list" where
  "std_block h m = map2 (+) h (fold (std_step m) [0..<80] h)"

text \<open>The hash values after the full blocks of a message, and the bytes left.\<close>

function std_blocks :: "u32 list \<Rightarrow> bytes \<Rightarrow> u32 list \<times> bytes" where
  "std_blocks h m = (if 64 \<le> length m then std_blocks (std_block h (take 64 m)) (drop 64 m) else (h, m))"
  by pat_completeness auto

termination
  by (relation "measure (\<lambda>(h, m). length m)") auto

declare std_blocks.simps [simp del]

definition std_init :: "u32 list" where
  "std_init = [0x67452301, 0xEFCDAB89, 0x98BADCFE, 0x10325476, 0xC3D2E1F0]"

definition std_pad :: "bytes \<Rightarrow> bytes" where
  "std_pad m = m @ [0x80] @ replicate ((119 - length m mod 64) mod 64) 0 @ rev (le_bytes 8 (word_of_nat (8 * length m) :: u64))"

definition std_sha1 :: "bytes \<Rightarrow> bytes" where
  "std_sha1 m = concat (map be_bytes32 (fst (std_blocks std_init (std_pad m))))"

section \<open>A block\<close>

lemma length_four:
  assumes "length xs = 4"
  obtains a b c d where "xs = [a, b, c, d]"
  using assms by (auto simp: numeral_eq_Suc length_Suc_conv)

lemma byte_swap:
  assumes "length bs = 4"
  shows "(rol (le_word bs) 24 AND 0xFF00FF00) OR (rol (le_word bs) 8 AND 0x00FF00FF) = be_word bs"
proof -
  obtain a b c d where bs: "bs = [a, b, c, d]" using assms by (rule length_four)
  have m: "(0xFF00FF00 :: u32) = push_bit 8 (mask 8) OR push_bit 24 (mask 8)" "(0x00FF00FF :: u32) = mask 8 OR push_bit 16 (mask 8)"
    by (simp_all add: mask_eq_exp_minus_1 push_bit_eq_mult)
  show ?thesis
  proof (rule bit_word_eqI)
    fix n assume "n < LENGTH(32)"
    then have "n < 8 \<or> n - 8 < 8 \<and> n = (n - 8) + 8 \<or> n - 16 < 8 \<and> n = (n - 16) + 16 \<or> n - 24 < 8 \<and> n = (n - 24) + 24" by auto
    then obtain k where "k < 8" "n = k \<or> n = k + 8 \<or> n = k + 16 \<or> n = k + 24" by metis
    then show "bit ((rol (le_word bs) 24 AND 0xFF00FF00) OR (rol (le_word bs) 8 AND 0x00FF00FF)) n = bit (be_word bs) n"
      unfolding bs m be_word_def rol_def by (elim disjE) (simp_all add: bit_simps)
  qed
qed

definition block_ok :: "bytes \<Rightarrow> nat \<Rightarrow> block \<Rightarrow> bool" where
  "block_ok m i l \<longleftrightarrow> length l = 16 \<and> (\<forall>t < i. i \<le> t + 16 \<longrightarrow> l ! (t mod 16) = schedule m t) \<and>
     (\<forall>t. i \<le> t \<and> t < 16 \<longrightarrow> l ! t = le_word (chunk (4 * t) 4 m))"

lemma input_early:
  assumes "block_ok m i l" and "length m = 64" and "i < 16"
  shows "\<exists>l'. blk0 i l = (schedule m i, l') \<and> block_ok m (Suc i) l'"
proof -
  have "(rol (l ! i) 24 AND 0xFF00FF00) OR (rol (l ! i) 8 AND 0x00FF00FF) = schedule m i"
    using assms byte_swap [of "chunk (4 * i) 4 m"] by (simp add: block_ok_def schedule.simps [of m i])
  then have "blk0 i l = (schedule m i, l[i := schedule m i])" by (simp add: blk0_def Let_def)
  moreover have "block_ok m (Suc i) (l[i := schedule m i])"
    using assms by (auto simp: block_ok_def nth_list_update less_Suc_eq)
  ultimately show ?thesis by blast
qed

lemma input_late:
  assumes "block_ok m i l" and "16 \<le> i"
  shows "\<exists>l'. blk i l = (schedule m i, l') \<and> block_ok m (Suc i) l'"
proof -
  obtain j where i: "i = j + 16" using assms(2) le_Suc_ex add.commute by metis
  have at: "l ! (t mod 16) = schedule m t" if "j \<le> t" "t < i" for t using assms(1) that by (simp add: block_ok_def i)
  have "l ! ((i + 13) mod 16) = schedule m (i - 3)" "l ! ((i + 8) mod 16) = schedule m (i - 8)"
    "l ! ((i + 2) mod 16) = schedule m (i - 14)" "l ! (i mod 16) = schedule m (i - 16)"
    using at [of "j + 13"] at [of "j + 8"] at [of "j + 2"] at [of j] mod_add_self2 [of "j + 13" 16] mod_add_self2 [of "j + 8" 16]
      mod_add_self2 [of "j + 2" 16] by (simp_all add: i algebra_simps)
  then have "blk i l = (schedule m i, l[i mod 16 := schedule m i])"
    using assms(2) by (simp add: blk_def schedule.simps [of m i] Let_def)
  moreover have "block_ok m (Suc i) (l[i mod 16 := schedule m i])"
  proof -
    have *: "t mod 16 \<noteq> i mod 16" if "t < i" "i \<le> 15 + t" for t
    proof
      assume "t mod 16 = i mod 16"
      then have "16 dvd i - t" using that(1) mod_eq_dvd_iff_nat [of t i 16] by auto
      then show False using that by (auto dest: dvd_imp_le)
    qed
    show ?thesis using assms * by (auto simp: block_ok_def nth_list_update less_Suc_eq) (metis *)
  qed
  ultimately show ?thesis by blast
qed

definition arranged :: "nat \<Rightarrow> vars \<Rightarrow> u32 list" where
  "arranged i vs = (case parameters i of (v, w, x, y, z) \<Rightarrow> [vs ! v, vs ! w, vs ! x, vs ! y, vs ! z])"

lemma length_five:
  assumes "length xs = 5"
  obtains a b c d e where "xs = [a, b, c, d, e]"
  using assms by (auto simp: numeral_eq_Suc length_Suc_conv)

lemma update_numeral: "(x # xs)[numeral k := v] = x # xs[pred_numeral k := v]" "(x # xs)[1 := v] = x # xs[0 := v]"
  by (simp_all add: numeral_eq_Suc)

lemma macro_step:
  assumes "length vs = 5" and "input i l = (schedule m i, l')" and "\<And>w x y. f w x y = std_f i w x y" and "k = std_K i"
  shows "\<exists>vs'. macro f k input (parameters i) i (vs, l) = (vs', l') \<and> length vs' = 5 \<and>
    arranged (Suc i) vs' = std_step m i (arranged i vs)"
proof -
  obtain a b c d e where vs: "vs = [a, b, c, d, e]" using assms(1) by (rule length_five)
  obtain p q where pq: "parameters i = p" "parameters (Suc i) = q" by simp
  have "i mod 5 < 5" by simp
  then consider "i mod 5 = 0" | "i mod 5 = 1" | "i mod 5 = 2" | "i mod 5 = 3" | "i mod 5 = 4" by linarith
  then have "(p, q) \<in> {((0, 1, 2, 3, 4), (4, 0, 1, 2, 3)), ((4, 0, 1, 2, 3), (3, 4, 0, 1, 2)), ((3, 4, 0, 1, 2), (2, 3, 4, 0, 1)),
      ((2, 3, 4, 0, 1), (1, 2, 3, 4, 0)), ((1, 2, 3, 4, 0), (0, 1, 2, 3, 4))}"
    unfolding pq [symmetric] parameters_def by cases (simp_all add: mod_Suc)
  then show ?thesis
    unfolding arranged_def pq macro_def std_step_def vs
    by (elim insertE emptyE; simp add: assms(2) update_numeral) (simp_all add: assms(3,4) ac_simps)
qed

lemma choose: "(w AND (x XOR y)) XOR y = Ch w x y" "((w OR x) AND y) OR (w AND x) = Maj w x y"
  by (auto intro!: bit_word_eqI simp: Ch_def Maj_def bit_simps)

lemma round_step:
  assumes "length vs = 5" and "block_ok m i l" and "length m = 64"
  shows "\<exists>vs' l'. round i (vs, l) = (vs', l') \<and> length vs' = 5 \<and> block_ok m (Suc i) l' \<and>
    arranged (Suc i) vs' = std_step m i (arranged i vs)"
proof (cases "i < 16")
  case True
  then obtain l' where l': "blk0 i l = (schedule m i, l')" "block_ok m (Suc i) l'" using input_early assms by blast
  show ?thesis
    using macro_step [of vs blk0 i l m l' "\<lambda>w x y. (w AND (x XOR y)) XOR y", OF assms(1) l'(1)] l'(2) True
    by (auto simp: round_def R0_def std_f_def std_K_def choose)
next
  case False
  then obtain l' where l': "blk i l = (schedule m i, l')" "block_ok m (Suc i) l'" using input_late assms by fastforce
  note step = macro_step [of vs blk i l m l', OF assms(1) l'(1)]
  consider "16 \<le> i" "i < 20" | "20 \<le> i" "i < 40" | "40 \<le> i" "i < 60" | "60 \<le> i" using False by linarith
  then show ?thesis
  proof cases
    case 1
    then show ?thesis using step [of "\<lambda>w x y. (w AND (x XOR y)) XOR y"] l'(2)
      by (auto simp: round_def R1_def std_f_def std_K_def choose)
  next
    case 2
    then show ?thesis using step [of "\<lambda>w x y. w XOR x XOR y"] l'(2)
      by (auto simp: round_def R2_def std_f_def std_K_def Parity_def)
  next
    case 3
    then show ?thesis using step [of "\<lambda>w x y. ((w OR x) AND y) OR (w AND x)"] l'(2)
      by (auto simp: round_def R3_def std_f_def std_K_def choose)
  next
    case 4
    then show ?thesis using step [of "\<lambda>w x y. w XOR x XOR y"] l'(2)
      by (auto simp: round_def R4_def std_f_def std_K_def Parity_def)
  qed
qed

lemma rounds:
  assumes "length vs = 5" and "length m = 64"
  shows "\<exists>vs' l'. fold round [0..<i] (vs, load m) = (vs', l') \<and> length vs' = 5 \<and> block_ok m i l' \<and>
    arranged i vs' = fold (std_step m) [0..<i] vs"
proof (induction i)
  case 0
  obtain a b c d e where "vs = [a, b, c, d, e]" using assms(1) by (rule length_five)
  then show ?case by (simp add: block_ok_def load_def arranged_def parameters_def)
next
  case (Suc i)
  then obtain vs' l' where s: "fold round [0..<i] (vs, load m) = (vs', l')" "length vs' = 5" "block_ok m i l'"
    "arranged i vs' = fold (std_step m) [0..<i] vs" by blast
  then show ?case using round_step [OF s(2,3) assms(2)] by (auto simp: s)
qed

lemma transform_std: "length h = 5 \<Longrightarrow> length m = 64 \<Longrightarrow> SHA1Transform h m = std_block h m"
proof -
  assume a: "length h = 5" "length m = 64"
  then obtain vs' l' where s: "fold round [0..<80] (h, load m) = (vs', l')" "length vs' = 5"
    "arranged 80 vs' = fold (std_step m) [0..<80] h" using rounds by blast
  moreover have "arranged 80 vs' = vs'"
    using s(2) by (rule length_five) (simp add: arranged_def parameters_def)
  ultimately show ?thesis by (simp add: SHA1Transform_def std_block_def)
qed

section \<open>Messages\<close>

lemma length_std_block [simp]: "length h = 5 \<Longrightarrow> length (std_block h m) = 5"
proof -
  have "length (fold (std_step m) ts h) = 5" if "length h = 5" for ts
    using that by (induction ts arbitrary: h) (simp_all add: std_step_def)
  then show "length h = 5 \<Longrightarrow> length (std_block h m) = 5" by (simp add: std_block_def)
qed

lemma blocks_std: "length h = 5 \<Longrightarrow> transformBlocks h d = std_blocks h d"
proof (induction h d rule: std_blocks.induct)
  case (1 h m)
  then show ?case using transform_std [of h "take 64 m"]
    by (simp add: transformBlocks.simps [of h m] std_blocks.simps [of h m])
qed

lemma std_blocks_append: "std_blocks h (m @ d) = std_blocks (fst (std_blocks h m)) (snd (std_blocks h m) @ d)"
proof (induction h m rule: std_blocks.induct)
  case (1 h m)
  then show ?case by (cases "64 \<le> length m") (simp_all add: std_blocks.simps [of h m] std_blocks.simps [of h "m @ d"])
qed

lemma std_blocks_lengths: "length h = 5 \<Longrightarrow> length (fst (std_blocks h m)) = 5 \<and> length (snd (std_blocks h m)) = length m mod 64"
proof (induction h m rule: std_blocks.induct)
  case (1 h m)
  then show ?case by (simp add: std_blocks.simps [of h m] le_mod_geq)
qed

definition counted :: "SHA1_CTX \<Rightarrow> nat" where
  "counted c = unat (count1 c) * 2 ^ 32 + unat (count0 c)"

text \<open>What a context stands for: the message that was read.\<close>

definition represents :: "SHA1_CTX \<Rightarrow> bytes \<Rightarrow> bool" where
  "represents c m \<longleftrightarrow> ctx_state c = fst (std_blocks std_init m) \<and> length (ctx_buffer c) = 64 \<and>
     take (length m mod 64) (ctx_buffer c) = snd (std_blocks std_init m) \<and> counted c = 8 * length m"

lemma represents_init: "length garbage = 64 \<Longrightarrow> represents (SHA1Init garbage) []"
  by (simp add: represents_def SHA1Init_def counted_def std_init_def std_blocks.simps [of _ "[]"])

lemma position_counted:
  assumes "counted c = 8 * n"
  shows "position (count0 c) = n mod 64"
proof -
  have "(unat (count1 c) * 2 ^ 29 + unat (count0 c) div 8) mod 64 = (8 * n) div 8 mod 64"
    unfolding assms [symmetric] counted_def
    using div_mult_self2 [of 8 "unat (count0 c)" "unat (count1 c) * 2 ^ 29"] by (simp add: algebra_simps)
  moreover have "(unat (count1 c) * 2 ^ 29 + k) mod 64 = k mod 64" for k
    using mod_mult_self3 [of "unat (count1 c) * 2 ^ 23" 64 k] by (simp add: algebra_simps)
  ultimately show ?thesis by (simp add: position_def)
qed

lemma counted_update:
  assumes "length d < 2 ^ 32" and "counted c + 8 * length d < 2 ^ 64"
  shows "counted (SHA1Update d c) = counted c + 8 * length d"
proof -
  define len s h where "len = (word_of_nat (length d) :: u32)" and "s = push_bit 3 len" and "h = drop_bit 29 len"
  define c0 c1 where "c0 = count0 c + s" and "c1 = (if c0 < count0 c then count1 c + 1 else count1 c) + h"
  have len: "unat len = length d" using assms(1) by (simp add: len_def unat_of_nat)
  have s: "unat s = 8 * length d mod 2 ^ 32" using len by (simp add: s_def push_bit_eq_mult unat_word_ariths mult.commute)
  have h: "unat h = 8 * length d div 2 ^ 32" using len by (simp add: h_def drop_bit_eq_div unat_div_distrib)
  have sum: "unat h * 2 ^ 32 + unat s = 8 * length d" unfolding s h by (rule div_mult_mod_eq)
  have c0: "unat c0 = (unat (count0 c) + unat s) mod 2 ^ 32" by (simp add: c0_def unat_word_ariths)
  have lt: "unat (count0 c) < 2 ^ 32" "unat s < 2 ^ 32" using unsigned_less [of "count0 c"] unsigned_less [of s] by simp_all
  have carry: "c0 < count0 c \<longleftrightarrow> 2 ^ 32 \<le> unat (count0 c) + unat s"
    using lt by (auto simp: word_less_nat_alt c0 mod_if)
  have "unat c1 = (unat (count1 c) + (if c0 < count0 c then 1 else 0) + unat h) mod 2 ^ 32"
    by (simp add: c1_def unat_word_ariths mod_simps)
  moreover have "(unat (count1 c) + (if c0 < count0 c then 1 else 0) + unat h) * 2 ^ 32 + unat c0 = counted c + 8 * length d"
    using lt carry sum by (auto simp: counted_def c0 mod_if)
  ultimately have "unat c1 * 2 ^ 32 + unat c0 = counted c + 8 * length d"
    using assms(2) by (simp add: mod_if split: if_splits)
  moreover have "count0 (SHA1Update d c) = c0" "count1 (SHA1Update d c) = c1"
    by (simp_all add: SHA1Update_def Let_def c0_def c1_def s_def h_def len_def split: prod.split)
  ultimately show ?thesis by (simp add: counted_def)
qed

lemma represents_update:
  assumes "represents c m" and "length d < 2 ^ 32" and "8 * length (m @ d) < 2 ^ 64"
  shows "represents (SHA1Update d c) (m @ d)"
proof -
  let ?h = "fst (std_blocks std_init m)" and ?j = "length m mod 64" and ?r = "snd (std_blocks std_init m)"
  have h: "length ?h = 5" and r: "length ?r = ?j" using std_blocks_lengths [of std_init m] by (simp_all add: std_init_def)
  have c: "ctx_state c = ?h" "length (ctx_buffer c) = 64" "take ?j (ctx_buffer c) = ?r" "counted c = 8 * length m"
    using assms(1) by (simp_all add: represents_def)
  have count: "counted (SHA1Update d c) = 8 * length (m @ d)" using counted_update [OF assms(2)] assms(3) c(4) by simp
  have j: "unat (drop_bit 3 (count0 c) AND 63) = ?j" using position_counted [OF c(4)] by (simp add: position_masks)
  have std: "std_blocks std_init (m @ d) = std_blocks ?h (?r @ d)" by (rule std_blocks_append)
  show ?thesis
  proof (cases "?j + length d > 63")
    case True
    let ?b = "?r @ take (64 - ?j) d"
    have b: "memcpy (ctx_buffer c) ?j (take (64 - ?j) d) = ?b" "length ?b = 64" using c(2,3) r True by (simp_all add: memcpy_def)
    let ?s = "std_blocks (std_block ?h ?b) (drop (64 - ?j) d)"
    have t: "transformBlocks (SHA1Transform ?h ?b) (drop (64 - ?j) d) = ?s" using blocks_std transform_std h b(2) by simp
    have full: "std_blocks ?h (?r @ d) = ?s" using True r b(2) by (simp add: std_blocks.simps [of ?h "?r @ d"])
    have l: "length (snd ?s) = length (m @ d) mod 64"
      using std_blocks_lengths [of std_init "m @ d"] std full by (simp add: std_init_def)
    have u: "ctx_state (SHA1Update d c) = fst ?s" "ctx_buffer (SHA1Update d c) = memcpy ?b 0 (snd ?s)"
      using True by (simp_all add: SHA1Update_def Let_def j c(1) b(1) t split: prod.split)
    have "length (snd ?s) < 64" unfolding l by simp
    then have "length (memcpy ?b 0 (snd ?s)) = 64" using b(2) by (simp del: length_append)
    moreover have "take (length (m @ d) mod 64) (memcpy ?b 0 (snd ?s)) = snd ?s" using l by (simp add: memcpy_def)
    ultimately show ?thesis unfolding represents_def u count std full by simp
  next
    case False
    have same: "std_blocks ?h (?r @ d) = (?h, ?r @ d)" using False r by (simp add: std_blocks.simps [of ?h "?r @ d"])
    have u: "ctx_state (SHA1Update d c) = ?h" "ctx_buffer (SHA1Update d c) = memcpy (ctx_buffer c) ?j d"
      using False by (simp_all add: SHA1Update_def Let_def j c(1))
    have "length (m @ d) mod 64 = (?j + length d) mod 64" by (simp add: mod_add_left_eq)
    also have "\<dots> = ?j + length d" using False by simp
    finally have l: "length (m @ d) mod 64 = ?j + length d" .
    have "length (memcpy (ctx_buffer c) ?j d) = 64" using False c(2) by (simp add: memcpy_def)
    moreover have "take (length (m @ d) mod 64) (memcpy (ctx_buffer c) ?j d) = ?r @ d" unfolding l using c(2,3) False r by (simp add: memcpy_def)
    ultimately show ?thesis unfolding represents_def u count std same by simp
  qed
qed

lemma represents_bytes:
  assumes "represents c m" and "8 * length (m @ d) < 2 ^ 64"
  shows "represents (fold (\<lambda>x. SHA1Update [x]) d c) (m @ d)"
  using assms
proof (induction d arbitrary: c m)
  case (Cons x d)
  then show ?case using represents_update [of c m "[x]"] Cons.IH [of "SHA1Update [x] c" "m @ [x]"] by simp
qed simp

lemma zeros: "r < 64 \<Longrightarrow> (120 - r) mod 64 = (if r \<le> 56 then 56 - r else 120 - (r :: nat))"
  by (simp add: mod_if)

lemma one_zero:
  "r < 64 \<Longrightarrow> Suc n = (120 - r) mod 64 \<Longrightarrow> r \<noteq> 56 \<and> n = (120 - (if Suc r = 64 then 0 else Suc r)) mod 64" for r n :: nat
  using zeros [of r] zeros [of "Suc r"] by (auto split: if_splits)

lemma represents_padZeros:
  assumes "represents c m" and "n = (120 - length m mod 64) mod 64" and "8 * (length m + n) < 2 ^ 64"
  shows "represents (padZeros c) (m @ replicate n 0)"
  using assms
proof (induction n arbitrary: c m)
  case 0
  then have "length m mod 64 = 56" using zeros [of "length m mod 64"] by (simp split: if_splits)
  then show ?case using 0 position_counted [of c "length m"] by (simp add: padZeros.simps [of c] position_masks represents_def)
next
  case (Suc n)
  have "length m mod 64 < 64" by simp
  note one = one_zero [OF this Suc.prems(2)]
  then have m: "length m mod 64 \<noteq> 56" by blast
  have "represents (SHA1Update [0] c) (m @ [0])" using represents_update [of c m "[0]"] Suc.prems by simp
  moreover have "n = (120 - length (m @ [0]) mod 64) mod 64"
    using one by (simp add: mod_Suc)
  moreover have "8 * (length (m @ [0]) + n) < 2 ^ 64" using Suc.prems(3) by simp
  ultimately have "represents (padZeros (SHA1Update [0] c)) ((m @ [0]) @ replicate n 0)" by (rule Suc.IH)
  then show ?case
    using m Suc.prems(1) position_counted [of c "length m"] by (simp add: padZeros.simps [of c] position_masks represents_def)
qed

lemma byte_255: "(ucast (w AND 255 :: u32) :: byte) = ucast w"
proof -
  have m: "(255 :: u32) = mask 8" by (simp add: mask_eq_exp_minus_1)
  show ?thesis unfolding m by (auto intro!: bit_word_eqI simp: bit_simps)
qed

lemma big_endian: "be_bytes32 w = [ucast (drop_bit 24 w), ucast (drop_bit 16 w), ucast (drop_bit 8 w), ucast w]"
  by (simp add: be_bytes32_def numeral_eq_Suc)

lemma big_endian_64:
  "rev (le_bytes 8 (w :: u64)) = be_bytes32 (ucast (drop_bit 32 w)) @ be_bytes32 (ucast w)"
proof -
  have "(ucast (drop_bit k (ucast w :: u32)) :: byte) = ucast (drop_bit k w)" if "k \<le> 24" for k
    using that by (auto intro!: bit_word_eqI simp: bit_simps)
  moreover have "(ucast (ucast w :: u32) :: byte) = ucast w" for w :: u64
    by (auto intro!: bit_word_eqI simp: bit_simps)
  moreover have "(ucast (drop_bit k (ucast (drop_bit 32 w) :: u32)) :: byte) = ucast (drop_bit (k + 32) w)" if "k \<le> 24" for k
    using that by (auto intro!: bit_word_eqI simp: bit_simps ac_simps)
  ultimately show ?thesis by (simp add: big_endian eval_nat_numeral)
qed

lemma upt_8: "[0..<8] = [0, 1, 2, 3, 4, 5, 6, 7 :: nat]" by code_simp

lemma upt_20: "[0..<20] = [0, 1, 2, 3, 4, 5, 6, 7, 8, 9, 10, 11, 12, 13, 14, 15, 16, 17, 18, 19 :: nat]" by code_simp

lemma finalcount_std:
  assumes "counted c = n" and "n < 2 ^ 64"
  shows "finalcount c = rev (le_bytes 8 (word_of_nat n :: u64))"
proof -
  have "finalcount c = be_bytes32 (count1 c) @ be_bytes32 (count0 c)"
    unfolding finalcount_def upt_8 by (simp add: big_endian byte_255)
  moreover have "unat (count0 c) < 2 ^ 32" using unsigned_less [of "count0 c"] by simp
  then have "n mod 2 ^ 32 = unat (count0 c)" "n div 2 ^ 32 = unat (count1 c)" using assms(1) [symmetric] by (simp_all add: counted_def)
  then have "ucast (word_of_nat n :: u64) = count0 c" "ucast (drop_bit 32 (word_of_nat n :: u64)) = count1 c"
    using assms(2) by (simp_all add: word_unat_eq_iff unsigned_ucast_eq take_bit_eq_mod unat_of_nat drop_bit_eq_div unat_div_distrib)
  ultimately show ?thesis by (simp add: big_endian_64)
qed

lemma digest_std: "length h = 5 \<Longrightarrow> map (\<lambda>i. ucast (drop_bit ((3 - i mod 4) * 8) (h ! (i div 4)) AND 255)) [0..<20] = concat (map be_bytes32 h)"
  unfolding upt_20 by (erule length_five) (simp add: big_endian byte_255)

lemma sha1_std:
  assumes "length s < 2 ^ 32" and "length garbage = 64"
  shows "SHA1 garbage s = std_sha1 s"
proof -
  define c where "c = fold (\<lambda>x. SHA1Update [x]) s (SHA1Init garbage)"
  let ?k = "(119 - length s mod 64) mod 64" and ?z = "padZeros (SHA1Update [0x80] c)"
  have k: "?k = (120 - length (s @ [0x80]) mod 64) mod 64"
    by (cases "length s mod 64 = 63") (simp_all add: mod_Suc)
  have "?k < 64" by simp
  have c: "represents c s" using represents_bytes [OF represents_init [OF assms(2)], of s] assms(1) by (simp add: c_def)
  then have "represents (SHA1Update [0x80] c) (s @ [0x80])" using represents_update [of c s "[0x80]"] assms(1) by simp
  then have "represents ?z ((s @ [0x80]) @ replicate ?k 0)"
    using represents_padZeros [OF _ k] assms(1) \<open>?k < 64\<close> by simp
  moreover have f: "finalcount c = rev (le_bytes 8 (word_of_nat (8 * length s) :: u64))"
    using finalcount_std [of c] c assms(1) by (simp add: represents_def)
  ultimately have "represents (SHA1Update (finalcount c) ?z) (std_pad s)"
    using represents_update [of ?z "(s @ [0x80]) @ replicate ?k 0" "finalcount c"] assms(1) \<open>?k < 64\<close> by (simp add: std_pad_def)
  then have "ctx_state (SHA1Update (finalcount c) ?z) = fst (std_blocks std_init (std_pad s))" by (simp add: represents_def)
  then show ?thesis
    using std_blocks_lengths [of std_init "std_pad s"] digest_std
    by (simp add: SHA1_def c_def [symmetric] SHA1Final_def Let_def std_sha1_def std_init_def)
qed

section \<open>Properties\<close>

text \<open>C33: The implementation computes SHA-1: for every input of a length its parameter can have, the
  digest is that of the standard, whatever the buffer of the context held before.\<close>

theorem sha1_standard:
  assumes "length s < 2 ^ 32" and "length garbage = 64"
  shows "SHA1 garbage s = std_sha1 s"
  by (rule sha1_std [OF assms])

theorem sha1_standard_witness:
  "SHA1 (replicate 64 7) (str ''abc'') = std_sha1 (str ''abc'')"
  by (rule sha1_standard) simp_all

end
