(* ===== verification/WebSocket.thy ===== *)
theory WebSocket
  imports Http Sockets Sha1
begin

unbundle bit_operations_syntax

text \<open>
  \<open>websocket_message.cpp\<close> and \<open>websocket.cpp\<close>: the WebSocket client of the event bus.  The TCP
  connection is the one of the socket theory; what the client does with it is recorded as effects.
  The random generator, the base64 encoder and the number parser are parameters (\<open>ws_lib\<close>), and
  \<open>ctx_memory\<close> is what the uninitialised context of the hash holds.  \<open>None\<close> is a failed assertion of the code or of the container library.

  The results: a message is read back as it was encoded, up to the size at which the sign extension
  of the length bytes begins to matter; several messages in a segment are handled in order; the
  socket is open only after an answer that carries the hash of its own nonce; the connection is
  there exactly while the state is not \<open>SOCK_CLOSED\<close>, so reconnecting never fails its assertion.
\<close>

section \<open>Messages\<close>

record Message =
  fin :: bool
  rsv1 :: bool
  rsv2 :: bool
  rsv3 :: bool
  opcode :: byte
  masked :: bool
  msg_data :: bytes

definition Message_of :: "byte \<Rightarrow> bool \<Rightarrow> Message" where
  "Message_of op m = \<lparr>fin = True, rsv1 = False, rsv2 = False, rsv3 = False, opcode = op, masked = m, msg_data = []\<rparr>"

definition OP_TEXT :: byte where "OP_TEXT = 0x1"

definition OP_BINARY :: byte where "OP_BINARY = 0x2"

definition OP_CLOSE :: byte where "OP_CLOSE = 0x8"

definition OP_PING :: byte where "OP_PING = 0x9"

definition OP_PONG :: byte where "OP_PONG = 0xA"

definition DATA_CAPACITY :: nat where "DATA_CAPACITY = 128"

definition TRANSPORT_CAPACITY :: nat where "TRANSPORT_CAPACITY = 1024"

text \<open>A length byte is a \<open>char\<close>: on platforms where that is signed, it is extended with its sign.\<close>

definition char_to_size :: "bool \<Rightarrow> byte \<Rightarrow> u64" where
  "char_to_size cs c = (if cs then scast c else ucast c)"

definition be_length :: "bool \<Rightarrow> bytes \<Rightarrow> u64" where
  "be_length cs bs = foldl (\<lambda>n c. push_bit 8 n OR char_to_size cs c) 0 bs"

definition unmask :: "bytes \<Rightarrow> bytes \<Rightarrow> bytes" where
  "unmask key d = map (\<lambda>i. d ! i XOR key ! (i mod 4)) [0..<length d]"

text \<open>The caller does not look at the message object after a refusal.\<close>

datatype parse_result = Refused | Overflow | Parsed nat Message

definition message_parse :: "bool \<Rightarrow> bytes \<Rightarrow> parse_result" where
  "message_parse cs buffer =
     (if length buffer < 2 then Refused
      else
        let flags = buffer ! 0; second = buffer ! 1;
            msg = \<lparr>fin = bit flags 7, rsv1 = bit flags 6, rsv2 = bit flags 5, rsv3 = bit flags 4,
              opcode = flags AND 0x0F, masked = bit second 7, msg_data = []\<rparr>;
            len_byte = second AND 0x7F; rest = drop 2 buffer
        in
        if rsv1 msg \<or> rsv2 msg \<or> rsv3 msg then Refused
        else if \<not> fin msg then Refused
        else
          let header = (if len_byte < 126 then Some (unat len_byte, 2)
                else if len_byte = 126 \<and> length rest \<ge> 2 then Some (unat (be_length cs (take 2 rest)), 4)
                else if len_byte = 127 \<and> length rest \<ge> 8 then Some (unat (be_length cs (take 8 rest)), 10)
                else None)
          in case header of
               None \<Rightarrow> Refused
             | Some (n, pos) \<Rightarrow>
                 if masked msg \<and> length buffer - pos < 4 then Refused
                 else
                   let maskingKey = take 4 (drop pos buffer);
                       pos = (if masked msg then pos + 4 else pos)
                   in
                   if length buffer - pos < n then Refused
                   else if n > DATA_CAPACITY then Overflow
                   else
                     let d = take n (drop pos buffer) in
                     Parsed (pos + n) (msg\<lparr>msg_data := (if masked msg then unmask maskingKey d else d)\<rparr>))"

definition flag_byte :: "Message \<Rightarrow> byte" where
  "flag_byte msg = push_bit 7 (of_bool (fin msg)) OR push_bit 6 (of_bool (rsv1 msg)) OR push_bit 5 (of_bool (rsv2 msg)) OR
     push_bit 4 (of_bool (rsv3 msg)) OR (opcode msg AND 0x0F)"

definition length_bytes :: "bool \<Rightarrow> nat \<Rightarrow> bytes" where
  "length_bytes m n =
     (let mask = push_bit 7 (of_bool m) in
      if n < 126 then [word_of_nat n OR mask]
      else if n < 65536 then [126 OR mask, word_of_nat (n div 2 ^ 8), word_of_nat n]
      else [127 OR mask] @ map (\<lambda>k. word_of_nat (n div 2 ^ (8 * k))) [7, 6, 5, 4, 3, 2, 1, 0])"

text \<open>\<open>None\<close> if the key does not fit any more behind a payload that does.\<close>

definition message_encode :: "nat \<Rightarrow> bytes \<Rightarrow> Message \<Rightarrow> (bool \<times> bytes) option" where
  "message_encode capacity maskingKey msg =
     (let n = length (msg_data msg); header = [flag_byte msg] @ length_bytes (masked msg) n in
      if capacity < length header then None
      else if capacity - length header < n then Some (False, [])
      else if masked msg then
        if capacity < length header + 4 + n then None
        else Some (True, header @ maskingKey @ unmask maskingKey (msg_data msg))
      else Some (True, header @ msg_data msg))"

section \<open>The socket\<close>

datatype State = SOCK_CLOSED | WS_CLOSED | WS_CONNECTING | WS_OPEN | WS_CLOSING

record websocket =
  ws_conn :: "TcpConnection option"
  serverAddr :: inetaddress
  serverEndpoint :: bytes
  ws_nonce :: bytes
  ws_state :: State
  ws_draws :: nat

record ws_lib =
  char_signed :: bool
  ws_random :: "nat \<Rightarrow> nat \<Rightarrow> bytes"
  bin2base64 :: "bytes \<Rightarrow> bytes"
  ctx_memory :: bytes
  to_number :: "bytes \<Rightarrow> nat option"
  ws_user_agent :: bytes

text \<open>What goes out on the connection, its closing, and the messages for the callback.\<close>

datatype ws_effect = WsSend bytes | WsClose | WsMessage Message

definition WebSocket_new :: websocket where
  "WebSocket_new = \<lparr>ws_conn = None, serverAddr = InetAddress_default, serverEndpoint = [], ws_nonce = [],
     ws_state = SOCK_CLOSED, ws_draws = 0\<rparr>"

definition ws_close :: "websocket \<Rightarrow> ws_effect list \<times> websocket" where
  "ws_close ws =
     (if ws_conn ws = None then ([], ws) else ([WsClose], ws\<lparr>ws_conn := None, ws_state := SOCK_CLOSED\<rparr>))"

definition sendRaw :: "(bytes \<Rightarrow> int) \<Rightarrow> bytes \<Rightarrow> websocket \<Rightarrow> (bool \<times> ws_effect list) option" where
  "sendRaw send data ws =
     (case ws_conn ws of
        None \<Rightarrow> None
      | Some conn \<Rightarrow> map_option (\<lambda>(out, ok). (ok, [WsSend out])) (tcp_write_vector TRANSPORT_CAPACITY conn send data))"

text \<open>The encoding of a message with a fresh key.\<close>

definition sendMessage ::
  "ws_lib \<Rightarrow> (bytes \<Rightarrow> int) \<Rightarrow> Message \<Rightarrow> websocket \<Rightarrow> (ws_effect list \<times> websocket) option" where
  "sendMessage lib send msg ws =
     (case message_encode TRANSPORT_CAPACITY (ws_random lib (ws_draws ws) 4) msg of
        None \<Rightarrow> None
      | Some (ok, buf) \<Rightarrow> map_option (\<lambda>(sent, out). (out, ws\<lparr>ws_draws := ws_draws ws + 1\<rparr>)) (sendRaw send buf ws))"

definition ws_send :: "ws_lib \<Rightarrow> (bytes \<Rightarrow> int) \<Rightarrow> bytes \<Rightarrow> websocket \<Rightarrow> (ws_effect list \<times> websocket) option" where
  "ws_send lib send data ws =
     sendMessage lib send ((Message_of OP_TEXT True)\<lparr>msg_data := take DATA_CAPACITY (takeWhile (\<lambda>c. c \<noteq> 0) data)\<rparr>) ws"

definition sendPong :: "ws_lib \<Rightarrow> (bytes \<Rightarrow> int) \<Rightarrow> Message \<Rightarrow> websocket \<Rightarrow> (ws_effect list \<times> websocket) option" where
  "sendPong lib send msg = sendMessage lib send (msg\<lparr>opcode := OP_PONG, masked := True, fin := True\<rparr>)"

definition sendClose :: "ws_lib \<Rightarrow> (bytes \<Rightarrow> int) \<Rightarrow> websocket \<Rightarrow> (ws_effect list \<times> websocket) option" where
  "sendClose lib send = sendMessage lib send (Message_of OP_CLOSE True)"

section \<open>Incoming messages\<close>

definition handleMessage ::
  "ws_lib \<Rightarrow> (bytes \<Rightarrow> int) \<Rightarrow> Message \<Rightarrow> websocket \<Rightarrow> (ws_effect list \<times> websocket) option" where
  "handleMessage lib send msg ws =
     (if opcode msg = OP_TEXT \<or> opcode msg = OP_BINARY then Some ([WsMessage msg], ws)
      else if opcode msg = OP_PING then sendPong lib send msg ws
      else if opcode msg = OP_PONG then Some ([], ws)
      else if opcode msg = OP_CLOSE then do {
        (out, ws) \<leftarrow> sendClose lib send (ws\<lparr>ws_state := WS_CLOSING\<rparr>);
        Some (out @ fst (ws_close ws), snd (ws_close ws))
      }
      else Some ([], ws))"

lemma message_parse_consumes: "message_parse cs buffer = Parsed n msg \<Longrightarrow> 2 \<le> n \<and> n \<le> length buffer"
  by (auto simp: message_parse_def Let_def split: if_splits option.splits)

function handleData ::
  "ws_lib \<Rightarrow> (bytes \<Rightarrow> int) \<Rightarrow> bytes \<Rightarrow> websocket \<Rightarrow> (ws_effect list \<times> websocket) option" where
  "handleData lib send buf ws =
     (if buf = [] then Some ([], ws)
      else case message_parse (char_signed lib) buf of
        Refused \<Rightarrow> Some ([], ws)
      | Overflow \<Rightarrow> None
      | Parsed consumed msg \<Rightarrow>
          (case handleMessage lib send msg ws of
             None \<Rightarrow> None
           | Some (out, ws) \<Rightarrow> map_option (\<lambda>(later, ws). (out @ later, ws)) (handleData lib send (drop consumed buf) ws)))"
  by pat_completeness auto

termination
  by (relation "measure (\<lambda>(lib, send, buf, ws). length buf)") (auto dest!: message_parse_consumes)

declare handleData.simps [simp del]

section \<open>Handshake\<close>

definition handshakeRequest :: "ws_lib \<Rightarrow> bytes \<Rightarrow> websocket \<Rightarrow> HTTPMessage" where
  "handshakeRequest lib nonce ws =
     HTTPMessage_new\<lparr>req_method := str ''GET'', req_endpoint := serverEndpoint ws,
       headers := fold (\<lambda>(k, v). map_insert k v)
         [(str ''Host'', InetAddress_str (serverAddr ws)), (str ''Upgrade'', str ''websocket''), (str ''Connection'', str ''Upgrade''),
          (str ''Sec-WebSocket-Version'', str ''13''), (str ''User-Agent'', ws_user_agent lib), (str ''Sec-WebSocket-Key'', nonce)] []\<rparr>"

definition sendClientHandshake ::
  "ws_lib \<Rightarrow> (bytes \<Rightarrow> int) \<Rightarrow> websocket \<Rightarrow> (bool \<times> ws_effect list \<times> websocket) option" where
  "sendClientHandshake lib send ws =
     (let nonce = bin2base64 lib (ws_random lib (ws_draws ws) 16);
          ws = ws\<lparr>ws_nonce := nonce, ws_draws := ws_draws ws + 1\<rparr>
      in case encode TRANSPORT_CAPACITY (handshakeRequest lib nonce ws) of
           None \<Rightarrow> None
         | Some (buffer, msg) \<Rightarrow> map_option (\<lambda>(ok, out). (ok, out, ws)) (sendRaw send buffer ws))"

text \<open>\<open>strncmp\<close> of two strings is 0 exactly if they agree up to the first null byte or the limit.\<close>

definition strncmp_equal :: "nat \<Rightarrow> bytes \<Rightarrow> bytes \<Rightarrow> bool" where
  "strncmp_equal n a b \<longleftrightarrow> take n (takeWhile (\<lambda>c. c \<noteq> 0) a @ [0]) = take n (takeWhile (\<lambda>c. c \<noteq> 0) b @ [0])"

definition serverKey :: bytes where
  "serverKey = str ''258EAFA5-E914-47DA-95CA-C5AB0DC85B11''"

text \<open>The string for the hash has room for 64 characters.  \<open>operator[]\<close> adds a missing header as an
  empty string, which is not what is asked for.\<close>

definition verifyServerHandshake :: "ws_lib \<Rightarrow> websocket \<Rightarrow> HTTPMessage \<Rightarrow> bool" where
  "verifyServerHandshake lib ws msg \<longleftrightarrow>
     messageType msg = RESPONSE \<and> statusCode msg = 101 \<and>
     map_of (headers msg) (str ''Upgrade'') = Some (str ''websocket'') \<and>
     map_of (headers msg) (str ''Connection'') = Some (str ''Upgrade'') \<and>
     (case map_of (headers msg) (str ''Sec-WebSocket-Accept'') of
        None \<Rightarrow> False
      | Some v \<Rightarrow> strncmp_equal 29 (bin2base64 lib (SHA1 (ctx_memory lib) (take 64 (takeWhile (\<lambda>c. c \<noteq> 0) (ws_nonce ws) @ serverKey)))) v)"

definition handleHandshake :: "ws_lib \<Rightarrow> bytes \<Rightarrow> websocket \<Rightarrow> (ws_effect list \<times> websocket) option" where
  "handleHandshake lib buf ws =
     (case http_parse (to_number lib) buf HTTPMessage_new of
        None \<Rightarrow> None
      | Some (res, msg) \<Rightarrow>
          if res = INVALID \<or> res = INCOMPLETE \<or> \<not> verifyServerHandshake lib ws msg then Some (ws_close ws)
          else Some ([], ws\<lparr>ws_state := WS_OPEN\<rparr>))"

definition ws_handleRead ::
  "ws_lib \<Rightarrow> (bytes \<Rightarrow> int) \<Rightarrow> bytes \<Rightarrow> websocket \<Rightarrow> (ws_effect list \<times> websocket) option" where
  "ws_handleRead lib send buf ws =
     (case ws_state ws of
        SOCK_CLOSED \<Rightarrow> Some ([], ws)
      | WS_CLOSED \<Rightarrow> Some ([], ws)
      | WS_CONNECTING \<Rightarrow> handleHandshake lib buf ws
      | WS_OPEN \<Rightarrow> handleData lib send buf ws
      | WS_CLOSING \<Rightarrow> handleData lib send buf ws)"

text \<open>\<open>tcp\<close> is the result of connecting the TCP socket.  The endpoint has room for 128 characters.\<close>

definition ws_connect ::
  "ws_lib \<Rightarrow> (bytes \<Rightarrow> int) \<Rightarrow> TcpConnection option \<Rightarrow> inetaddress \<Rightarrow> bytes \<Rightarrow> websocket \<Rightarrow> (ws_effect list \<times> websocket) option" where
  "ws_connect lib send tcp address endpoint ws =
     (let ws = ws\<lparr>serverAddr := address, serverEndpoint := take 128 endpoint\<rparr> in
      if ws_conn ws \<noteq> None then None
      else if length endpoint > 128 then None
      else
        let ws = ws\<lparr>ws_conn := tcp\<rparr> in
        case tcp of
          None \<Rightarrow> Some ([], ws)
        | Some conn \<Rightarrow>
            if conn_fd conn < 0 then Some ([], ws)
            else (case sendClientHandshake lib send ws of
                None \<Rightarrow> None
              | Some (ok, out, ws) \<Rightarrow>
                  if \<not> ok then Some (out @ fst (ws_close ws), snd (ws_close ws))
                  else Some (out, ws\<lparr>ws_state := WS_CONNECTING\<rparr>)))"

section \<open>Encoding and parsing\<close>

lemma unmask_unmask: "unmask key (unmask key d) = d"
  by (rule nth_equalityI) (simp_all add: unmask_def xor.assoc)

lemma length_unmask [simp]: "length (unmask key d) = length d"
  by (simp add: unmask_def)

lemma flag_byte_bits:
  "bit (flag_byte msg) 7 = fin msg" "bit (flag_byte msg) 6 = rsv1 msg" "bit (flag_byte msg) 5 = rsv2 msg"
  "bit (flag_byte msg) 4 = rsv3 msg" "flag_byte msg AND 0x0F = opcode msg AND 0x0F"
proof -
  have m: "(0x0F :: byte) = mask 4" by (simp add: mask_numeral)
  show "bit (flag_byte msg) 7 = fin msg" "bit (flag_byte msg) 6 = rsv1 msg" "bit (flag_byte msg) 5 = rsv2 msg" "bit (flag_byte msg) 4 = rsv3 msg"
    by (auto simp: flag_byte_def bit_simps m)
  show "flag_byte msg AND 0x0F = opcode msg AND 0x0F"
    by (rule bit_word_eqI) (auto simp: flag_byte_def bit_simps m)
qed

text \<open>The first length byte.\<close>

lemma length_byte:
  assumes "n < 128"
  shows "bit ((word_of_nat n :: byte) OR push_bit 7 (of_bool m)) 7 = m"
    and "((word_of_nat n :: byte) OR push_bit 7 (of_bool m)) AND 0x7F = word_of_nat n"
proof -
  have k: "(0x7F :: byte) = mask 7" by (simp add: mask_numeral)
  have small: "\<not> bit (word_of_nat n :: byte) i" if "7 \<le> i" for i
  proof
    assume "bit (word_of_nat n :: byte) i"
    moreover have "unat (word_of_nat n :: byte) < 2 ^ 7" using assms by (simp add: unat_of_nat)
    ultimately show False using bit_below that by fastforce
  qed
  show "bit ((word_of_nat n :: byte) OR push_bit 7 (of_bool m)) 7 = m"
    using small [of 7] by (simp add: bit_simps)
  show "((word_of_nat n :: byte) OR push_bit 7 (of_bool m)) AND 0x7F = word_of_nat n"
  proof (rule bit_word_eqI)
    fix i assume "i < LENGTH(8)"
    then show "bit (((word_of_nat n :: byte) OR push_bit 7 (of_bool m)) AND 0x7F) i = bit (word_of_nat n :: byte) i"
      using small [of i] by (cases "i < 7") (auto simp: bit_simps k)
  qed
qed

text \<open>The sizes that survive the conversion of their low byte.\<close>

definition size_ok :: "bool \<Rightarrow> nat \<Rightarrow> bool" where
  "size_ok cs n \<longleftrightarrow> n < 128 \<or> n = 128 \<and> \<not> cs"

lemma unat_ucast_wide: "unat (ucast (b :: byte) :: u64) = unat b"
proof -
  have "unat b < 2 ^ LENGTH(8)" by (rule unsigned_less)
  then show ?thesis by (simp add: unsigned_ucast_eq take_bit_nat_eq_self)
qed

lemma char_to_size_small:
  assumes "size_ok cs n"
  shows "unat (char_to_size cs (word_of_nat n)) = n"
proof (cases "n < 128")
  case True
  then have "\<not> bit (word_of_nat n :: byte) i" if "7 \<le> i" for i
    using bit_below [of "word_of_nat n :: byte" 7 i] that by (auto simp: unat_of_nat)
  then have "(scast (word_of_nat n :: byte) :: u64) = ucast (word_of_nat n :: byte)"
    by (intro bit_word_eqI) (auto simp: bit_simps min_def)
  then show ?thesis using True by (simp add: char_to_size_def unat_ucast_wide unat_of_nat)
next
  case False
  then show ?thesis using assms by (auto simp: size_ok_def char_to_size_def unat_ucast_wide unat_of_nat)
qed

lemma be_length_two: "be_length cs [0, b] = char_to_size cs b"
  by (simp add: be_length_def char_to_size_def)

definition frame :: "bytes \<Rightarrow> Message \<Rightarrow> bytes" where
  "frame key msg = [flag_byte msg] @ length_bytes (masked msg) (length (msg_data msg)) @
     (if masked msg then key @ unmask key (msg_data msg) else msg_data msg)"

lemma message_encode_frame:
  assumes "length (msg_data msg) \<le> DATA_CAPACITY"
  shows "message_encode TRANSPORT_CAPACITY key msg = Some (True, frame key msg)"
  using assms by (simp add: message_encode_def frame_def length_bytes_def Let_def DATA_CAPACITY_def TRANSPORT_CAPACITY_def)

lemma message_parse_frame:
  assumes "size_ok cs (length (msg_data msg))" and "fin msg" "\<not> rsv1 msg" "\<not> rsv2 msg" "\<not> rsv3 msg"
    and "opcode msg AND 0x0F = opcode msg" and "length key = 4"
  shows "message_parse cs (frame key msg @ rest) = Parsed (length (frame key msg)) msg"
proof -
  let ?n = "length (msg_data msg)"
  have n: "?n \<le> 128" using assms(1) by (auto simp: size_ok_def)
  show ?thesis
  proof (cases "?n < 126")
    case True
    then have "frame key msg = [flag_byte msg, word_of_nat ?n OR push_bit 7 (of_bool (masked msg))] @
        (if masked msg then key @ unmask key (msg_data msg) else msg_data msg)"
      by (simp add: frame_def length_bytes_def Let_def)
    moreover have "(word_of_nat ?n :: byte) < 126" using True by (simp add: word_less_nat_alt unat_of_nat)
    ultimately show ?thesis
      using assms True length_byte [of ?n "masked msg"] flag_byte_bits [of msg]
      by (cases msg) (simp add: message_parse_def Let_def unat_of_nat DATA_CAPACITY_def unmask_unmask)
  next
    case False
    then have "frame key msg = [flag_byte msg, 126 OR push_bit 7 (of_bool (masked msg)), 0, word_of_nat ?n] @
        (if masked msg then key @ unmask key (msg_data msg) else msg_data msg)"
      using n by (simp add: frame_def length_bytes_def Let_def)
    then show ?thesis
      using assms False n length_byte [of 126 "masked msg"] flag_byte_bits [of msg] char_to_size_small [OF assms(1)]
      by (cases msg) (simp add: message_parse_def Let_def DATA_CAPACITY_def unmask_unmask be_length_two)
  qed
qed

section \<open>Segments\<close>

definition message_ok :: "bool \<Rightarrow> Message \<Rightarrow> bool" where
  "message_ok cs msg \<longleftrightarrow> fin msg \<and> \<not> rsv1 msg \<and> \<not> rsv2 msg \<and> \<not> rsv3 msg \<and> opcode msg AND 0x0F = opcode msg \<and>
     size_ok cs (length (msg_data msg))"

text \<open>What a sender writes for a message.\<close>

definition encoded :: "Message \<Rightarrow> bytes \<Rightarrow> bool" where
  "encoded msg f \<longleftrightarrow> (\<exists>key. length key = 4 \<and> message_encode TRANSPORT_CAPACITY key msg = Some (True, f))"

primrec handleMessages :: "ws_lib \<Rightarrow> (bytes \<Rightarrow> int) \<Rightarrow> Message list \<Rightarrow> websocket \<Rightarrow> (ws_effect list \<times> websocket) option" where
  "handleMessages lib send [] ws = Some ([], ws)"
| "handleMessages lib send (msg # msgs) ws =
     (case handleMessage lib send msg ws of
        None \<Rightarrow> None
      | Some (out, ws) \<Rightarrow> map_option (\<lambda>(later, ws). (out @ later, ws)) (handleMessages lib send msgs ws))"

lemma message_parse_encoded:
  assumes "message_ok cs msg" and "encoded msg f"
  shows "message_parse cs (f @ rest) = Parsed (length f) msg" "f \<noteq> []"
proof -
  obtain key where key: "length key = 4" "message_encode TRANSPORT_CAPACITY key msg = Some (True, f)"
    using assms(2) by (auto simp: encoded_def)
  have "length (msg_data msg) \<le> DATA_CAPACITY" using assms(1) by (auto simp: message_ok_def size_ok_def DATA_CAPACITY_def)
  then have f: "f = frame key msg" using key(2) message_encode_frame [of msg key] by simp
  then show "message_parse cs (f @ rest) = Parsed (length f) msg"
    using assms(1) key(1) message_parse_frame [of cs msg key rest] by (simp add: message_ok_def)
  show "f \<noteq> []" by (simp add: f frame_def)
qed

text \<open>A segment that holds whole messages is handled message by message.\<close>

lemma handleData_frames:
  assumes "list_all2 encoded msgs fs" and "list_all (message_ok (char_signed lib)) msgs"
  shows "handleData lib send (concat fs) ws = handleMessages lib send msgs ws"
  using assms
proof (induction msgs fs arbitrary: ws rule: list_all2_induct)
  case Nil
  then show ?case by (simp add: handleData.simps)
next
  case (Cons msg msgs f fs)
  then have "message_ok (char_signed lib) msg" by simp
  note p = message_parse_encoded [OF this Cons(1)]
  then have "message_parse (char_signed lib) (f @ concat fs) = Parsed (length f) msg" "f \<noteq> []" by auto
  then show ?case using Cons by (subst handleData.simps) (auto split: option.split)
qed

section \<open>The state of the connection\<close>

lemma sendMessage_state:
  assumes "sendMessage lib send msg ws = Some (out, ws')"
  shows "ws_conn ws \<noteq> None \<and> ws' = ws\<lparr>ws_draws := ws_draws ws + 1\<rparr> \<and> (\<forall>m. WsMessage m \<notin> set out)"
  using assms by (auto simp: sendMessage_def sendRaw_def split: option.splits prod.splits)

definition ws_inv :: "websocket \<Rightarrow> bool" where
  "ws_inv ws \<longleftrightarrow> (ws_conn ws = None \<longleftrightarrow> ws_state ws = SOCK_CLOSED) \<and> ws_state ws \<noteq> WS_CLOSED"

lemma ws_inv_close: "ws_inv ws \<Longrightarrow> ws_inv (snd (ws_close ws))"
  by (auto simp: ws_inv_def ws_close_def)

lemma sendMessage_keeps:
  "sendMessage lib send msg ws = Some (out, ws') \<Longrightarrow> ws_state ws' = ws_state ws \<and> ws_conn ws' = ws_conn ws"
  by (drule sendMessage_state) simp

lemma handleMessage_state:
  assumes "handleMessage lib send msg ws = Some (out, ws')"
  shows "ws_state ws' = ws_state ws \<and> ws_conn ws' = ws_conn ws \<or> ws_state ws' = SOCK_CLOSED \<and> ws_conn ws' = None"
proof (cases "opcode msg = OP_CLOSE")
  case True
  then obtain out1 ws1 where s: "sendClose lib send (ws\<lparr>ws_state := WS_CLOSING\<rparr>) = Some (out1, ws1)" "ws' = snd (ws_close ws1)"
    using assms by (auto simp: handleMessage_def OP_TEXT_def OP_BINARY_def OP_CLOSE_def OP_PING_def OP_PONG_def bind_eq_Some_conv)
  have "ws_conn ws1 \<noteq> None" using sendMessage_state [OF s(1) [unfolded sendClose_def]] by simp
  then show ?thesis by (auto simp: s(2) ws_close_def)
next
  case False
  then show ?thesis
    using assms sendMessage_keeps by (auto simp: handleMessage_def sendPong_def split: if_splits)
qed

lemma handleData_state:
  "handleData lib send buf ws = Some (out, ws') \<Longrightarrow>
     ws_state ws' = ws_state ws \<and> ws_conn ws' = ws_conn ws \<or> ws_state ws' = SOCK_CLOSED \<and> ws_conn ws' = None"
proof (induction lib send buf ws arbitrary: out rule: handleData.induct)
  case (1 lib send buf ws)
  then show ?case
  proof (cases "buf = []")
    case False
    show ?thesis
    proof (cases "message_parse (char_signed lib) buf")
      case (Parsed n msg)
      then obtain out1 ws1 out2 where s: "handleMessage lib send msg ws = Some (out1, ws1)"
        "handleData lib send (drop n buf) ws1 = Some (out2, ws')"
        using 1(2) False by (subst (asm) handleData.simps) (auto split: option.splits)
      show ?thesis using 1(1) [OF False Parsed s(1) _ s(2)] handleMessage_state [OF s(1)] by auto
    qed (use 1(2) False in \<open>auto simp: handleData.simps [of lib send buf ws]\<close>)
  qed (simp add: handleData.simps)
qed

section \<open>Runs\<close>

text \<open>The event bus connects only a closed socket; the connection comes from the socket theory.\<close>

inductive ws_reachable :: "ws_lib \<Rightarrow> websocket \<Rightarrow> bool" for lib where
  ws_start: "ws_reachable lib WebSocket_new"
| ws_connected: "ws_reachable lib ws \<Longrightarrow> ws_state ws = SOCK_CLOSED \<Longrightarrow> fst (tcp_connect s NONE (socks :: unit sockets)) = tcp \<Longrightarrow>
    ws_connect lib send tcp a ep ws = Some (out, ws') \<Longrightarrow> ws_reachable lib ws'"
| ws_read: "ws_reachable lib ws \<Longrightarrow> ws_handleRead lib send buf ws = Some (out, ws') \<Longrightarrow> ws_reachable lib ws'"
| ws_error: "ws_reachable lib ws \<Longrightarrow> ws_reachable lib (snd (ws_close ws))"
| ws_sent: "ws_reachable lib ws \<Longrightarrow> ws_send lib send d ws = Some (out, ws') \<Longrightarrow> ws_reachable lib ws'"

lemma tcp_connect_fd: "fst (tcp_connect s e socks) = Some conn \<Longrightarrow> 0 \<le> conn_fd conn"
  by (auto simp: tcp_connect_def Let_def split: if_splits)

lemma sendClientHandshake_state:
  assumes "sendClientHandshake lib send ws = Some (ok, out, ws')"
  shows "ws_state ws' = ws_state ws \<and> ws_conn ws' = ws_conn ws"
  using assms by (auto simp: sendClientHandshake_def Let_def split: option.splits prod.splits)

lemma ws_inv_connect:
  assumes "ws_connect lib send tcp a ep ws = Some (out, ws')" and "ws_inv ws" "ws_state ws = SOCK_CLOSED"
    and fd: "\<And>conn. tcp = Some conn \<Longrightarrow> 0 \<le> conn_fd conn"
  shows "ws_inv ws'"
proof (cases tcp)
  case None
  then show ?thesis using assms(1-3) by (auto simp: ws_connect_def ws_inv_def Let_def split: if_splits)
next
  case (Some conn)
  then obtain ok out1 ws1 where h: "sendClientHandshake lib send (ws\<lparr>serverAddr := a, serverEndpoint := take 128 ep, ws_conn := tcp\<rparr>) = Some (ok, out1, ws1)"
    and ws': "ws' = (if ok then ws1\<lparr>ws_state := WS_CONNECTING\<rparr> else snd (ws_close ws1))"
    using assms(1) fd by (auto simp: ws_connect_def Let_def split: if_splits option.splits)
  have "ws_conn ws1 = Some conn" using sendClientHandshake_state [OF h] Some by simp
  then show ?thesis by (simp add: ws' ws_inv_def ws_close_def)
qed

lemma ws_inv_handleRead:
  assumes "ws_handleRead lib send buf ws = Some (out, ws')" and "ws_inv ws"
  shows "ws_inv ws'"
proof -
  have "ws_inv ws'" if "handleHandshake lib buf ws = Some (out, ws')" "ws_state ws = WS_CONNECTING"
    using that assms(2) by (auto simp: handleHandshake_def ws_inv_def ws_close_def split: option.splits if_splits)
  moreover have "ws_inv ws'" if "handleData lib send buf ws = Some (out, ws')"
    using handleData_state [OF that] assms(2) by (auto simp: ws_inv_def)
  ultimately show ?thesis using assms by (auto simp: ws_handleRead_def split: State.splits)
qed

lemma ws_reachable_inv: "ws_reachable lib ws \<Longrightarrow> ws_inv ws"
proof (induction rule: ws_reachable.induct)
  case ws_start
  then show ?case by (simp add: ws_inv_def WebSocket_new_def)
next
  case (ws_connected ws s socks tcp send a ep out ws')
  then show ?case using ws_inv_connect tcp_connect_fd by blast
next
  case (ws_read ws send buf out ws')
  then show ?case using ws_inv_handleRead by blast
next
  case (ws_error ws)
  then show ?case by (simp add: ws_inv_close)
next
  case (ws_sent ws send d out ws')
  then show ?case using sendMessage_keeps [OF ws_sent.hyps(2) [unfolded ws_send_def]] by (simp add: ws_inv_def)
qed

section \<open>Properties\<close>

lemma handleRead_texts:
  assumes "ws_state ws = WS_OPEN" and "list_all2 encoded msgs fs" and "list_all (message_ok (char_signed lib)) msgs"
    and "list_all (\<lambda>m. opcode m = OP_TEXT \<or> opcode m = OP_BINARY) msgs"
  shows "ws_handleRead lib send (concat fs) ws = Some (map WsMessage msgs, ws)"
proof -
  have "handleMessages lib send msgs ws = Some (map WsMessage msgs, ws)"
    using assms(4) by (induction msgs) (auto simp: handleMessage_def)
  then show ?thesis using handleData_frames [OF assms(2,3)] assms(1) by (simp add: ws_handleRead_def)
qed

text \<open>C28: The text and binary messages a server writes, masked or not, are delivered in order and
  unchanged from the segment they arrive in, if they have at most 127 bytes (128 where \<open>char\<close> is
  unsigned).\<close>

theorem websocket_messages_delivered:
  assumes "ws_state ws = WS_OPEN" and "list_all2 encoded msgs fs" and "list_all (message_ok (char_signed lib)) msgs"
    and "list_all (\<lambda>m. opcode m = OP_TEXT \<or> opcode m = OP_BINARY) msgs"
  shows "ws_handleRead lib send (concat fs) ws = Some (map WsMessage msgs, ws)"
  by (rule handleRead_texts [OF assms])

text \<open>C29: The socket becomes open only by an answer to its handshake that has the status 101, the two
  headers of the upgrade, and the hash of the nonce that was sent with the key of the protocol.\<close>

theorem websocket_open_authentic:
  assumes "ws_handleRead lib send buf ws = Some (out, ws')" and "ws_state ws' = WS_OPEN" "ws_state ws \<noteq> WS_OPEN"
    and "length (ctx_memory lib) = 64"
  shows "ws_state ws = WS_CONNECTING \<and>
    (\<exists>msg v. http_parse (to_number lib) buf HTTPMessage_new = Some (OK, msg) \<and> statusCode msg = 101 \<and>
       map_of (headers msg) (str ''Upgrade'') = Some (str ''websocket'') \<and>
       map_of (headers msg) (str ''Connection'') = Some (str ''Upgrade'') \<and>
       map_of (headers msg) (str ''Sec-WebSocket-Accept'') = Some v \<and>
       strncmp_equal 29 (bin2base64 lib (std_sha1 (take 64 (takeWhile (\<lambda>c. c \<noteq> 0) (ws_nonce ws) @ serverKey)))) v)"
proof -
  have "handleHandshake lib buf ws = Some (out, ws') \<and> ws_state ws = WS_CONNECTING"
    using assms handleData_state [of lib send buf ws out ws'] by (auto simp: ws_handleRead_def split: State.splits)
  moreover define input where "input = take 64 (takeWhile (\<lambda>c. c \<noteq> 0) (ws_nonce ws) @ serverKey)"
  moreover have "SHA1 (ctx_memory lib) input = std_sha1 input" using assms(4) by (simp add: input_def sha1_std)
  ultimately show ?thesis
    using assms(2) unfolding handleHandshake_def verifyServerHandshake_def input_def [symmetric]
    by (auto simp: ws_close_def split: option.splits if_splits Result.splits) (metis Result.exhaust)
qed

lemma ws_close_closed:
  assumes "ws_inv ws"
  shows "ws_state (snd (ws_close ws)) = SOCK_CLOSED" and "ws_conn (snd (ws_close ws)) = None"
    and "ws_state ws = SOCK_CLOSED \<Longrightarrow> snd (ws_close ws) = ws"
  using assms by (auto simp: ws_inv_def ws_close_def)

lemma ws_connect_returns:
  assumes "ws_conn ws = None" and "ws_state ws = SOCK_CLOSED" and tcp: "fst (tcp_connect s NONE socks) = tcp" and "length ep \<le> 128"
    and "encode TRANSPORT_CAPACITY (handshakeRequest lib (bin2base64 lib (ws_random lib (ws_draws ws) 16))
      (ws\<lparr>serverAddr := a, serverEndpoint := ep\<rparr>)) \<noteq> None"
  shows "\<exists>out ws'. ws_connect lib send tcp a ep ws = Some (out, ws') \<and>
    (ws_state ws' = SOCK_CLOSED \<and> ws_conn ws' = None \<or> ws_state ws' = WS_CONNECTING \<and> ws_conn ws' = tcp \<and> tcp \<noteq> None) \<and>
    (tcp \<noteq> None \<and> (\<forall>d. d \<noteq> [] \<longrightarrow> 0 < send d) \<longrightarrow> ws_state ws' = WS_CONNECTING)"
proof (cases tcp)
  case None
  then show ?thesis using assms(1,2,4) by (simp add: ws_connect_def)
next
  case (Some conn)
  have req: "handshakeRequest lib n (ws\<lparr>serverAddr := a, serverEndpoint := ep, ws_conn := c, ws_nonce := x, ws_draws := k\<rparr>) =
      handshakeRequest lib n (ws\<lparr>serverAddr := a, serverEndpoint := ep\<rparr>)" for n c x k
    by (simp add: handshakeRequest_def)
  obtain buffer msg where e: "encode TRANSPORT_CAPACITY (handshakeRequest lib (bin2base64 lib (ws_random lib (ws_draws ws) 16))
      (ws\<lparr>serverAddr := a, serverEndpoint := ep\<rparr>)) = Some (buffer, msg)"
    using assms(5) by auto
  have "buffer \<noteq> []" using e by (auto simp: encode_def Let_def split: if_splits)
  moreover have fd: "0 \<le> conn_fd conn" using tcp_connect_fd tcp Some by blast
  moreover have "encapsulation conn = NONE" using tcp Some by (auto simp: tcp_connect_def Let_def split: if_splits)
  ultimately have w: "tcp_write_vector TRANSPORT_CAPACITY conn send buffer = Some (sendLoop send buffer)"
    by (simp add: tcp_write_vector_def)
  have "(\<forall>d. d \<noteq> [] \<longrightarrow> 0 < send d) \<Longrightarrow> sendLoop send buffer = (buffer, True)"
    using sendLoop_all [of send buffer] \<open>buffer \<noteq> []\<close> by blast
  then show ?thesis
    using assms(1,4) e Some fd w by (cases "sendLoop send buffer") (auto simp: ws_connect_def sendClientHandshake_def sendRaw_def req Let_def ws_close_def)
qed

text \<open>C30: In every state the socket reaches it is closed exactly if it has no connection, and \<open>close\<close> closes it,
  so that it can always be connected again: if the handshake fits into the transport buffer and the
  endpoint into its string, \<open>connect\<close> returns from the closed state, and leaves the socket closed or
  connecting over the new connection; connecting, if the connection came up and the handshake was
  sent.\<close>

theorem websocket_reconnects:
  assumes "ws_reachable lib ws" and "fst (tcp_connect s NONE (socks :: unit sockets)) = tcp" and "length ep \<le> 128"
    and "encode TRANSPORT_CAPACITY (handshakeRequest lib (bin2base64 lib (ws_random lib (ws_draws (snd (ws_close ws))) 16))
      ((snd (ws_close ws))\<lparr>serverAddr := a, serverEndpoint := ep\<rparr>)) \<noteq> None"
  shows "(ws_conn ws = None \<longleftrightarrow> ws_state ws = SOCK_CLOSED) \<and>
    ws_state (snd (ws_close ws)) = SOCK_CLOSED \<and> ws_conn (snd (ws_close ws)) = None \<and>
    (ws_state ws = SOCK_CLOSED \<longrightarrow> snd (ws_close ws) = ws) \<and>
    (\<exists>out ws'. ws_connect lib send tcp a ep (snd (ws_close ws)) = Some (out, ws') \<and> ws_reachable lib ws' \<and>
      (ws_state ws' = SOCK_CLOSED \<and> ws_conn ws' = None \<or> ws_state ws' = WS_CONNECTING \<and> ws_conn ws' = tcp \<and> tcp \<noteq> None) \<and>
      (tcp \<noteq> None \<and> (\<forall>d. d \<noteq> [] \<longrightarrow> 0 < send d) \<longrightarrow> ws_state ws' = WS_CONNECTING))"
proof -
  note inv = ws_reachable_inv [OF assms(1)]
  note closed = ws_close_closed [OF inv]
  have "\<exists>out ws'. ws_connect lib send tcp a ep (snd (ws_close ws)) = Some (out, ws') \<and> ws_reachable lib ws' \<and>
      (ws_state ws' = SOCK_CLOSED \<and> ws_conn ws' = None \<or> ws_state ws' = WS_CONNECTING \<and> ws_conn ws' = tcp \<and> tcp \<noteq> None) \<and>
      (tcp \<noteq> None \<and> (\<forall>d. d \<noteq> [] \<longrightarrow> 0 < send d) \<longrightarrow> ws_state ws' = WS_CONNECTING)"
    using ws_connect_returns [OF closed(2,1) assms(2-4), of send]
  proof (elim exE conjE, intro exI conjI)
    fix out ws'
    assume "ws_connect lib send tcp a ep (snd (ws_close ws)) = Some (out, ws')"
    then show "ws_reachable lib ws'" by (rule ws_connected [OF ws_error [OF assms(1)] closed(1) assms(2)])
  qed
  moreover have "ws_conn ws = None \<longleftrightarrow> ws_state ws = SOCK_CLOSED" using inv by (simp add: ws_inv_def)
  ultimately show ?thesis using closed by (intro conjI impI)
qed

lemma hostile_segments:
  assumes "ws_state ws = WS_OPEN"
  shows "encoded (Message_of OP_CLOSE False) f \<Longrightarrow> encoded (Message_of OP_PING False) g \<Longrightarrow>
      ws_handleRead lib send (f @ g @ rest) ws = None"
    and "length d = 256 \<Longrightarrow> ws_handleRead lib send ([0x81, 126, 1, 0] @ d @ rest) ws = None"
proof -
  assume e: "encoded (Message_of OP_CLOSE False) f" "encoded (Message_of OP_PING False) g"
  have ok: "message_ok cs (Message_of OP_CLOSE False)" "message_ok cs (Message_of OP_PING False)" for cs
    by (simp_all add: message_ok_def Message_of_def OP_CLOSE_def OP_PING_def size_ok_def)
  note pf = message_parse_encoded [OF ok(1) e(1)] and pg = message_parse_encoded [OF ok(2) e(2)]
  have op: "opcode (Message_of c m) = c" for c m by (simp add: Message_of_def)
  have "handleMessage lib send (Message_of OP_PING False) ws1 = None" if "ws_conn ws1 = None" for ws1
    using that by (auto simp: handleMessage_def op OP_TEXT_def OP_BINARY_def OP_PING_def sendPong_def sendMessage_def sendRaw_def
        split: option.splits)
  then have ping: "handleData lib send (g @ rest) ws1 = None" if "ws_conn ws1 = None" for ws1
    using that pg(1) [of "char_signed lib" rest] pg(2) by (subst handleData.simps) simp
  have "handleData lib send (f @ g @ rest) ws = None"
  proof (cases "handleMessage lib send (Message_of OP_CLOSE False) ws")
    case None
    then show ?thesis using pf(1) [of "char_signed lib" "g @ rest"] pf(2) by (subst handleData.simps) simp
  next
    case (Some r)
    then obtain out ws1 where r: "handleMessage lib send (Message_of OP_CLOSE False) ws = Some (out, snd (ws_close ws1))" "r = (out, snd (ws_close ws1))"
      by (auto simp: handleMessage_def op OP_TEXT_def OP_BINARY_def OP_CLOSE_def OP_PING_def OP_PONG_def bind_eq_Some_conv)
    have "ws_conn (snd (ws_close ws1)) = None" by (simp add: ws_close_def)
    then show ?thesis using pf(1) [of "char_signed lib" "g @ rest"] pf(2) r ping by (subst handleData.simps) simp
  qed
  then show "ws_handleRead lib send (f @ g @ rest) ws = None" using assms by (simp add: ws_handleRead_def)
next
  assume d: "length d = 256"
  have "unat (be_length cs [1, 0]) = 256" for cs by (cases cs) (simp_all add: be_length_def char_to_size_def)
  then have "message_parse (char_signed lib) ([0x81, 126, 1, 0] @ d @ rest) = Overflow"
    using d by (simp add: message_parse_def Let_def DATA_CAPACITY_def bit_simps)
  then show "ws_handleRead lib send ([0x81, 126, 1, 0] @ d @ rest) ws = None"
    using assms by (simp add: ws_handleRead_def handleData.simps)
qed

text \<open>Two segments from the server end the daemon: a close message followed by a ping, because the
  rest of the segment is handled after the connection has been given up and the answer to the ping
  asserts that there is one; and a message of 256 bytes, which does not fit into the message object.\<close>

theorem hostile_segment_aborts:
  assumes "ws_state ws = WS_OPEN" and "encoded (Message_of OP_CLOSE False) f" and "encoded (Message_of OP_PING False) g"
    and "length d = 256"
  shows "ws_handleRead lib send (f @ g @ rest) ws = None \<and> ws_handleRead lib send ([0x81, 126, 1, 0] @ d @ rest) ws = None"
  using hostile_segments assms by blast

text \<open>Where \<open>char\<close> is signed, a message of 128 bytes is refused: its length is taken for a huge number.\<close>

lemma size_128_refused: "length d = 128 \<Longrightarrow> message_parse True ([0x81, 126, 0, 128] @ d) = Refused"
proof -
  assume d: "length d = 128"
  have "unat (be_length True [0, 128]) = 2 ^ 64 - 128" by (simp add: be_length_two char_to_size_def)
  then show ?thesis using d by (simp add: message_parse_def Let_def bit_simps)
qed

section \<open>A concrete client\<close>

definition toy_lib :: ws_lib where
  "toy_lib = \<lparr>char_signed = True, ws_random = (\<lambda>k n. replicate n 7), bin2base64 = (\<lambda>d. replicate 28 65),
     ctx_memory = replicate 64 0, to_number = toy_number, ws_user_agent = str ''husarnet''\<rparr>"

definition toy_connection :: TcpConnection where
  "toy_connection = \<lparr>conn_fd = 5, readBuffer = [], encapsulation = NONE, hasErrored = False\<rparr>"

definition toy_ws :: "State \<Rightarrow> websocket" where
  "toy_ws s = WebSocket_new\<lparr>ws_conn := Some toy_connection, ws_nonce := str ''n'', ws_state := s\<rparr>"

definition toy_text :: "bytes \<Rightarrow> Message" where
  "toy_text d = (Message_of OP_TEXT True)\<lparr>msg_data := d\<rparr>"

lemma toy_encoded: "length (msg_data m) \<le> DATA_CAPACITY \<Longrightarrow> encoded m (frame [1, 2, 3, 4] m)"
  using message_encode_frame [of m "[1, 2, 3, 4]"] by (auto simp: encoded_def intro!: exI [of _ "[1, 2, 3, 4]"])

theorem websocket_messages_delivered_witness:
  "ws_handleRead toy_lib (\<lambda>_. 0) (frame [1, 2, 3, 4] (toy_text (str ''get_config'')) @ frame [1, 2, 3, 4] (toy_text [])) (toy_ws WS_OPEN) =
     Some ([WsMessage (toy_text (str ''get_config'')), WsMessage (toy_text [])], toy_ws WS_OPEN)"
proof -
  let ?ms = "[toy_text (str ''get_config''), toy_text []]"
  have "list_all2 encoded ?ms [frame [1, 2, 3, 4] (toy_text (str ''get_config'')), frame [1, 2, 3, 4] (toy_text [])]"
    by (auto intro!: toy_encoded simp: toy_text_def DATA_CAPACITY_def Message_of_def)
  moreover have "list_all (message_ok (char_signed toy_lib)) ?ms" "list_all (\<lambda>m. opcode m = OP_TEXT \<or> opcode m = OP_BINARY) ?ms"
    by (simp_all add: message_ok_def toy_text_def Message_of_def size_ok_def OP_TEXT_def)
  moreover have "ws_state (toy_ws WS_OPEN) = WS_OPEN" by (simp add: toy_ws_def)
  ultimately show ?thesis using websocket_messages_delivered [of "toy_ws WS_OPEN" ?ms _ toy_lib "\<lambda>_. 0"] by fastforce
qed

theorem hostile_segment_aborts_witness:
  "ws_handleRead toy_lib (\<lambda>_. 0) (frame [1, 2, 3, 4] (Message_of OP_CLOSE False) @ frame [1, 2, 3, 4] (Message_of OP_PING False)) (toy_ws WS_OPEN) = None"
proof -
  have "encoded (Message_of OP_CLOSE False) (frame [1, 2, 3, 4] (Message_of OP_CLOSE False))"
    "encoded (Message_of OP_PING False) (frame [1, 2, 3, 4] (Message_of OP_PING False))"
    by (auto intro!: toy_encoded simp: Message_of_def)
  from hostile_segment_aborts [OF _ this, of "toy_ws WS_OPEN" "replicate 256 0" toy_lib "\<lambda>_. 0" "[]"]
  show ?thesis by (simp add: toy_ws_def)
qed

definition toy_answer :: bytes where
  "toy_answer = str ''HTTP/1.1 101 Switching'' @ EOL_DELIMITER @ str ''Upgrade: websocket'' @ EOL_DELIMITER @
     str ''Connection: Upgrade'' @ EOL_DELIMITER @ str ''Sec-WebSocket-Accept: '' @
     replicate 28 65 @ BODY_DELIMITER"

lemma toy_response:
  "case http_parse toy_number toy_answer HTTPMessage_new of
     None \<Rightarrow> False
   | Some (res, msg) \<Rightarrow> res = OK \<and> messageType msg = RESPONSE \<and> statusCode msg = 101 \<and>
       map_of (headers msg) (str ''Upgrade'') = Some (str ''websocket'') \<and>
       map_of (headers msg) (str ''Connection'') = Some (str ''Upgrade'') \<and>
       map_of (headers msg) (str ''Sec-WebSocket-Accept'') = Some (replicate 28 65)"
  by code_simp

lemma toy_handshake: "map_option (\<lambda>(out, ws). ws_state ws) (ws_handleRead toy_lib send toy_answer (toy_ws WS_CONNECTING)) = Some WS_OPEN"
proof -
  have "strncmp_equal 29 (replicate 28 65) (replicate 28 65)" by code_simp
  then show ?thesis
    using toy_response
    by (auto simp: ws_handleRead_def toy_ws_def handleHandshake_def verifyServerHandshake_def toy_lib_def split: option.splits)
qed

theorem websocket_open_authentic_witness:
  "\<exists>msg. http_parse toy_number toy_answer HTTPMessage_new = Some (OK, msg) \<and> statusCode msg = 101"
proof -
  obtain out ws where h: "ws_handleRead toy_lib (\<lambda>_. 0) toy_answer (toy_ws WS_CONNECTING) = Some (out, ws)" "ws_state ws = WS_OPEN"
    using toy_handshake [of "\<lambda>_. 0"] by auto
  from websocket_open_authentic [OF h] show ?thesis by (auto simp: toy_ws_def toy_lib_def)
qed

theorem websocket_reconnects_witness:
  "\<exists>out ws'. ws_connect toy_lib (\<lambda>d. int (length d)) (Some (toy_connection\<lparr>conn_fd := 7\<rparr>)) InetAddress_default (str ''/device/x'') WebSocket_new = Some (out, ws') \<and>
     ws_state ws' = WS_CONNECTING \<and> ws_conn ws' = Some (toy_connection\<lparr>conn_fd := 7\<rparr>)"
proof -
  let ?s = "\<lparr>new_fd = 7, bind_ok = (\<lambda>_. True), join_ok = True, connect_ok = True, connect_ready = True, so_error = 0\<rparr>"
  let ?socks = "\<lparr>udpSockets = [], customSockets = [], tcpConnections = [], unicastUdpFd = -1, multicastUdpFd4 = -1, multicastUdpFd6 = -1\<rparr> :: unit sockets"
  have "fst (tcp_connect ?s NONE ?socks) = Some (toy_connection\<lparr>conn_fd := 7\<rparr>)" by (simp add: tcp_connect_def toy_connection_def Let_def)
  moreover have "encode TRANSPORT_CAPACITY (handshakeRequest toy_lib (bin2base64 toy_lib (ws_random toy_lib (ws_draws (snd (ws_close WebSocket_new))) 16))
      ((snd (ws_close WebSocket_new))\<lparr>serverAddr := InetAddress_default, serverEndpoint := str ''/device/x''\<rparr>)) \<noteq> None"
    by code_simp
  moreover have "snd (ws_close WebSocket_new) = WebSocket_new" by (simp add: ws_close_def WebSocket_new_def)
  ultimately show ?thesis
    using websocket_reconnects [where lib = toy_lib and ws = WebSocket_new and s = ?s and socks = ?socks and a = InetAddress_default
        and ep = "str ''/device/x''" and send = "\<lambda>d. int (length d)"] ws_start
    by fastforce
qed

end
