(* ===== verification/Json.thy ===== *)
theory Json
  imports Util
begin

text \<open>
  JSON documents as the code sees them through \<open>nlohmann::json\<close>.  The library itself is not part of
  the repository: its text parser and printer are parameters of the functions that use them, and
  here are the values and the accessors, with their documented errors.  \<open>None\<close> is a thrown
  \<open>type_error\<close>, or the failed assertion of \<open>operator[]\<close> on a missing key of a constant document.
  Of a floating-point number only the integral part matters to the code.
\<close>

datatype json =
    JNull
  | JBool bool
  | JInt int
  | JFloat int
  | JString bytes
  | JArray "json list"
  | JObject "(bytes \<times> json) list"
  | JDiscarded

fun json_contains :: "json \<Rightarrow> bytes \<Rightarrow> bool" where
  "json_contains (JObject m) k = (map_of m k \<noteq> None)"
| "json_contains j k = False"

text \<open>\<open>operator[]\<close> on a constant document, and on one that may be changed, where a missing key is
  added with the value null.\<close>

fun json_at :: "json \<Rightarrow> bytes \<Rightarrow> json option" where
  "json_at (JObject m) k = map_of m k"
| "json_at j k = None"

fun json_set :: "json \<Rightarrow> bytes \<Rightarrow> json \<Rightarrow> json option" where
  "json_set JNull k v = Some (JObject [(k, v)])"
| "json_set (JObject m) k v = Some (JObject (AList.update k v m))"
| "json_set j k v = None"

definition json_ref :: "json \<Rightarrow> bytes \<Rightarrow> (json \<times> json) option" where
  "json_ref j k =
     (case json_at j k of
        Some v \<Rightarrow> Some (v, j)
      | None \<Rightarrow> map_option (\<lambda>j'. (JNull, j')) (json_set j k JNull))"

fun is_array :: "json \<Rightarrow> bool" where
  "is_array (JArray xs) = True"
| "is_array j = False"

fun is_object :: "json \<Rightarrow> bool" where
  "is_object (JObject m) = True"
| "is_object j = False"

fun json_empty :: "json \<Rightarrow> bool" where
  "json_empty JNull = True"
| "json_empty (JArray xs) = (xs = [])"
| "json_empty (JObject m) = (m = [])"
| "json_empty j = False"

text \<open>The range of a \<open>for\<close> loop over a document: a value that is no container is its only element.\<close>

fun json_elements :: "json \<Rightarrow> json list" where
  "json_elements JNull = []"
| "json_elements (JArray xs) = xs"
| "json_elements (JObject m) = map snd m"
| "json_elements j = [j]"

fun get_bool :: "json \<Rightarrow> bool option" where
  "get_bool (JBool b) = Some b"
| "get_bool j = None"

fun get_string :: "json \<Rightarrow> bytes option" where
  "get_string (JString s) = Some s"
| "get_string j = None"

text \<open>\<open>get<int>\<close> takes every number, and truth values, and keeps the low 32 bits.\<close>

fun get_int :: "json \<Rightarrow> int option" where
  "get_int (JInt i) = Some (signed_take_bit 31 i)"
| "get_int (JFloat i) = Some (signed_take_bit 31 i)"
| "get_int (JBool b) = Some (if b then 1 else 0)"
| "get_int j = None"

fun option_list :: "'a option list \<Rightarrow> 'a list option" where
  "option_list [] = Some []"
| "option_list (x # xs) = do { y \<leftarrow> x; ys \<leftarrow> option_list xs; Some (y # ys) }"

fun get_strings :: "json \<Rightarrow> bytes list option" where
  "get_strings (JArray xs) = option_list (map get_string xs)"
| "get_strings j = None"

lemma json_at_set: "json_set j k v = Some j' \<Longrightarrow> json_at j' k' = (if k' = k then Some v else json_at j k')"
  by (cases j) (auto simp: update_conv')

lemma json_set_object: "is_object j \<Longrightarrow> \<exists>j'. json_set j k v = Some j' \<and> is_object j'"
  by (cases j) auto

lemma json_ref_object:
  assumes "is_object j"
  shows "\<exists>v j'. json_ref j k = Some (v, j') \<and> is_object j' \<and> v = (case json_at j k of None \<Rightarrow> JNull | Some v \<Rightarrow> v) \<and>
    (\<forall>k'. k' \<noteq> k \<longrightarrow> json_at j' k' = json_at j k')"
proof (cases "json_at j k")
  case None
  obtain j' where "json_set j k JNull = Some j'" "is_object j'" using json_set_object [OF assms] by blast
  then show ?thesis using None by (auto simp: json_ref_def json_at_set)
qed (use assms in \<open>auto simp: json_ref_def\<close>)

lemma option_list_Some: "option_list xs = Some ys \<longleftrightarrow> xs = map Some ys"
  by (induction xs arbitrary: ys) (auto simp: bind_eq_Some_conv)

end
