(* ===== verification/Licensing.thy ===== *)
theory Licensing
  imports Json Identity
begin

text \<open>
  \<open>licensing.cpp\<close>: the license document names the base servers, the API servers and the event bus
  servers a node trusts, and is signed by one of six keys.  \<open>None\<close> is an exception, a failed
  assertion or a read beyond the end of the decoded signature.

  The results: an accepted license is signed by one of the keys; the signed text determines the
  signed fields if the three lists are not empty and no field contains a separator; if a list is
  empty it does not.
\<close>

definition PUBLIC_KEY :: "bytes list" where
  "PUBLIC_KEY =
     [[0x2a,0x3f,0x26,0x7c,0x2a,0x68,0xa6,0x0f,0x66,0xf6,0xaf,0x2b,0x0a,0x42,0x7b,0x25,
       0xb5,0x30,0x7c,0x23,0x47,0x80,0x2d,0xdf,0x35,0x24,0xf4,0x9a,0xfe,0x7d,0x01,0xe5],
      [0x52,0x67,0x82,0x64,0xe6,0xa8,0xc7,0xa8,0x8c,0xdd,0x43,0x4f,0xc7,0x77,0x60,0xe6,
       0xc5,0x67,0x75,0xe7,0x35,0x2a,0x83,0xfe,0x4f,0x7f,0xf7,0x53,0x2a,0x5e,0x6a,0x34],
      [0xd7,0xf1,0x42,0x73,0x36,0xf2,0xfc,0xd8,0x2c,0xf4,0x45,0x27,0xbb,0x14,0xe4,0x55,
       0x31,0xe5,0x5e,0x07,0xd5,0xa3,0xb6,0x38,0x95,0x75,0xa5,0x5c,0xba,0x28,0xd6,0x09],
      [0x8d,0xeb,0xaa,0xb5,0x41,0x8e,0x73,0x4a,0x01,0x94,0x72,0xf0,0x64,0x5f,0x14,0x32,
       0x87,0xe0,0xed,0x54,0xc8,0xe0,0x62,0x9c,0xfd,0xea,0x30,0x6e,0x8b,0xb5,0x9c,0x9d],
      [0x02,0x5e,0xb8,0xb0,0xb0,0x51,0xcf,0xe7,0x7e,0x9f,0x50,0x4f,0x43,0x65,0xcf,0x10,
       0x14,0xc1,0xb1,0xa3,0xd5,0x6d,0xa2,0x15,0x5a,0x98,0xc4,0x27,0x45,0x4e,0xea,0xa8],
      [0x1d,0x9b,0x46,0x36,0x4a,0x10,0x45,0x7a,0x22,0xb2,0xaf,0x2f,0x9d,0xf9,0x4b,0x03,
       0x8f,0xe3,0x01,0xfb,0x90,0x6a,0x48,0xea,0x26,0x2e,0xe6,0xa4,0x89,0x79,0x27,0xf4]]"

definition int_to_string :: "int \<Rightarrow> bytes" where
  "int_to_string i = (if i < 0 then 45 # to_string (nat (- i)) else to_string (nat i))"

definition json_text :: "json \<Rightarrow> string \<Rightarrow> bytes option" where
  "json_text j k = do { v \<leftarrow> json_at j (str k); get_string v }"

definition json_number :: "json \<Rightarrow> string \<Rightarrow> bytes option" where
  "json_number j k = do { v \<leftarrow> json_at j (str k); i \<leftarrow> get_int v; Some (int_to_string i) }"

definition json_texts :: "json \<Rightarrow> string \<Rightarrow> bytes list option" where
  "json_texts j k = do { v \<leftarrow> json_at j (str k); option_list (map get_string (json_elements v)) }"

text \<open>The elements, each with a comma behind it; then the last character becomes a line feed.\<close>

definition appendList :: "bytes \<Rightarrow> bytes list \<Rightarrow> bytes" where
  "appendList s xs = (let s = s @ concat (map (\<lambda>x. x @ [44]) xs) in s[length s - 1 := 10])"

definition generateSignatureData :: "json \<Rightarrow> bytes option" where
  "generateSignatureData j = do {
     version \<leftarrow> json_number j ''version'';
     installation \<leftarrow> json_text j ''installation_id'';
     license \<leftarrow> json_text j ''license_id'';
     name \<leftarrow> json_text j ''name'';
     devices \<leftarrow> json_number j ''max_devices'';
     dashboard \<leftarrow> json_text j ''dashboard_url'';
     websetup \<leftarrow> json_text j ''websetup_host'';
     base \<leftarrow> json_texts j ''base_server_addresses'';
     api \<leftarrow> json_texts j ''api_servers'';
     eb \<leftarrow> json_texts j ''eb_servers'';
     issued \<leftarrow> json_text j ''issued'';
     until \<leftarrow> json_text j ''valid_until'';
     let s = version @ [10] @ installation @ [10] @ license @ [10] @ name @ [10] @ devices @ [10] @ dashboard @ [10] @ websetup @ [10];
     let s = appendList s base;
     let s = appendList s api;
     let s = appendList s eb;
     Some (s @ issued @ [10] @ until)
   }"

definition isJsonValid :: "json \<Rightarrow> bool" where
  "isJsonValid j \<longleftrightarrow>
     \<not> (json_empty j \<or> j = JDiscarded) \<and>
     json_contains j (str ''dashboard_url'') \<and> json_contains j (str ''base_server_addresses'') \<and>
     json_contains j (str ''api_servers'') \<and> json_contains j (str ''eb_servers'')"

definition verifySignature_license :: "crypto \<Rightarrow> json \<Rightarrow> bool option" where
  "verifySignature_license c j =
     (if \<not> json_contains j (str ''signature_v2'') then Some False
      else do {
        signature \<leftarrow> json_text j ''signature_v2'';
        let declaredSignature = base64Decode signature;
        signatureData \<leftarrow> generateSignatureData j;
        if length declaredSignature < 64 then None
        else Some (list_ex (\<lambda>key. ed_verify c key signatureData (take 64 declaredSignature)) PUBLIC_KEY)
      })"

definition isLicenseValid :: "crypto \<Rightarrow> json \<Rightarrow> bool option" where
  "isLicenseValid c j = (if \<not> isJsonValid j then Some False else verifySignature_license c j)"

section \<open>Separated text\<close>

lemma first_separator: "x @ c # u = y @ c # v \<Longrightarrow> c \<notin> set x \<Longrightarrow> c \<notin> set y \<Longrightarrow> x = y \<and> u = v"
proof (induction x arbitrary: y)
  case Nil
  then show ?case by (cases y) auto
next
  case (Cons a x)
  then show ?case by (cases y) auto
qed

lemma terminated_inject:
  "concat (map (\<lambda>x. x @ [c]) xs) @ z = concat (map (\<lambda>x. x @ [c]) ys) @ w \<Longrightarrow>
   \<forall>x \<in> set xs. c \<notin> set x \<Longrightarrow> \<forall>y \<in> set ys. c \<notin> set y \<Longrightarrow> c \<notin> set z \<Longrightarrow> c \<notin> set w \<Longrightarrow> xs = ys \<and> z = w"
proof (induction xs arbitrary: ys)
  case Nil
  then show ?case by (cases ys) auto
next
  case (Cons x xs)
  show ?case
  proof (cases ys)
    case Nil
    then have "w = x @ c # concat (map (\<lambda>x. x @ [c]) xs) @ z" using Cons.prems(1) by simp
    then have "c \<in> set w" by simp
    then show ?thesis using Cons.prems by simp
  next
    case (Cons y ys')
    have "x @ c # concat (map (\<lambda>x. x @ [c]) xs) @ z = y @ c # concat (map (\<lambda>x. x @ [c]) ys') @ w"
      using Cons.prems(1) Cons by simp
    then have "x = y \<and> concat (map (\<lambda>x. x @ [c]) xs) @ z = concat (map (\<lambda>x. x @ [c]) ys') @ w"
      by (rule first_separator) (use Cons.prems(2,3) Cons in auto)
    then show ?thesis using Cons.IH [of ys'] Cons.prems Cons by simp
  qed
qed

definition commas :: "bytes list \<Rightarrow> bytes" where
  "commas xs = butlast (concat (map (\<lambda>x. x @ [44]) xs))"

lemma commas_eq: "xs \<noteq> [] \<Longrightarrow> concat (map (\<lambda>x. x @ [44]) xs) = commas xs @ [44]"
  by (induction xs rule: rev_induct) (simp_all add: commas_def butlast_append)

lemma commas_inject:
  assumes "commas xs = commas ys" and "xs \<noteq> []" and "ys \<noteq> []" and "\<forall>x \<in> set xs. 44 \<notin> set x" and "\<forall>y \<in> set ys. 44 \<notin> set y"
  shows "xs = ys"
proof -
  have "concat (map (\<lambda>x. x @ [44]) xs) @ [] = concat (map (\<lambda>x. x @ [44]) ys) @ []"
    using assms(1-3) by (simp add: commas_eq)
  then show ?thesis using terminated_inject [of 44 xs "[]" ys "[]"] assms(4,5) by simp
qed

lemma commas_set: "xs \<noteq> [] \<Longrightarrow> c \<in> set (commas xs) \<Longrightarrow> c = 44 \<or> (\<exists>x \<in> set xs. c \<in> set x)"
  by (auto simp: commas_def dest!: in_set_butlastD)

lemma appendList_eq: "xs \<noteq> [] \<Longrightarrow> appendList s xs = s @ commas xs @ [10]"
  by (simp add: appendList_def commas_eq Let_def list_update_append)

lemma appendList_Nil: "s \<noteq> [] \<Longrightarrow> last s = 10 \<Longrightarrow> appendList s [] = s"
  by (metis One_nat_def append.right_neutral appendList_def concat.simps(1) last_conv_nth list.simps(8) list_update_id)

lemma to_string_inject: "to_string m = to_string n \<Longrightarrow> m = n"
  by (metis dec_value_to_string)

lemma to_string_not_minus: "to_string n \<noteq> 45 # s"
  using to_string_set [of 45 n] by (auto simp: isdigit_def)

lemma int_to_string_inject: "int_to_string i = int_to_string k \<Longrightarrow> i = k"
  using to_string_not_minus to_string_inject [of "nat i" "nat k"] to_string_inject [of "nat (- i)" "nat (- k)"]
  by (auto simp: int_to_string_def split: if_splits) (metis to_string_not_minus)

section \<open>Properties\<close>

text \<open>The fields covered by the signature.\<close>

definition signed_fields :: "json \<Rightarrow> (bytes list \<times> bytes list list \<times> bytes) option" where
  "signed_fields j = do {
     version \<leftarrow> json_number j ''version'';
     installation \<leftarrow> json_text j ''installation_id'';
     license \<leftarrow> json_text j ''license_id'';
     name \<leftarrow> json_text j ''name'';
     devices \<leftarrow> json_number j ''max_devices'';
     dashboard \<leftarrow> json_text j ''dashboard_url'';
     websetup \<leftarrow> json_text j ''websetup_host'';
     base \<leftarrow> json_texts j ''base_server_addresses'';
     api \<leftarrow> json_texts j ''api_servers'';
     eb \<leftarrow> json_texts j ''eb_servers'';
     issued \<leftarrow> json_text j ''issued'';
     until \<leftarrow> json_text j ''valid_until'';
     Some ([version, installation, license, name, devices, dashboard, websetup, issued], [base, api, eb], until)
   }"

text \<open>No line feed in a field, no comma in an element of a list, no empty list.\<close>

fun clean_fields :: "bytes list \<times> bytes list list \<times> bytes \<Rightarrow> bool" where
  "clean_fields (texts, addrs, until) =
     (list_all (\<lambda>t. 10 \<notin> set t) (until # texts) \<and>
      list_all (\<lambda>xs. xs \<noteq> [] \<and> list_all (\<lambda>x. 10 \<notin> set x \<and> 44 \<notin> set x) xs) addrs)"

fun signed_text :: "bytes list \<times> bytes list list \<times> bytes \<Rightarrow> bytes" where
  "signed_text ([a, b, c, d, e, f, g, i], [base, api, eb], until) =
     appendList (appendList (appendList (a @ [10] @ b @ [10] @ c @ [10] @ d @ [10] @ e @ [10] @ f @ [10] @ g @ [10]) base) api) eb @
       i @ [10] @ until"
| "signed_text x = []"

lemma generateSignatureData_eq: "generateSignatureData j = map_option signed_text (signed_fields j)"
  by (simp add: generateSignatureData_def signed_fields_def Let_def split: Option.bind_split)

lemma signed_fields_shape:
  "signed_fields j = Some f \<Longrightarrow> \<exists>a b c d e g h i base api eb until. f = ([a, b, c, d, e, g, h, i], [base, api, eb], until)"
  by (auto simp: signed_fields_def bind_eq_Some_conv)

lemma signed_text_lines:
  "clean_fields ([a, b, c, d, e, f, g, i], [base, api, eb], until) \<Longrightarrow>
   signed_text ([a, b, c, d, e, f, g, i], [base, api, eb], until) =
     concat (map (\<lambda>x. x @ [10]) [a, b, c, d, e, f, g, commas base, commas api, commas eb, i]) @ until"
  by (simp add: appendList_eq)

lemma signed_text_inject:
  assumes "clean_fields x" and "clean_fields y" and "signed_text x = signed_text y"
    and x: "x = ([a, b, c, d, e, f, g, i], [base, api, eb], until)"
    and y: "y = ([a', b', c', d', e', f', g', i'], [base', api', eb'], until')"
  shows "x = y"
proof -
  have cm: "10 \<notin> set (commas xs)" if "xs \<noteq> []" "list_all (\<lambda>x. 10 \<notin> set x \<and> 44 \<notin> set x) xs" for xs
    using commas_set [OF that(1), of 10] that(2) by (auto simp: list_all_iff)
  have "[a, b, c, d, e, f, g, commas base, commas api, commas eb, i] = [a', b', c', d', e', f', g', commas base', commas api', commas eb', i'] \<and>
      until = until'"
    using assms(1-3) cm unfolding x y
    by (intro terminated_inject [of 10]) (simp_all only: signed_text_lines [symmetric], auto)
  then show ?thesis
    using commas_inject [of base base'] commas_inject [of api api'] commas_inject [of eb eb'] assms(1,2)
    unfolding x y by (auto simp: list_all_iff)
qed

text \<open>C22: A license that is accepted carries a signature, by one of the six keys, of a text that
  determines every field the node acts on: any other license with the same signed text has the
  same fields, as long as in both no list is empty and no field contains a separator.\<close>

theorem license_authentic:
  assumes "isLicenseValid c j = Some True"
  shows "\<exists>key \<in> set PUBLIC_KEY. \<exists>signature fields. signed_fields j = Some fields \<and> ed_verify c key (signed_text fields) signature \<and>
    (\<forall>j' fields'. signed_fields j' = Some fields' \<and> generateSignatureData j' = generateSignatureData j \<and>
       clean_fields fields \<and> clean_fields fields' \<longrightarrow> fields' = fields)"
proof -
  obtain fields key signature where f: "signed_fields j = Some fields" "key \<in> set PUBLIC_KEY" "ed_verify c key (signed_text fields) signature"
    using assms by (auto simp: isLicenseValid_def verifySignature_license_def generateSignatureData_eq bind_eq_Some_conv list_ex_iff
        Let_def split: if_splits)
  have "fields' = fields" if f': "signed_fields j' = Some fields'" "generateSignatureData j' = generateSignatureData j"
    "clean_fields fields" "clean_fields fields'" for j' fields'
  proof -
    have "signed_text fields' = signed_text fields" using f'(1,2) f(1) by (simp add: generateSignatureData_eq)
    from signed_fields_shape [OF f'(1)] signed_fields_shape [OF f(1)] show ?thesis
      by (elim exE) (rule signed_text_inject [OF f'(4,3) \<open>signed_text fields' = signed_text fields\<close>])
  qed
  then show ?thesis using f by blast
qed

definition toy_license :: "bytes list \<Rightarrow> bytes list \<Rightarrow> bytes list \<Rightarrow> json" where
  "toy_license base api eb = JObject
     [(str ''version'', JInt 2), (str ''installation_id'', JString (str ''i'')), (str ''license_id'', JString (str ''l'')),
      (str ''name'', JString (str ''n'')), (str ''max_devices'', JInt (-1)), (str ''dashboard_url'', JString (str ''d'')),
      (str ''websetup_host'', JString (str ''w'')), (str ''base_server_addresses'', JArray (map JString base)),
      (str ''api_servers'', JArray (map JString api)), (str ''eb_servers'', JArray (map JString eb)),
      (str ''issued'', JString (str ''1'')), (str ''valid_until'', JString (str ''2'')),
      (str ''signature_v2'', JString (base64Encode (hd PUBLIC_KEY @ replicate 32 1)))]"

lemma toy_license_valid: "isLicenseValid toy_crypto (toy_license [b] [a] [e]) = Some True"
proof -
  have "list_ex (\<lambda>key. ed_verify toy_crypto key d (take 64 (hd PUBLIC_KEY @ replicate 32 1))) PUBLIC_KEY" for d
    by (simp add: PUBLIC_KEY_def toy_crypto_def)
  moreover have "length (hd PUBLIC_KEY @ replicate 32 (1 :: byte)) = 64" by (simp add: PUBLIC_KEY_def)
  ultimately show ?thesis
    by (simp add: isLicenseValid_def isJsonValid_def verifySignature_license_def toy_license_def base64_decode_encode
        generateSignatureData_def json_number_def json_text_def json_texts_def Let_def)
qed

theorem license_authentic_witness:
  "\<exists>key \<in> set PUBLIC_KEY. \<exists>signature fields.
     signed_fields (toy_license [str ''9.9.9.9''] [str ''fc94::1''] [str ''fc94::2'']) = Some fields \<and>
     ed_verify toy_crypto key (signed_text fields) signature"
  using license_authentic [OF toy_license_valid] by blast

text \<open>
  With an empty list the signed text no longer says where the next list ends: the signature of a
  license without event bus servers is also one for the license whose API servers are named as
  event bus servers.
\<close>

lemma license_lists_confused:
  assumes "generateSignatureData (toy_license base xs []) = Some d" and "base \<noteq> []" and "xs \<noteq> []"
  shows "generateSignatureData (toy_license base [] xs) = Some d"
proof -
  have m: "option_list (map (get_string \<circ> JString) ys) = Some ys" for ys by (induction ys) auto
  have "map_of [(str a, x), (str b, y)] (str a) = Some x" for a b :: string and x y :: json by simp
  have e: "appendList (s @ t @ [10]) [] = s @ t @ [10]" for s t using appendList_Nil [of "s @ t @ [10]"] by simp
  show ?thesis
    using assms
    by (simp add: generateSignatureData_def toy_license_def json_number_def json_text_def json_texts_def m appendList_eq e
        appendList_Nil Let_def)
qed

end
