(* ===== verification/FatPort.thy ===== *)
theory FatPort
  imports IpAddress
begin

text \<open>
  \<open>ports/fat/port.cpp\<close>, \<open>ports/fat/filesystem.cpp\<close> and \<open>config_env.cpp\<close>: what the desktop and server
  platforms share.  Files are a map from paths to contents, and a predicate says which files the
  process may write; an existing file it cannot read makes \<open>readFile\<close> leave the process (\<open>None\<close>).
  \<open>std::getline\<close> is \<open>getlines\<close>.

  The results: the block of lines in the hosts file that the daemon manages is replaced as a whole,
  so an update forgets all earlier ones and leaves every other line in place; the settings are
  taken from the environment first, then from the daemon section of the INI file, then from the
  common section.
\<close>

section \<open>Files\<close>

type_synonym path = bytes

record filesystem =
  files :: "path \<Rightarrow> bytes option"
  readable :: "path \<Rightarrow> bool"
  writable :: "path \<Rightarrow> bool"

definition isFile :: "filesystem \<Rightarrow> path \<Rightarrow> bool" where
  "isFile fs p \<longleftrightarrow> files fs p \<noteq> None"

definition readFileSilent :: "filesystem \<Rightarrow> path \<Rightarrow> bytes" where
  "readFileSilent fs p =
     (if \<not> isFile fs p then [] else if \<not> readable fs p then [] else the (files fs p))"

definition readFile :: "filesystem \<Rightarrow> path \<Rightarrow> bytes option" where
  "readFile fs p =
     (if \<not> isFile fs p then Some [] else if \<not> readable fs p then None else files fs p)"

definition writeFile :: "path \<Rightarrow> bytes \<Rightarrow> filesystem \<Rightarrow> bool \<times> filesystem" where
  "writeFile p d fs =
     (if \<not> writable fs p then (False, fs) else (True, fs\<lparr>files := (files fs)(p \<mapsto> d)\<rparr>))"

definition transformFile :: "path \<Rightarrow> (bytes \<Rightarrow> bytes) \<Rightarrow> filesystem \<Rightarrow> (bool \<times> filesystem) option" where
  "transformFile p transform fs =
     (if \<not> isFile fs p then Some (False, fs)
      else map_option (\<lambda>currentContent. writeFile p (transform currentContent) fs) (readFile fs p))"

function getlines :: "bytes \<Rightarrow> bytes list" where
  "getlines s = (if s = [] then [] else takeWhile (\<lambda>c. c \<noteq> 10) s # getlines (drop (Suc (length (takeWhile (\<lambda>c. c \<noteq> 10) s))) s))"
  by pat_completeness auto

termination
  by (relation "measure length") auto

declare getlines.simps [simp del]

section \<open>Storage\<close>

datatype StorageKey = Key_id | Key_config | Key_cache | Key_daemonApiToken | Key_defaults

definition configDir :: path where
  "configDir = str ''/var/lib/husarnet/''"

primrec storageMap :: "StorageKey \<Rightarrow> path" where
  "storageMap Key_id = str ''id''"
| "storageMap Key_config = str ''config.json''"
| "storageMap Key_daemonApiToken = str ''daemon_api_token''"
| "storageMap Key_cache = str ''cache.json''"
| "storageMap Key_defaults = str ''defaults.ini''"

definition readStorage :: "filesystem \<Rightarrow> StorageKey \<Rightarrow> bytes option" where
  "readStorage fs key = readFile fs (configDir @ storageMap key)"

definition writeStorage :: "StorageKey \<Rightarrow> bytes \<Rightarrow> filesystem \<Rightarrow> bool \<times> filesystem" where
  "writeStorage key d fs = writeFile (configDir @ storageMap key) d fs"

section \<open>Hostnames and the hosts file\<close>

definition validateHostname :: "bytes \<Rightarrow> bool" where
  "validateHostname hostname \<longleftrightarrow>
     length hostname \<noteq> 0 \<and>
     list_all (\<lambda>c. (97 \<le> c \<and> c \<le> 122) \<or> (65 \<le> c \<and> c \<le> 90) \<or> (48 \<le> c \<and> c \<le> 57) \<or> (c = 95 \<or> c = 45 \<or> c = 46)) hostname"

definition marker :: bytes where
  "marker = str '' # managed by Husarnet''"

definition lineEnding :: "bool \<Rightarrow> bytes" where
  "lineEnding windows = (if windows then [13, 10] else [10])"

definition managedLine :: "bytes \<times> ipaddress \<Rightarrow> bytes" where
  "managedLine = (\<lambda>(hostname, address). toString_ip address @ [32] @ hostname @ marker)"

definition updateHostsFileInternal :: "bool \<Rightarrow> (bytes \<times> ipaddress) list \<Rightarrow> bytes \<Rightarrow> bytes" where
  "updateHostsFileInternal windows data oldContent =
     concat (map (\<lambda>line. let line = rtrim line in if \<not> endsWith line marker then line @ lineEnding windows else []) (getlines oldContent)) @
     concat (map (\<lambda>(hostname, address). if \<not> validateHostname hostname then []
       else managedLine (hostname, address) @ lineEnding windows) data)"

definition hostsFilePath :: path where
  "hostsFilePath = str ''/etc/hosts''"

definition updateHostsFile :: "(bytes \<times> ipaddress) list \<Rightarrow> filesystem \<Rightarrow> (bool \<times> filesystem) option" where
  "updateHostsFile data = transformFile hostsFilePath (updateHostsFileInternal False data)"

definition hostnamePath :: path where
  "hostnamePath = str ''/etc/hostname''"

definition getSelfHostname :: "u32 \<Rightarrow> filesystem \<Rightarrow> bytes option" where
  "getSelfHostname hostid fs = map_option (\<lambda>hostname.
     if hostname \<noteq> [] then rtrim hostname
     else str ''device-'' @ encodeHex [ucast (drop_bit 24 hostid), ucast (drop_bit 16 hostid), ucast (drop_bit 8 hostid), ucast hostid])
     (readFile fs hostnamePath)"

text \<open>\<open>system_ok\<close> is the success of the command \<open>hostname -F\<close>.\<close>

definition setSelfHostname :: "u32 \<Rightarrow> bool \<Rightarrow> bytes \<Rightarrow> filesystem \<Rightarrow> (bool \<times> filesystem) option" where
  "setSelfHostname hostid system_ok newHostname fs =
     (if \<not> validateHostname newHostname then Some (False, fs)
      else case getSelfHostname hostid fs of
        None \<Rightarrow> None
      | Some current \<Rightarrow>
          if newHostname = current then Some (True, fs)
          else map_option (\<lambda>(written, fs). (system_ok, fs)) (transformFile hostnamePath (\<lambda>oldContent. newHostname) fs))"

section \<open>Settings\<close>

datatype EnvKey =
    tldFqdn | logVerbosity | logBackendSleepDurationMs | enableHooks | enableControlPlane | enableJsonLogging
  | daemonInterface | daemonApiInterface | daemonApiHost | daemonApiPort | daemonWorkerQueueSize

definition envMap :: "(bytes \<times> EnvKey) list" where
  "envMap =
     [(str ''HUSARNET_INSTANCE_FQDN'', tldFqdn),
      (str ''HUSARNET_LOG_VERBOSITY'', logVerbosity),
      (str ''HUSARNET_LOG_BACKEND_SLEEP_DURATION_MS'', logBackendSleepDurationMs),
      (str ''HUSARNET_ENABLE_HOOKS'', enableHooks),
      (str ''HUSARNET_ENABLE_CONTROLPLANE'', enableControlPlane),
      (str ''HUSARNET_ENABLE_JSON_LOGGING'', enableJsonLogging),
      (str ''HUSARNET_DAEMON_INTERFACE'', daemonInterface),
      (str ''HUSARNET_DAEMON_API_INTERFACE'', daemonApiInterface),
      (str ''HUSARNET_DAEMON_API_HOST'', daemonApiHost),
      (str ''HUSARNET_DAEMON_API_PORT'', daemonApiPort),
      (str ''HUSARNET_DAEMON_WORKER_QUEUE_SIZE'', daemonWorkerQueueSize)]"

datatype Section = Unknown | Daemon | Common

record ini_state =
  ini_section :: Section
  commonSection :: "EnvKey \<Rightarrow> bytes option"
  daemonSection :: "EnvKey \<Rightarrow> bytes option"

definition iniLine :: "bytes \<Rightarrow> ini_state \<Rightarrow> ini_state" where
  "iniLine line st =
     (if line = [] \<or> hd line = 59 then st
      else if startsWith line (str ''['') then
        st\<lparr>ini_section :=
          (if startsWith (strToLower line) (str ''[common]'') then Common
           else if startsWith (strToLower line) (str ''[daemon]'') then Daemon
           else Unknown)\<rparr>
      else if ini_section st = Unknown then st
      else
        let splitted = split line 61 1 in
        if length splitted = 1 then st
        else
          let key = strToUpper (str ''HUSARNET_'' @ trim (splitted ! 0)); v = trim (splitted ! 1) in
          (case map_of envMap key of
             None \<Rightarrow> st
           | Some k \<Rightarrow>
               if ini_section st = Common
               then st\<lparr>commonSection := (commonSection st)(k \<mapsto> v)\<rparr>
               else st\<lparr>daemonSection := (daemonSection st)(k \<mapsto> v)\<rparr>))"

definition getEnvironmentDefaultsFromIniFile :: "bytes \<Rightarrow> EnvKey \<Rightarrow> bytes option" where
  "getEnvironmentDefaultsFromIniFile contents =
     (if contents = [] then Map.empty
      else
        let st = fold iniLine (getlines contents)
              \<lparr>ini_section = Unknown, commonSection = Map.empty, daemonSection = Map.empty\<rparr>
        in commonSection st ++ daemonSection st)"

definition getEnvironmentOverrides :: "bytes list \<Rightarrow> EnvKey \<Rightarrow> bytes option" where
  "getEnvironmentOverrides environ =
     fold (\<lambda>entry result.
       let splitted = split entry 61 1 in
       if length splitted = 1 then result
       else case map_of envMap (strToUpper (splitted ! 0)) of
         None \<Rightarrow> result
       | Some k \<Rightarrow> result(k \<mapsto> splitted ! 1)) environ Map.empty"

definition ConfigEnv :: "bytes \<Rightarrow> bytes list \<Rightarrow> EnvKey \<Rightarrow> bytes option" where
  "ConfigEnv contents environ = getEnvironmentDefaultsFromIniFile contents ++ getEnvironmentOverrides environ"

definition envPresentOrDefault :: "(EnvKey \<Rightarrow> bytes option) \<Rightarrow> EnvKey \<Rightarrow> bytes \<Rightarrow> bytes" where
  "envPresentOrDefault env key def = (case env key of Some v \<Rightarrow> v | None \<Rightarrow> def)"

text \<open>\<open>std::stoi\<close>: \<open>None\<close> is the exception for a text without a number or one outside the range.\<close>

definition stoi :: "bytes \<Rightarrow> int option" where
  "stoi s =
     (let s = dropWhile isspace s;
          neg = (s \<noteq> [] \<and> hd s = 45);
          s = (if s \<noteq> [] \<and> (hd s = 45 \<or> hd s = 43) then tl s else s);
          digits = takeWhile isdigit s;
          v = (if neg then - int (dec_value digits) else int (dec_value digits))
      in if digits = [] then None else if v < - (2 ^ 31) \<or> v \<ge> 2 ^ 31 then None else Some v)"

datatype LogLevel = LL_NONE | LL_CRITICAL | LL_ERROR | LL_WARNING | LL_INFO | LL_DEBUG

definition logLevelNames :: "(bytes \<times> LogLevel) list" where
  "logLevelNames = [(str ''NONE'', LL_NONE), (str ''CRITICAL'', LL_CRITICAL), (str ''ERROR'', LL_ERROR),
     (str ''WARNING'', LL_WARNING), (str ''INFO'', LL_INFO), (str ''DEBUG'', LL_DEBUG)]"

definition getTldFqdn :: "(EnvKey \<Rightarrow> bytes option) \<Rightarrow> bytes" where
  "getTldFqdn env = envPresentOrDefault env tldFqdn (str ''prod.husarnet.com'')"

definition getLogVerbosity :: "bool \<Rightarrow> (EnvKey \<Rightarrow> bytes option) \<Rightarrow> LogLevel" where
  "getLogVerbosity debug_build env =
     (let def = (if debug_build then LL_DEBUG else LL_INFO) in
      case env logVerbosity of
        None \<Rightarrow> def
      | Some v \<Rightarrow> (case map_of logLevelNames (strToUpper v) of Some l \<Rightarrow> l | None \<Rightarrow> def))"

definition getLogBackendSleepDurationMs :: "(EnvKey \<Rightarrow> bytes option) \<Rightarrow> int option" where
  "getLogBackendSleepDurationMs env = stoi (envPresentOrDefault env logBackendSleepDurationMs (str ''100''))"

definition getEnableHooks :: "(EnvKey \<Rightarrow> bytes option) \<Rightarrow> bool" where
  "getEnableHooks env = strToBool (envPresentOrDefault env enableHooks (str ''false''))"

definition getEnableControlplane :: "(EnvKey \<Rightarrow> bytes option) \<Rightarrow> bool" where
  "getEnableControlplane env = strToBool (envPresentOrDefault env enableControlPlane (str ''true''))"

definition getEnableJsonLogging :: "(EnvKey \<Rightarrow> bytes option) \<Rightarrow> bool" where
  "getEnableJsonLogging env = strToBool (envPresentOrDefault env enableJsonLogging (str ''false''))"

definition getDaemonInterface :: "(EnvKey \<Rightarrow> bytes option) \<Rightarrow> bytes" where
  "getDaemonInterface env = envPresentOrDefault env daemonInterface (str ''hnet0'')"

definition getDaemonApiInterface :: "(EnvKey \<Rightarrow> bytes option) \<Rightarrow> bytes" where
  "getDaemonApiInterface env = envPresentOrDefault env daemonApiInterface []"

definition getDaemonApiHost :: "u32 list \<Rightarrow> (EnvKey \<Rightarrow> bytes option) \<Rightarrow> ipaddress option" where
  "getDaemonApiHost junk env =
     (case env daemonApiHost of Some v \<Rightarrow> IpAddress_parse junk v | None \<Rightarrow> IpAddress_parse junk (str ''127.0.0.1''))"

definition getDaemonApiPort :: "(EnvKey \<Rightarrow> bytes option) \<Rightarrow> int option" where
  "getDaemonApiPort env = stoi (envPresentOrDefault env daemonApiPort (str ''16216''))"

definition getWorkerQueueSize :: "(EnvKey \<Rightarrow> bytes option) \<Rightarrow> int option" where
  "getWorkerQueueSize env = stoi (envPresentOrDefault env daemonWorkerQueueSize (str ''256''))"

section \<open>Lines\<close>

lemma getlines_Nil [simp]: "getlines [] = []"
  by (simp add: getlines.simps)

lemma getlines_line:
  assumes "10 \<notin> set l"
  shows "getlines (l @ 10 # s) = l # getlines s"
proof -
  have "takeWhile (\<lambda>c. c \<noteq> 10) (l @ 10 # s) = l" using assms by (subst takeWhile_append2) auto
  then show ?thesis by (subst getlines.simps) simp
qed

lemma getlines_set: "l \<in> set (getlines s) \<Longrightarrow> 10 \<notin> set l"
proof (induction s rule: getlines.induct)
  case (1 s)
  then show ?case using getlines.simps [of s] by (auto split: if_splits dest: set_takeWhileD)
qed

lemma getlines_concat:
  "\<forall>l \<in> set ls. 10 \<notin> set l \<Longrightarrow>
   getlines (concat (map (\<lambda>l. l @ lineEnding windows) ls)) = map (\<lambda>l. l @ (if windows then [13] else [])) ls"
proof (induction ls)
  case (Cons l ls)
  let ?l = "l @ (if windows then [13] else [])"
  have e: "concat (map (\<lambda>l. l @ lineEnding windows) (l # ls)) = ?l @ 10 # concat (map (\<lambda>l. l @ lineEnding windows) ls)"
    by (simp add: lineEnding_def)
  have "10 \<notin> set ?l" using Cons.prems by simp
  then show ?case unfolding e using getlines_line [of ?l] Cons by (simp del: append_assoc)
qed simp

lemma rtrim_rtrim [simp]: "rtrim (rtrim s) = rtrim s"
  by (simp add: rtrim_def)

lemma rtrim_CR [simp]: "rtrim (l @ (if windows then [13] else [])) = rtrim l"
  by (simp add: rtrim_def isspace_def)

lemma set_rtrim: "set (rtrim s) \<subseteq> set s"
  using set_dropWhileD [of _ isspace "rev s"] by (auto simp: rtrim_def)

lemma rtrim_stable: "s \<noteq> [] \<Longrightarrow> \<not> isspace (last s) \<Longrightarrow> rtrim s = s"
  by (cases s rule: rev_cases) (simp_all add: rtrim_def)

section \<open>The hosts file\<close>

text \<open>The lines that are not managed, as they are written back.\<close>

definition unmanaged :: "bytes \<Rightarrow> bytes list" where
  "unmanaged s = filter (\<lambda>l. \<not> endsWith l marker) (map rtrim (getlines s))"

definition managed :: "(bytes \<times> ipaddress) list \<Rightarrow> bytes list" where
  "managed data = map managedLine (filter (\<lambda>(hostname, address). validateHostname hostname) data)"

lemma update_eq:
  "updateHostsFileInternal windows data s = concat (map (\<lambda>l. l @ lineEnding windows) (unmanaged s @ managed data))"
proof -
  have "concat (map (\<lambda>line. let line = rtrim line in if \<not> endsWith line marker then line @ e else []) ls) =
      concat (map (\<lambda>l. l @ e) (filter (\<lambda>l. \<not> endsWith l marker) (map rtrim ls)))" for ls :: "bytes list" and e
    by (induction ls) (simp_all add: Let_def)
  moreover have "concat (map (\<lambda>(h, a). if \<not> validateHostname h then [] else managedLine (h, a) @ e) d) =
      concat (map (\<lambda>l. l @ e) (managed d))" for d e
    by (induction d) (auto simp: managed_def)
  ultimately show ?thesis by (simp add: updateHostsFileInternal_def unmanaged_def)
qed

lemma hex_digit_chars: "hex_hi b \<noteq> 10" "hex_lo b \<noteq> 10"
proof -
  have s: "10 \<notin> set hexLetters" "length hexLetters = 16" by code_simp+
  have "unat (w AND 0xF) < 16" for w :: byte
    using word_and_le1 [of w "0xF"] by (simp add: word_le_nat_alt)
  then show "hex_hi b \<noteq> 10" "hex_lo b \<noteq> 10" using s by (metis nth_mem)+
qed

lemma toString_ip_line: "10 \<notin> set (toString_ip a)"
  using not_digit [of 10] hex_digit_chars by (auto simp: toString_ip_def Let_def)

lemma managedLine_line:
  assumes "validateHostname h"
  shows "10 \<notin> set (managedLine (h, a))"
proof -
  have "10 \<notin> set h" using assms by (auto simp: validateHostname_def list_all_iff)
  moreover have "10 \<notin> set marker" by code_simp
  ultimately show ?thesis using toString_ip_line by (simp add: managedLine_def)
qed

lemma managedLine_marked: "endsWith (managedLine x) marker" "rtrim (managedLine x) = managedLine x"
proof -
  have m: "marker \<noteq> []" "\<not> isspace (last marker)" by code_simp+
  obtain h a where x: "x = (h, a)" by (cases x)
  show "endsWith (managedLine x) marker" by (simp add: x endsWith_def managedLine_def)
  show "rtrim (managedLine x) = managedLine x" using m by (intro rtrim_stable) (simp_all add: x managedLine_def)
qed

lemma unmanaged_lines: "l \<in> set (unmanaged s) \<Longrightarrow> 10 \<notin> set l \<and> rtrim l = l \<and> \<not> endsWith l marker"
  using getlines_set set_rtrim by (fastforce simp: unmanaged_def)

lemma update_lines:
  "map rtrim (getlines (updateHostsFileInternal windows data s)) = unmanaged s @ managed data"
proof -
  have n: "\<forall>l \<in> set (unmanaged s @ managed data). 10 \<notin> set l"
    using unmanaged_lines managedLine_line by (auto simp: managed_def)
  have r: "\<forall>l \<in> set (unmanaged s @ managed data). rtrim l = l"
    using unmanaged_lines managedLine_marked(2) by (auto simp: managed_def)
  have "map rtrim (getlines (updateHostsFileInternal windows data s)) = map rtrim (unmanaged s @ managed data)"
    unfolding update_eq getlines_concat [OF n] by (simp only: map_map comp_def rtrim_CR)
  also have "\<dots> = unmanaged s @ managed data" using r by (intro map_idI) blast
  finally show ?thesis .
qed

lemma unmanaged_update: "unmanaged (updateHostsFileInternal windows data s) = unmanaged s"
proof -
  have "filter (\<lambda>l. \<not> endsWith l marker) (managed data) = []" using managedLine_marked(1) by (auto simp: managed_def filter_empty_conv)
  moreover have "filter (\<lambda>l. \<not> endsWith l marker) (unmanaged s) = unmanaged s" by (simp add: unmanaged_def)
  ultimately show ?thesis unfolding unmanaged_def [of "updateHostsFileInternal windows data s"] update_lines by simp
qed

text \<open>The hosts file after an update consists of its former lines that do not carry the marker,
  in order and without trailing white space, followed by one line per valid name; an update
  therefore leaves nothing of the updates before it, and repeating it changes nothing.\<close>

theorem hosts_file_update:
  "map rtrim (getlines (updateHostsFileInternal windows data s)) =
     filter (\<lambda>l. \<not> endsWith l marker) (map rtrim (getlines s)) @
     map managedLine (filter (\<lambda>(hostname, address). validateHostname hostname) data) \<and>
   updateHostsFileInternal windows data (updateHostsFileInternal windows' data' s) = updateHostsFileInternal windows data s"
proof
  show "map rtrim (getlines (updateHostsFileInternal windows data s)) =
     filter (\<lambda>l. \<not> endsWith l marker) (map rtrim (getlines s)) @
     map managedLine (filter (\<lambda>(hostname, address). validateHostname hostname) data)"
    unfolding update_lines by (simp add: unmanaged_def managed_def)
  show "updateHostsFileInternal windows data (updateHostsFileInternal windows' data' s) = updateHostsFileInternal windows data s"
    unfolding update_eq [of windows data] by (simp add: unmanaged_update)
qed

end
