(* ===== verification/ConfigManager.thy ===== *)
theory ConfigManager
  imports Licensing FatPort
begin

text \<open>
  \<open>config_manager.cpp\<close>, \<open>hooks_manager.cpp\<close> and \<open>dashboardapi/response.cpp\<close>: which servers the node
  uses and which peers it talks to.  The license names the servers, the control plane's
  \<open>get_config\<close> the peers, the user's own configuration a short whitelist; two JSON documents cache
  them and are kept in files.

  An operation takes the state to a result and the state after it; \<open>None\<close> is an exception, which
  ends the thread that runs the operation, or a failed assertion.  Putting an element into a full
  container of the embedded template library is such an error.  An ordered set is an ordered list,
  a \<open>std::map\<close> an association list ordered by key.  The environment gives the clock and the answers
  of the two servers; the JSON parser and printer are parameters.

  The results: a successful \<open>get_config\<close> replaces the peers, so that exactly those it names (and the
  servers and the user's whitelist) are allowed; containers stay within their bounds and ordered;
  the servers are those of the license at the start for ever; additions to the whitelist are
  lost at the next start; claim hooks run once per change of ownership.
\<close>

section \<open>Hooks\<close>

datatype HookType = claimed_hook | unclaimed_hook

record HooksManager =
  hooks_enabled :: bool
  hookTimers :: "HookType \<Rightarrow> int"

definition HOOKS_PERIOD :: int where "HOOKS_PERIOD = 100"

definition HOOKS_BUMP_TIME :: int where "HOOKS_BUMP_TIME = 200"

definition HooksManager_init :: "bool \<Rightarrow> HooksManager" where
  "HooksManager_init enabled = \<lparr>hooks_enabled = enabled, hookTimers = (\<lambda>_. -1)\<rparr>"

definition scheduleHook :: "HookType \<Rightarrow> HooksManager \<Rightarrow> HooksManager" where
  "scheduleHook hookType hm =
     (if \<not> hooks_enabled hm then hm else hm\<lparr>hookTimers := (hookTimers hm)(hookType := HOOKS_BUMP_TIME)\<rparr>)"

definition hookStep :: "HookType \<Rightarrow> HookType list \<times> HooksManager \<Rightarrow> HookType list \<times> HooksManager" where
  "hookStep hook = (\<lambda>(ran, hm).
     if hookTimers hm hook \<ge> 0 then
       let t = hookTimers hm hook - HOOKS_PERIOD in
       if t \<le> 0 then (ran @ [hook], hm\<lparr>hookTimers := (hookTimers hm)(hook := -1)\<rparr>)
       else (ran, hm\<lparr>hookTimers := (hookTimers hm)(hook := t)\<rparr>)
     else (ran, hm))"

text \<open>One round of the thread, which runs only if hooks are enabled: the hooks run and the timers.\<close>

definition hooksPeriodic :: "HooksManager \<Rightarrow> HookType list \<times> HooksManager" where
  "hooksPeriodic hm =
     (if \<not> hooks_enabled hm then ([], hm) else hookStep unclaimed_hook (hookStep claimed_hook ([], hm)))"

section \<open>Answers of the dashboard API\<close>

definition Response :: "(bytes \<Rightarrow> json) \<Rightarrow> int \<Rightarrow> bytes \<Rightarrow> json option" where
  "Response parse code d =
     (if code = 200 then (if parse d = JDiscarded then None else Some (parse d)) else Some (JObject []))"

definition isSuccessful :: "int \<Rightarrow> json \<Rightarrow> bool option" where
  "isSuccessful statusCode jsonDoc =
     (if statusCode \<noteq> 200 then Some False
      else do { t \<leftarrow> json_at jsonDoc (str ''type''); s \<leftarrow> get_string t; Some (s = str ''success'') })"

definition getPayloadJson :: "json \<Rightarrow> json option" where
  "getPayloadJson jsonDoc = map_option fst (json_ref jsonDoc (str ''payload''))"

definition Response_toString :: "json \<Rightarrow> bytes option" where
  "Response_toString jsonDoc = do {
     (t, jsonDoc) \<leftarrow> json_ref jsonDoc (str ''type'');
     if t = JNull then Some (str ''unknown error type null'')
     else do {
       (e, jsonDoc) \<leftarrow> json_ref jsonDoc (str ''errors'');
       errors \<leftarrow> get_strings e;
       Some ((if t = JString (str ''user_error'') then str ''invalid request: ''
              else if t = JString (str ''server_error'') then str ''server error: ''
              else str ''unknown api error: '') @ concat errors)
     }
   }"

section \<open>State\<close>

record config_state =
  userConfigJson :: json
  cacheJson :: json
  allowEveryone :: bool
  claimed :: bool
  nextLicenseDownload :: int
  nextGetConfigUpdate :: int
  allowedPeers :: "ipaddress list"
  userWhitelist :: "ipaddress list"
  baseAddresses :: "ipaddress list"
  apiAddresses :: "ipaddress list"
  ebAddresses :: "ipaddress list"
  claimedBy :: bytes
  cm_hostname :: bytes
  hooks :: HooksManager
  fs :: filesystem

text \<open>The surroundings that do not change: the JSON library, libsodium, the settings, the node's own
  address and the host.\<close>

record config_node =
  json_parse :: "bytes \<Rightarrow> json"
  json_dump :: "json \<Rightarrow> bytes"
  cm_crypto :: crypto
  configEnv :: "EnvKey \<Rightarrow> bytes option"
  ourIp :: ipaddress
  cm_hostid :: u32
  hostname_command_ok :: bool

record config_world =
  clock :: int
  license_answer :: "int \<times> bytes"
  api_answer :: "int \<times> bytes"

definition ALLOWED_PEERS_LIMIT :: nat where "ALLOWED_PEERS_LIMIT = 128"

definition MULTICAST_DESTINATIONS_LIMIT :: nat where "MULTICAST_DESTINATIONS_LIMIT = 128"

definition BASE_ADDRESSES_LIMIT :: nat where "BASE_ADDRESSES_LIMIT = 16"

definition DASHBOARD_API_ADDRESSES_LIMIT :: nat where "DASHBOARD_API_ADDRESSES_LIMIT = 16"

definition EVENTBUS_ADDRESSES_LIMIT :: nat where "EVENTBUS_ADDRESSES_LIMIT = 16"

definition USER_WHITELIST_SIZE_LIMIT :: nat where "USER_WHITELIST_SIZE_LIMIT = 8"

definition EMAIL_MAX_LENGTH :: nat where "EMAIL_MAX_LENGTH = 254"

definition HOSTNAME_MAX_LENGTH :: nat where "HOSTNAME_MAX_LENGTH = 255"

definition getConfigRefreshPeriod :: int where "getConfigRefreshPeriod = 10 * 60 * 1000"

definition licenseRefreshPeriod :: int where "licenseRefreshPeriod = 30 * 60 * 1000"

definition etl_insert :: "nat \<Rightarrow> 'a::linorder \<Rightarrow> 'a list \<Rightarrow> 'a list option" where
  "etl_insert limit x s = (if length s \<ge> limit then None else Some (if x \<in> set s then s else insort x s))"

definition etl_push_back :: "nat \<Rightarrow> 'a \<Rightarrow> 'a list \<Rightarrow> 'a list option" where
  "etl_push_back limit x v = (if length v \<ge> limit then None else Some (v @ [x]))"

primrec fold_option :: "('a \<Rightarrow> 's \<Rightarrow> 's option) \<Rightarrow> 'a list \<Rightarrow> 's \<Rightarrow> 's option" where
  "fold_option f [] s = Some s"
| "fold_option f (x # xs) s = (case f x s of None \<Rightarrow> None | Some s' \<Rightarrow> fold_option f xs s')"

abbreviation parse_address :: "bytes \<Rightarrow> ipaddress option" where
  "parse_address \<equiv> IpAddress_parse [0, 0, 0, 0]"

definition ConfigManager_init :: "config_node \<Rightarrow> int \<Rightarrow> HooksManager \<Rightarrow> filesystem \<Rightarrow> config_state" where
  "ConfigManager_init nd now hm disk =
     \<lparr>userConfigJson = JObject [], cacheJson = JObject [], allowEveryone = \<not> getEnableControlplane (configEnv nd),
      claimed = False, nextLicenseDownload = now, nextGetConfigUpdate = now + 5000, allowedPeers = [], userWhitelist = [],
      baseAddresses = [], apiAddresses = [], ebAddresses = [], claimedBy = [], cm_hostname = [], hooks = hm, fs = disk\<rparr>"

section \<open>License\<close>

definition storeLicense :: "json \<Rightarrow> config_state \<Rightarrow> config_state option" where
  "storeLicense jsonDoc st = map_option (\<lambda>j. st\<lparr>cacheJson := j\<rparr>) (json_set (cacheJson st) (str ''license'') jsonDoc)"

definition fetchLicenseJson :: "config_node \<Rightarrow> config_world \<Rightarrow> config_state \<Rightarrow> (bool \<times> config_state) option" where
  "fetchLicenseJson nd w st =
     (if fst (license_answer w) \<noteq> 200 then Some (False, st)
      else do {
        let licenseJson = json_parse nd (snd (license_answer w));
        valid \<leftarrow> isLicenseValid (cm_crypto nd) licenseJson;
        if \<not> valid then Some (False, st)
        else do {
          st \<leftarrow> storeLicense licenseJson st;
          Some (True, st\<lparr>nextLicenseDownload := clock w + licenseRefreshPeriod\<rparr>)
        }
      })"

definition addEbServer :: "bytes \<Rightarrow> config_state \<Rightarrow> config_state option" where
  "addEbServer ipStr st = do {
     ip \<leftarrow> parse_address ipStr;
     v \<leftarrow> etl_push_back EVENTBUS_ADDRESSES_LIMIT ip (ebAddresses st);
     s \<leftarrow> etl_insert ALLOWED_PEERS_LIMIT ip (allowedPeers st);
     Some (st\<lparr>ebAddresses := v, allowedPeers := s\<rparr>)
   }"

definition addApiServer :: "bytes \<Rightarrow> config_state \<Rightarrow> config_state option" where
  "addApiServer ipStr st = do {
     ip \<leftarrow> parse_address ipStr;
     v \<leftarrow> etl_push_back DASHBOARD_API_ADDRESSES_LIMIT ip (apiAddresses st);
     s \<leftarrow> etl_insert ALLOWED_PEERS_LIMIT ip (allowedPeers st);
     Some (st\<lparr>apiAddresses := v, allowedPeers := s\<rparr>)
   }"

definition addBaseServer :: "bytes \<Rightarrow> config_state \<Rightarrow> config_state option" where
  "addBaseServer ipStr st = do {
     ip \<leftarrow> parse_address ipStr;
     v \<leftarrow> etl_push_back BASE_ADDRESSES_LIMIT ip (baseAddresses st);
     Some (st\<lparr>baseAddresses := v\<rparr>)
   }"

definition updateLicenseData :: "config_state \<Rightarrow> config_state option" where
  "updateLicenseData st = do {
     (licenseJson, cache) \<leftarrow> json_ref (cacheJson st) (str ''license'');
     let st = st\<lparr>cacheJson := cache\<rparr>;
     if licenseJson = JDiscarded \<or> licenseJson = JNull then Some st
     else do {
       v \<leftarrow> json_at licenseJson (str ''eb_servers'');
       ebServerIps \<leftarrow> get_strings v;
       st \<leftarrow> fold_option addEbServer ebServerIps (st\<lparr>ebAddresses := []\<rparr>);
       v \<leftarrow> json_at licenseJson (str ''api_servers'');
       apiServerIps \<leftarrow> get_strings v;
       st \<leftarrow> fold_option addApiServer apiServerIps (st\<lparr>apiAddresses := []\<rparr>);
       v \<leftarrow> json_at licenseJson (str ''base_server_addresses'');
       baseServerIps \<leftarrow> get_strings v;
       fold_option addBaseServer baseServerIps (st\<lparr>baseAddresses := []\<rparr>)
     }
   }"

definition getApiAddress :: "config_state \<Rightarrow> ipaddress" where
  "getApiAddress st = (if apiAddresses st = [] then IpAddress_default else apiAddresses st ! 0)"

definition getEbAddress :: "config_state \<Rightarrow> ipaddress" where
  "getEbAddress st = (if ebAddresses st = [] then IpAddress_default else ebAddresses st ! 0)"

section \<open>The configuration from the control plane\<close>

definition storeGetConfig :: "json \<Rightarrow> config_state \<Rightarrow> config_state option" where
  "storeGetConfig jsonDoc st = map_option (\<lambda>j. st\<lparr>cacheJson := j\<rparr>) (json_set (cacheJson st) (str ''get_config'') jsonDoc)"

text \<open>\<open>operator[]\<close> on a copy of a part of the document: a missing key gives null.\<close>

definition json_copy_at :: "json \<Rightarrow> bytes \<Rightarrow> json option" where
  "json_copy_at j k = map_option fst (json_ref j k)"

definition updateClaim :: "config_node \<Rightarrow> json \<Rightarrow> config_state \<Rightarrow> config_state option" where
  "updateClaim nd latestConfig st = do {
     v \<leftarrow> json_at latestConfig (str ''is_claimed'');
     isClaimed \<leftarrow> get_bool v;
     let st = st\<lparr>claimed := isClaimed\<rparr>;
     if isClaimed then do {
       claimInfo \<leftarrow> json_at latestConfig (str ''claim_info'');
       v \<leftarrow> json_copy_at claimInfo (str ''owner'');
       ownerStr \<leftarrow> get_string v;
       v \<leftarrow> json_copy_at claimInfo (str ''hostname'');
       hostnameStr \<leftarrow> get_string v;
       let st = st\<lparr>claimedBy := take EMAIL_MAX_LENGTH (c_str ownerStr), cm_hostname := take HOSTNAME_MAX_LENGTH (c_str hostnameStr)\<rparr>;
       featureFlags \<leftarrow> json_at latestConfig (str ''features'');
       v \<leftarrow> json_copy_at featureFlags (str ''SyncHostname'');
       shouldSyncHostname \<leftarrow> get_bool v;
       if shouldSyncHostname
       then map_option (\<lambda>(ok, disk). st\<lparr>fs := disk\<rparr>) (setSelfHostname (cm_hostid nd) (hostname_command_ok nd) hostnameStr (fs st))
       else Some st
     }
     else Some (st\<lparr>claimedBy := []\<rparr>)
   }"

definition claimHooks :: "bytes \<Rightarrow> config_state \<Rightarrow> config_state" where
  "claimHooks previousOwner st =
     (let st = (if previousOwner = [] \<and> claimedBy st \<noteq> [] then st\<lparr>hooks := scheduleHook claimed_hook (hooks st)\<rparr> else st) in
      if previousOwner \<noteq> [] \<and> claimedBy st = [] then st\<lparr>hooks := scheduleHook unclaimed_hook (hooks st)\<rparr> else st)"

definition addPeerInfo :: "json \<Rightarrow> config_state \<times> (bytes \<times> ipaddress) list \<Rightarrow> (config_state \<times> (bytes \<times> ipaddress) list) option" where
  "addPeerInfo peerInfo = (\<lambda>(st, hostsEntries). do {
     v \<leftarrow> json_at peerInfo (str ''address'');
     addrStr \<leftarrow> get_string v;
     v \<leftarrow> json_at peerInfo (str ''hostname'');
     peerHostname \<leftarrow> get_string v;
     v \<leftarrow> json_at peerInfo (str ''aliases'');
     aliases \<leftarrow> get_strings v;
     address \<leftarrow> parse_address addrStr;
     s \<leftarrow> etl_insert ALLOWED_PEERS_LIMIT address (allowedPeers st);
     Some (st\<lparr>allowedPeers := s\<rparr>, fold (\<lambda>alias. map_insert alias address) aliases (map_insert peerHostname address hostsEntries))
   })"

definition updateGetConfigData :: "config_node \<Rightarrow> config_state \<Rightarrow> config_state option" where
  "updateGetConfigData nd st = do {
     (latestConfig, cache) \<leftarrow> json_ref (cacheJson st) (str ''get_config'');
     let st = st\<lparr>cacheJson := cache\<rparr>;
     (st, hostsEntries) \<leftarrow>
       (case json_at latestConfig (str ''peers'') of
          Some (JArray peerInfos) \<Rightarrow> do {
            let previousOwner = claimedBy st;
            st \<leftarrow> updateClaim nd latestConfig (st\<lparr>allowedPeers := []\<rparr>);
            fold_option addPeerInfo peerInfos (claimHooks previousOwner st, [])
          }
        | _ \<Rightarrow> Some (st, []));
     map_option (\<lambda>(ok, disk). st\<lparr>fs := disk\<rparr>)
       (updateHostsFile (map_insert (str ''husarnet-local'') (ourIp nd) hostsEntries) (fs st))
   }"

definition fetchGetConfig :: "config_node \<Rightarrow> config_world \<Rightarrow> config_state \<Rightarrow> config_state option" where
  "fetchGetConfig nd w st = do {
     jsonDoc \<leftarrow> Response (json_parse nd) (fst (api_answer w)) (snd (api_answer w));
     ok \<leftarrow> isSuccessful (fst (api_answer w)) jsonDoc;
     if ok then do {
       payload \<leftarrow> getPayloadJson jsonDoc;
       st \<leftarrow> storeGetConfig payload st;
       st \<leftarrow> updateGetConfigData nd st;
       Some (st\<lparr>nextGetConfigUpdate := clock w + getConfigRefreshPeriod\<rparr>)
     }
     else do { message \<leftarrow> Response_toString jsonDoc; Some st }
   }"

section \<open>The user's configuration and the files\<close>

definition storeUserConfig :: "json \<Rightarrow> config_state \<Rightarrow> config_state option" where
  "storeUserConfig jsonDoc st =
     (case json_at jsonDoc (str ''local-whitelist'') of
        Some (JArray xs) \<Rightarrow>
          map_option (\<lambda>j. st\<lparr>userConfigJson := j\<rparr>) (json_set (userConfigJson st) (str ''local-whitelist'') (JArray xs))
      | _ \<Rightarrow> Some st)"

definition readUserConfig :: "config_node \<Rightarrow> config_state \<Rightarrow> (bool \<times> config_state) option" where
  "readUserConfig nd st = do {
     contents \<leftarrow> readStorage (fs st) Key_config;
     let parsedContents = json_parse nd (if contents = [] then str ''{}'' else contents);
     if parsedContents = JDiscarded
     then map_option (\<lambda>st. (False, st)) (storeUserConfig (JObject []) st)
     else map_option (\<lambda>st. (True, st)) (storeUserConfig parsedContents st)
   }"

definition addWhitelistEntry :: "bytes \<Rightarrow> config_state \<Rightarrow> config_state option" where
  "addWhitelistEntry entry st = do {
     address \<leftarrow> parse_address entry;
     if isFC94 address
     then map_option (\<lambda>s. st\<lparr>userWhitelist := s\<rparr>) (etl_insert USER_WHITELIST_SIZE_LIMIT address (userWhitelist st))
     else Some st
   }"

definition updateUserConfigData :: "config_state \<Rightarrow> config_state option" where
  "updateUserConfigData st =
     (case json_at (userConfigJson st) (str ''local-whitelist'') of
        Some (JArray xs) \<Rightarrow> do {
          entries \<leftarrow> get_strings (JArray xs);
          fold_option addWhitelistEntry entries (st\<lparr>userWhitelist := []\<rparr>)
        }
      | _ \<Rightarrow> Some st)"

definition storeCacheEntry :: "bytes \<Rightarrow> json \<Rightarrow> config_state \<Rightarrow> config_state option" where
  "storeCacheEntry k jsonDoc st =
     (case json_at jsonDoc k of
        Some (JObject m) \<Rightarrow> map_option (\<lambda>j. st\<lparr>cacheJson := j\<rparr>) (json_set (cacheJson st) k (JObject m))
      | _ \<Rightarrow> Some st)"

definition storeCache :: "json \<Rightarrow> config_state \<Rightarrow> config_state option" where
  "storeCache jsonDoc st = do {
     st \<leftarrow> storeCacheEntry (str ''get_config'') jsonDoc st;
     storeCacheEntry (str ''license'') jsonDoc st
   }"

definition readCache :: "config_node \<Rightarrow> config_state \<Rightarrow> (bool \<times> config_state) option" where
  "readCache nd st = do {
     contents \<leftarrow> readStorage (fs st) Key_cache;
     if contents = [] then Some (False, st)
     else
       let parsedContents = json_parse nd contents in
       if parsedContents = JDiscarded then Some (False, st)
       else map_option (\<lambda>st. (True, st)) (storeCache parsedContents st)
   }"

definition writeUserConfig :: "config_node \<Rightarrow> config_state \<Rightarrow> bool \<times> config_state" where
  "writeUserConfig nd st =
     (case writeStorage Key_config (json_dump nd (userConfigJson st)) (fs st) of (ok, disk) \<Rightarrow> (ok, st\<lparr>fs := disk\<rparr>))"

definition writeCache :: "config_node \<Rightarrow> config_state \<Rightarrow> bool \<times> config_state" where
  "writeCache nd st =
     (case writeStorage Key_cache (json_dump nd (cacheJson st)) (fs st) of (ok, disk) \<Rightarrow> (ok, st\<lparr>fs := disk\<rparr>))"

section \<open>Queries\<close>

definition cm_isPeerAllowed :: "config_state \<Rightarrow> ipaddress \<Rightarrow> bool" where
  "cm_isPeerAllowed st address \<longleftrightarrow>
     (if allowEveryone st then True
      else if list_ex (\<lambda>apiAddr. apiAddr = address) (apiAddresses st) then True
      else if list_ex (\<lambda>ebAddr. ebAddr = address) (ebAddresses st) then True
      else if address \<in> set (userWhitelist st) then True
      else address \<in> set (allowedPeers st))"

definition getMulticastDestinations :: "config_state \<Rightarrow> ipaddress \<Rightarrow> ipaddress list option" where
  "getMulticastDestinations st i = fold_option (etl_push_back MULTICAST_DESTINATIONS_LIMIT) (allowedPeers st) []"

definition getDataForStatus :: "bool \<Rightarrow> config_node \<Rightarrow> config_state \<Rightarrow> json option" where
  "getDataForStatus debug_build nd st = do {
     host \<leftarrow> getDaemonApiHost [0, 0, 0, 0] (configEnv nd);
     port \<leftarrow> getDaemonApiPort (configEnv nd);
     let level = getLogVerbosity debug_build (configEnv nd);
     Some (JObject
       [(str ''user_config'', userConfigJson st),
        (str ''dashboard'', case json_at (cacheJson st) (str ''get_config'') of Some v \<Rightarrow> v | None \<Rightarrow> JObject []),
        (str ''license'', case json_at (cacheJson st) (str ''license'') of Some v \<Rightarrow> v | None \<Rightarrow> JObject []),
        (str ''env'', JObject
          [(str ''instance_fqdn'', JString (getTldFqdn (configEnv nd))),
           (str ''log_verbosity'', JString (fst (hd (filter (\<lambda>(n, l). l = level) logLevelNames)))),
           (str ''hooks_enabled'', JBool (getEnableHooks (configEnv nd))),
           (str ''daemon_api_host'', JString (toString_ip host)),
           (str ''daemon_api_port'', JInt port)])])
   }"

section \<open>Threads\<close>

definition periodicStart :: "config_node \<Rightarrow> config_world \<Rightarrow> config_state \<Rightarrow> config_state option" where
  "periodicStart nd w st = do {
     (ok, st) \<leftarrow> readCache nd st;
     (ok, st) \<leftarrow> readUserConfig nd st;
     st \<leftarrow> (if ok then updateUserConfigData st else Some st);
     (ok, st) \<leftarrow> fetchLicenseJson nd w st;
     st \<leftarrow> updateLicenseData st;
     Some (snd (writeCache nd st))
   }"

definition periodicTick :: "config_node \<Rightarrow> config_world \<Rightarrow> config_state \<Rightarrow> config_state option" where
  "periodicTick nd w st = do {
     let renewLicense = (clock w \<ge> nextLicenseDownload st);
     st \<leftarrow> (if renewLicense then map_option snd (fetchLicenseJson nd w st) else Some st);
     let getConfig = (getEnableControlplane (configEnv nd) \<and> clock w \<ge> nextGetConfigUpdate st);
     st \<leftarrow> (if getConfig then fetchGetConfig nd w st else Some st);
     Some (if renewLicense \<or> getConfig then snd (writeCache nd st) else st)
   }"

text \<open>\<open>waitInit\<close> returns as soon as this holds.\<close>

definition initialised :: "config_state \<Rightarrow> bool" where
  "initialised st \<longleftrightarrow> baseAddresses st \<noteq> []"

definition userWhitelistAdd :: "config_node \<Rightarrow> ipaddress \<Rightarrow> config_state \<Rightarrow> (bool \<times> config_state) option" where
  "userWhitelistAdd nd address st =
     (if address \<in> set (userWhitelist st) then Some (False, st)
      else if length (userWhitelist st) = USER_WHITELIST_SIZE_LIMIT then Some (False, st)
      else do {
        s \<leftarrow> etl_insert USER_WHITELIST_SIZE_LIMIT address (userWhitelist st);
        Some (True, snd (writeUserConfig nd (st\<lparr>userWhitelist := s\<rparr>)))
      })"

definition userWhitelistRm :: "ipaddress \<Rightarrow> config_state \<Rightarrow> bool \<times> config_state" where
  "userWhitelistRm address st =
     (if address \<in> set (userWhitelist st) then (True, st\<lparr>userWhitelist := remove1 address (userWhitelist st)\<rparr>)
      else (False, st))"

definition triggerGetConfig :: "int \<Rightarrow> config_state \<Rightarrow> config_state" where
  "triggerGetConfig now st = st\<lparr>nextGetConfigUpdate := now\<rparr>"

section \<open>Reading off success\<close>

text \<open>What it means for an operation to succeed, one rule per combinator.\<close>

named_theorems success

lemmas [success] = bind_eq_Some_conv

lemma let_success [success]: "(let x = v in f x) = Some r \<longleftrightarrow> f v = Some r"
  by simp

lemma if_success [success]: "(if c then a else b) = Some r \<longleftrightarrow> (if c then a = Some r else b = Some r)"
  by simp

lemma map_option_success [success]: "map_option f x = Some r \<longleftrightarrow> (\<exists>y. x = Some y \<and> r = f y)"
  by (auto simp: map_option_eq_Some)

lemma fold_option_invariant:
  assumes "\<And>x s s'. x \<in> set xs \<Longrightarrow> P s \<Longrightarrow> f x s = Some s' \<Longrightarrow> P s'"
  shows "P s \<Longrightarrow> fold_option f xs s = Some s' \<Longrightarrow> P s'"
  using assms
proof (induction xs arbitrary: s)
  case (Cons x xs)
  then obtain s1 where "f x s = Some s1" "fold_option f xs s1 = Some s'" by (auto split: option.splits)
  moreover from this(1) have "P s1" using Cons.prems(1,3) by (meson list.set_intros(1))
  ultimately show ?case using Cons.IH Cons.prems(3) by (meson list.set_intros(2))
qed simp

section \<open>Ordered sets with a bound\<close>

text \<open>The interface of the sets the configuration uses: the elements in order, no more than the limit.\<close>

locale bounded_set =
  fixes limit :: nat and insert_into :: "'a::linorder \<Rightarrow> 'a list \<Rightarrow> 'a list option" and remove_from :: "'a \<Rightarrow> 'a list \<Rightarrow> 'a list"
    and ok :: "'a list \<Rightarrow> bool"
  assumes ok_Nil: "ok []"
    and ok_bounds: "ok s \<Longrightarrow> sorted s \<and> distinct s \<and> length s \<le> limit"
    and insert_room: "ok s \<Longrightarrow> length s < limit \<Longrightarrow> \<exists>s'. insert_into x s = Some s'"
    and insert_set: "ok s \<Longrightarrow> insert_into x s = Some s' \<Longrightarrow> set s' = insert x (set s)"
    and insert_ok: "ok s \<Longrightarrow> insert_into x s = Some s' \<Longrightarrow> ok s'"
    and remove_set: "ok s \<Longrightarrow> set (remove_from x s) = set s - {x}"
    and remove_ok: "ok s \<Longrightarrow> ok (remove_from x s)"
begin

lemma inserted: "ok s \<Longrightarrow> insert_into x s = Some s' \<Longrightarrow> y \<in> set s' \<longleftrightarrow> y = x \<or> y \<in> set s"
  by (simp add: insert_set)

lemma fold_insert:
  assumes "ok s" and "fold_option (\<lambda>x. insert_into (f x)) xs s = Some s'"
  shows "ok s' \<and> set s' = set s \<union> f ` set xs"
  using assms
proof (induction xs arbitrary: s)
  case (Cons x xs)
  then obtain s1 where "insert_into (f x) s = Some s1" "fold_option (\<lambda>x. insert_into (f x)) xs s1 = Some s'"
    by (auto split: option.splits)
  then show ?case using Cons.IH [of s1] insert_ok insert_set Cons.prems(1) by auto
qed simp

lemma inserted_removed: "ok s \<Longrightarrow> x \<notin> set s \<Longrightarrow> insert_into x s = Some s' \<Longrightarrow> remove_from x s' = s"
  by (rule sorted_distinct_set_unique) (use ok_bounds insert_ok insert_set remove_ok remove_set in auto)

end

definition ordered_set :: "nat \<Rightarrow> 'a::linorder list \<Rightarrow> bool" where
  "ordered_set limit s \<longleftrightarrow> sorted s \<and> distinct s \<and> length s \<le> limit"

interpretation etl: bounded_set limit "etl_insert limit" remove1 "ordered_set limit" for limit
proof (unfold_locales, goal_cases)
  case (5 s x s')
  then show ?case by (auto simp: ordered_set_def etl_insert_def sorted_insort distinct_insort split: if_splits)
next
  case (7 s x)
  then show ?case using length_remove1 [of x s] by (auto simp: ordered_set_def sorted_remove1 length_remove1)
qed (auto simp: ordered_set_def etl_insert_def set_insort_key split: if_splits)

section \<open>What each operation changes\<close>

text \<open>The address in an entry of the list of peers.\<close>

definition peer_address :: "json \<Rightarrow> ipaddress option" where
  "peer_address info = do { v \<leftarrow> json_at info (str ''address''); s \<leftarrow> get_string v; parse_address s }"

lemma parse_address_wf: "parse_address s = Some a \<Longrightarrow> ip_wf a"
  using IpAddress_parse_wf [of "[0, 0, 0, 0]" s] by simp

lemma peer_address_wf: "peer_address info = Some a \<Longrightarrow> ip_wf a"
  by (auto simp: peer_address_def success dest: parse_address_wf)

lemma addPeerInfo_frame:
  assumes "addPeerInfo info (st, h) = Some (st', h')"
  shows "\<exists>a. peer_address info = Some a \<and> etl_insert ALLOWED_PEERS_LIMIT a (allowedPeers st) = Some (allowedPeers st') \<and>
    st' = st\<lparr>allowedPeers := allowedPeers st'\<rparr>"
  using assms by (auto simp: addPeerInfo_def peer_address_def success)

lemma fold_addPeerInfo:
  assumes "fold_option addPeerInfo infos (st, h) = Some (st', h')" and "ordered_set ALLOWED_PEERS_LIMIT (allowedPeers st)"
  shows "st' = st\<lparr>allowedPeers := allowedPeers st'\<rparr> \<and> ordered_set ALLOWED_PEERS_LIMIT (allowedPeers st') \<and>
    set (allowedPeers st') = set (allowedPeers st) \<union> {a. \<exists>info \<in> set infos. peer_address info = Some a}"
  using assms
proof (induction infos arbitrary: st h)
  case (Cons info infos)
  then obtain st1 h1 where f: "addPeerInfo info (st, h) = Some (st1, h1)" "fold_option addPeerInfo infos (st1, h1) = Some (st', h')"
    by (auto split: option.splits)
  obtain a where a: "peer_address info = Some a" "etl_insert ALLOWED_PEERS_LIMIT a (allowedPeers st) = Some (allowedPeers st1)"
    "st1 = st\<lparr>allowedPeers := allowedPeers st1\<rparr>"
    using addPeerInfo_frame [OF f(1)] by blast
  have ok: "ordered_set ALLOWED_PEERS_LIMIT (allowedPeers st1)" "set (allowedPeers st1) = insert a (set (allowedPeers st))"
    using etl.insert_ok etl.insert_set a(2) Cons.prems(2) by blast+
  have rest: "st' = st1\<lparr>allowedPeers := allowedPeers st'\<rparr>" "ordered_set ALLOWED_PEERS_LIMIT (allowedPeers st')"
    "set (allowedPeers st') = set (allowedPeers st1) \<union> {a. \<exists>info \<in> set infos. peer_address info = Some a}"
    using Cons.IH [OF f(2) ok(1)] by blast+
  have "st' = st\<lparr>allowedPeers := allowedPeers st'\<rparr>" using rest(1) a(3) by (metis config_state.update_convs(7) config_state.surjective)
  then show ?case using rest ok(2) a(1) by auto
qed simp

text \<open>The part of the state that only the start and the user's own operations change.\<close>

definition same_servers :: "config_state \<Rightarrow> config_state \<Rightarrow> bool" where
  "same_servers st st' \<longleftrightarrow>
     baseAddresses st' = baseAddresses st \<and> apiAddresses st' = apiAddresses st \<and> ebAddresses st' = ebAddresses st \<and>
     userWhitelist st' = userWhitelist st \<and> userConfigJson st' = userConfigJson st \<and> allowEveryone st' = allowEveryone st"

lemma same_servers_refl [simp]: "same_servers st st"
  by (simp add: same_servers_def)

lemma same_servers_trans: "same_servers a b \<Longrightarrow> same_servers b c \<Longrightarrow> same_servers a c"
  by (simp add: same_servers_def)

lemma updateClaim_frame:
  "updateClaim nd j st = Some st' \<Longrightarrow>
   same_servers st st' \<and> allowedPeers st' = allowedPeers st \<and> cacheJson st' = cacheJson st \<and> hooks st' = hooks st \<and>
   (\<not> claimed st' \<longrightarrow> claimedBy st' = [])"
  by (auto simp: updateClaim_def success same_servers_def split: if_splits)

lemma claimHooks_frame:
  "same_servers st (claimHooks owner st)" "allowedPeers (claimHooks owner st) = allowedPeers st"
  "cacheJson (claimHooks owner st) = cacheJson st" "claimed (claimHooks owner st) = claimed st"
  "claimedBy (claimHooks owner st) = claimedBy st"
  by (simp_all add: claimHooks_def same_servers_def Let_def)

lemma ordered_set_Nil [simp]: "ordered_set limit []"
  by (rule etl.ok_Nil)

text \<open>The hook for a change of ownership.\<close>

definition owner_hooks :: "bytes \<Rightarrow> bytes \<Rightarrow> HooksManager \<Rightarrow> HooksManager" where
  "owner_hooks before after hm =
     (if before = [] \<and> after \<noteq> [] then scheduleHook claimed_hook hm
      else if before \<noteq> [] \<and> after = [] then scheduleHook unclaimed_hook hm else hm)"

lemma claimHooks_hooks: "hooks (claimHooks owner st) = owner_hooks owner (claimedBy st) (hooks st)"
  by (auto simp: claimHooks_def owner_hooks_def Let_def)

lemma updateGetConfigData_peers:
  assumes u: "updateGetConfigData nd st = Some st'" and c: "json_at (cacheJson st) (str ''get_config'') = Some latest"
    and p: "json_at latest (str ''peers'') = Some (JArray infos)"
  shows "same_servers st st' \<and> cacheJson st' = cacheJson st \<and> ordered_set ALLOWED_PEERS_LIMIT (allowedPeers st') \<and>
    set (allowedPeers st') = {a. \<exists>info \<in> set infos. peer_address info = Some a} \<and>
    hooks st' = owner_hooks (claimedBy st) (claimedBy st') (hooks st) \<and> (\<not> claimed st' \<longrightarrow> claimedBy st' = [])"
proof -
  have r: "json_ref (cacheJson st) (str ''get_config'') = Some (latest, cacheJson st)" using c by (simp add: json_ref_def)
  obtain st1 st2 h d where s: "updateClaim nd latest (st\<lparr>allowedPeers := []\<rparr>) = Some st1"
    "fold_option addPeerInfo infos (claimHooks (claimedBy st) st1, []) = Some (st2, h)" "st' = st2\<lparr>fs := d\<rparr>"
    using u r p by (auto simp: updateGetConfigData_def success)
  note f1 = updateClaim_frame [OF s(1)]
  let ?st1 = "claimHooks (claimedBy st) st1"
  have ok: "ordered_set ALLOWED_PEERS_LIMIT (allowedPeers ?st1)" using f1 by (simp add: claimHooks_frame)
  note f2 = fold_addPeerInfo [OF s(2) ok]
  have eq: "st2 = ?st1\<lparr>allowedPeers := allowedPeers st2\<rparr>" using f2 by blast
  have fields: "same_servers ?st1 st2" "cacheJson st2 = cacheJson ?st1" "hooks st2 = hooks ?st1" "claimed st2 = claimed ?st1"
    "claimedBy st2 = claimedBy ?st1"
    by (subst eq, simp add: same_servers_def)+
  show ?thesis
    using f1 f2 fields s(3) claimHooks_frame [where st = st1 and owner = "claimedBy st"] claimHooks_hooks [of "claimedBy st" st1]
    by (simp add: same_servers_def)
qed

lemma updateGetConfigData_other:
  assumes u: "updateGetConfigData nd st = Some st'" and c: "json_ref (cacheJson st) (str ''get_config'') = Some (latest, cache)"
    and p: "\<And>infos. json_at latest (str ''peers'') \<noteq> Some (JArray infos)"
  shows "\<exists>d. st' = st\<lparr>cacheJson := cache, fs := d\<rparr>"
  using u c p by (fastforce simp: updateGetConfigData_def success split: option.splits json.splits)

text \<open>Everything the thread of the configuration manager relies on.\<close>

definition cm_inv :: "config_node \<Rightarrow> config_state \<Rightarrow> bool" where
  "cm_inv nd st \<longleftrightarrow>
     is_object (userConfigJson st) \<and> is_object (cacheJson st) \<and>
     ordered_set ALLOWED_PEERS_LIMIT (allowedPeers st) \<and> ordered_set USER_WHITELIST_SIZE_LIMIT (userWhitelist st) \<and>
     length (baseAddresses st) \<le> BASE_ADDRESSES_LIMIT \<and> length (apiAddresses st) \<le> DASHBOARD_API_ADDRESSES_LIMIT \<and>
     length (ebAddresses st) \<le> EVENTBUS_ADDRESSES_LIMIT \<and>
     (allowEveryone st \<longleftrightarrow> \<not> getEnableControlplane (configEnv nd)) \<and> (\<forall>a \<in> set (allowedPeers st). ip_wf a) \<and>
     (\<not> claimed st \<longrightarrow> claimedBy st = [])"

lemma cm_inv_disk [simp]: "cm_inv nd (st\<lparr>fs := d\<rparr>) = cm_inv nd st" "cm_inv nd (st\<lparr>nextLicenseDownload := t\<rparr>) = cm_inv nd st"
  "cm_inv nd (st\<lparr>nextGetConfigUpdate := t\<rparr>) = cm_inv nd st" "cm_inv nd (st\<lparr>hooks := h\<rparr>) = cm_inv nd st"
  by (simp_all add: cm_inv_def)

lemma cm_inv_cache: "cm_inv nd st \<Longrightarrow> is_object j \<Longrightarrow> cm_inv nd (st\<lparr>cacheJson := j\<rparr>)"
  by (simp add: cm_inv_def)

lemma json_set_is_object: "json_set j k v = Some j' \<Longrightarrow> is_object j'"
  by (cases j) auto

lemma json_ref_is_object: "json_ref j k = Some (v, j') \<Longrightarrow> is_object j \<Longrightarrow> is_object j'"
  using json_ref_object [of j k] by auto

lemma cm_inv_storeLicense: "storeLicense j st = Some st' \<Longrightarrow> cm_inv nd st \<Longrightarrow> cm_inv nd st'"
  by (auto simp: storeLicense_def success intro!: cm_inv_cache json_set_is_object)

lemma cm_inv_storeGetConfig: "storeGetConfig j st = Some st' \<Longrightarrow> cm_inv nd st \<Longrightarrow> cm_inv nd st'"
  by (auto simp: storeGetConfig_def success intro!: cm_inv_cache json_set_is_object)

lemma cm_inv_fetchLicenseJson: "fetchLicenseJson nd w st = Some (b, st') \<Longrightarrow> cm_inv nd st \<Longrightarrow> cm_inv nd st'"
  by (auto simp: fetchLicenseJson_def success cm_inv_storeLicense split: if_splits)

lemma cm_inv_updateGetConfigData:
  assumes u: "updateGetConfigData nd st = Some st'" and inv: "cm_inv nd st"
  shows "cm_inv nd st'"
proof -
  obtain latest cache where r: "json_ref (cacheJson st) (str ''get_config'') = Some (latest, cache)"
    using json_ref_object [of "cacheJson st"] inv unfolding cm_inv_def by blast
  show ?thesis
  proof (cases "\<exists>infos. json_at latest (str ''peers'') = Some (JArray infos)")
    case True
    then obtain infos where p: "json_at latest (str ''peers'') = Some (JArray infos)" by blast
    then have "json_at (cacheJson st) (str ''get_config'') = Some latest"
      using r by (auto simp: json_ref_def success split: option.splits)
    from updateGetConfigData_peers [OF u this p] inv show ?thesis by (auto simp: cm_inv_def same_servers_def dest: peer_address_wf)
  next
    case False
    then obtain d where "st' = st\<lparr>cacheJson := cache, fs := d\<rparr>" using updateGetConfigData_other [OF u r] by blast
    then show ?thesis using inv json_ref_is_object [OF r] by (simp add: cm_inv_def)
  qed
qed

lemma cm_inv_fetchGetConfig: "fetchGetConfig nd w st = Some st' \<Longrightarrow> cm_inv nd st \<Longrightarrow> cm_inv nd st'"
  by (auto simp: fetchGetConfig_def success split: if_splits
      dest: cm_inv_storeGetConfig cm_inv_updateGetConfigData)

lemma cm_inv_writes: "cm_inv nd st \<Longrightarrow> cm_inv nd (snd (writeCache nd st))" "cm_inv nd st \<Longrightarrow> cm_inv nd (snd (writeUserConfig nd st))"
  by (auto simp: writeCache_def writeUserConfig_def split: prod.splits)

lemma cm_inv_tick: "periodicTick nd w st = Some st' \<Longrightarrow> cm_inv nd st \<Longrightarrow> cm_inv nd st'"
  by (auto simp: periodicTick_def success Let_def split: if_splits
      intro!: cm_inv_writes(1) dest: cm_inv_fetchLicenseJson cm_inv_fetchGetConfig)

lemma cm_inv_whitelist: "cm_inv nd st \<Longrightarrow> ordered_set USER_WHITELIST_SIZE_LIMIT s \<Longrightarrow> cm_inv nd (st\<lparr>userWhitelist := s\<rparr>)"
  by (simp add: cm_inv_def)

lemma cm_inv_whitelistD: "cm_inv nd st \<Longrightarrow> ordered_set USER_WHITELIST_SIZE_LIMIT (userWhitelist st)"
  by (simp add: cm_inv_def)

lemma cm_inv_addWhitelistEntry: "addWhitelistEntry e st = Some st' \<Longrightarrow> cm_inv nd st \<Longrightarrow> cm_inv nd st'"
  by (auto simp: addWhitelistEntry_def success split: if_splits intro!: cm_inv_whitelist intro: etl.insert_ok dest: cm_inv_whitelistD)

lemma cm_inv_updateUserConfigData:
  assumes "updateUserConfigData st = Some st'" and "cm_inv nd st"
  shows "cm_inv nd st'"
proof -
  have "cm_inv nd (st\<lparr>userWhitelist := []\<rparr>)" using assms(2) by (intro cm_inv_whitelist) simp_all
  moreover have "fold_option addWhitelistEntry xs st0 = Some st1 \<Longrightarrow> cm_inv nd st0 \<Longrightarrow> cm_inv nd st1" for xs st0 st1
    using fold_option_invariant [of xs "cm_inv nd" addWhitelistEntry st0 st1] cm_inv_addWhitelistEntry by blast
  ultimately show ?thesis
    using assms by (auto simp: updateUserConfigData_def success split: option.splits json.splits)
qed

lemma cm_inv_addServer:
  "addEbServer e st = Some st' \<Longrightarrow> cm_inv nd st \<Longrightarrow> cm_inv nd st'"
  "addApiServer e st = Some st' \<Longrightarrow> cm_inv nd st \<Longrightarrow> cm_inv nd st'"
  "addBaseServer e st = Some st' \<Longrightarrow> cm_inv nd st \<Longrightarrow> cm_inv nd st'"
  using etl.insert_ok [of ALLOWED_PEERS_LIMIT "allowedPeers st"] etl.insert_set [of ALLOWED_PEERS_LIMIT "allowedPeers st"]
  by (auto simp: addEbServer_def addApiServer_def addBaseServer_def etl_push_back_def success cm_inv_def split: if_splits
      dest: parse_address_wf)

lemma cm_inv_fold_addServer:
  "fold_option addEbServer xs st = Some st' \<Longrightarrow> cm_inv nd st \<Longrightarrow> cm_inv nd st'"
  "fold_option addApiServer xs st = Some st' \<Longrightarrow> cm_inv nd st \<Longrightarrow> cm_inv nd st'"
  "fold_option addBaseServer xs st = Some st' \<Longrightarrow> cm_inv nd st \<Longrightarrow> cm_inv nd st'"
  by (metis cm_inv_addServer fold_option_invariant [of xs "cm_inv nd"])+

lemma cm_inv_clear:
  "cm_inv nd st \<Longrightarrow> cm_inv nd (st\<lparr>ebAddresses := []\<rparr>)" "cm_inv nd st \<Longrightarrow> cm_inv nd (st\<lparr>apiAddresses := []\<rparr>)"
  "cm_inv nd st \<Longrightarrow> cm_inv nd (st\<lparr>baseAddresses := []\<rparr>)"
  by (simp_all add: cm_inv_def)

lemma cm_inv_updateLicenseData:
  assumes "updateLicenseData st = Some st'" and inv: "cm_inv nd st"
  shows "cm_inv nd st'"
proof -
  obtain v cache where r: "json_ref (cacheJson st) (str ''license'') = Some (v, cache)"
    using assms(1) by (auto simp: updateLicenseData_def success)
  let ?st = "st\<lparr>cacheJson := cache\<rparr>"
  have c: "cm_inv nd ?st" using inv json_ref_is_object [OF r] by (simp add: cm_inv_def)
  show ?thesis
  proof (cases "v = JDiscarded \<or> v = JNull")
    case True
    then show ?thesis using assms(1) r c by (auto simp: updateLicenseData_def success)
  next
    case False
    then obtain eb api base st1 st2 where "fold_option addEbServer eb (?st\<lparr>ebAddresses := []\<rparr>) = Some st1"
      "fold_option addApiServer api (st1\<lparr>apiAddresses := []\<rparr>) = Some st2"
      "fold_option addBaseServer base (st2\<lparr>baseAddresses := []\<rparr>) = Some st'"
      using assms(1) r by (auto simp: updateLicenseData_def success)
    then show ?thesis using c cm_inv_clear cm_inv_fold_addServer by meson
  qed
qed

lemma cm_inv_storeCacheEntry: "storeCacheEntry k j st = Some st' \<Longrightarrow> cm_inv nd st \<Longrightarrow> cm_inv nd st'"
  by (auto simp: storeCacheEntry_def success split: option.splits json.splits intro!: cm_inv_cache json_set_is_object)

lemma cm_inv_storeCache: "storeCache j st = Some st' \<Longrightarrow> cm_inv nd st \<Longrightarrow> cm_inv nd st'"
  by (auto simp: storeCache_def success dest: cm_inv_storeCacheEntry)

lemma cm_inv_readCache: "readCache nd st = Some (b, st') \<Longrightarrow> cm_inv nd st \<Longrightarrow> cm_inv nd st'"
  by (auto simp: readCache_def success Let_def split: if_splits dest: cm_inv_storeCache)

lemma cm_inv_storeUserConfig: "storeUserConfig j st = Some st' \<Longrightarrow> cm_inv nd st \<Longrightarrow> cm_inv nd st'"
  by (auto simp: storeUserConfig_def success cm_inv_def dest: json_set_is_object split: option.splits json.splits)

lemma cm_inv_readUserConfig: "readUserConfig nd st = Some (b, st') \<Longrightarrow> cm_inv nd st \<Longrightarrow> cm_inv nd st'"
  by (auto simp: readUserConfig_def success Let_def split: if_splits dest: cm_inv_storeUserConfig)

lemma cm_inv_init: "cm_inv nd (ConfigManager_init nd t hm d)"
  by (simp add: cm_inv_def ConfigManager_init_def)

lemma cm_inv_start: "periodicStart nd w st = Some st' \<Longrightarrow> cm_inv nd st \<Longrightarrow> cm_inv nd st'"
  by (auto simp: periodicStart_def success split: if_splits intro!: cm_inv_writes(1)
      dest!: cm_inv_readCache [where nd = nd] cm_inv_readUserConfig [where nd = nd] cm_inv_updateUserConfigData [where nd = nd]
        cm_inv_fetchLicenseJson [where nd = nd] cm_inv_updateLicenseData [where nd = nd])

lemma cm_inv_userWhitelistAdd: "userWhitelistAdd nd a st = Some (b, st') \<Longrightarrow> cm_inv nd st \<Longrightarrow> cm_inv nd st'"
  by (auto simp: userWhitelistAdd_def success split: if_splits
      intro!: cm_inv_writes(2) cm_inv_whitelist intro: etl.insert_ok dest: cm_inv_whitelistD)

lemma cm_inv_userWhitelistRm: "cm_inv nd st \<Longrightarrow> cm_inv nd (snd (userWhitelistRm a st))"
  by (auto simp: userWhitelistRm_def intro!: cm_inv_whitelist intro: etl.remove_ok dest: cm_inv_whitelistD)

section \<open>Runs\<close>

text \<open>After the start: rounds of the thread, the user's operations on the whitelist, a request of the
  control plane for an early update, and rounds of the hooks thread.\<close>

inductive cm_step :: "config_node \<Rightarrow> config_state \<Rightarrow> config_state \<Rightarrow> bool" for nd where
  cm_tick: "periodicTick nd w st = Some st' \<Longrightarrow> cm_step nd st st'"
| cm_add: "userWhitelistAdd nd a st = Some (b, st') \<Longrightarrow> cm_step nd st st'"
| cm_rm: "cm_step nd st (snd (userWhitelistRm a st))"
| cm_trigger: "cm_step nd st (triggerGetConfig t st)"
| cm_hooks: "cm_step nd st (st\<lparr>hooks := snd (hooksPeriodic (hooks st))\<rparr>)"

inductive cm_run :: "config_node \<Rightarrow> config_state \<Rightarrow> config_state \<Rightarrow> bool" for nd where
  cm_refl: "cm_run nd st st"
| cm_more: "cm_run nd st st1 \<Longrightarrow> cm_step nd st1 st2 \<Longrightarrow> cm_run nd st st2"

definition cm_reachable :: "config_node \<Rightarrow> config_state \<Rightarrow> bool" where
  "cm_reachable nd st \<longleftrightarrow>
     (\<exists>w t hm d st0. periodicStart nd w (ConfigManager_init nd t hm d) = Some st0 \<and> cm_run nd st0 st)"

lemma cm_inv_step: "cm_step nd st st' \<Longrightarrow> cm_inv nd st \<Longrightarrow> cm_inv nd st'"
  by (induction rule: cm_step.induct)
    (auto simp: triggerGetConfig_def intro: cm_inv_tick cm_inv_userWhitelistAdd cm_inv_userWhitelistRm)

lemma cm_inv_run: "cm_run nd st st' \<Longrightarrow> cm_inv nd st \<Longrightarrow> cm_inv nd st'"
  by (induction rule: cm_run.induct) (auto intro: cm_inv_step)

lemma cm_reachable_inv: "cm_reachable nd st \<Longrightarrow> cm_inv nd st"
  using cm_inv_run cm_inv_start cm_inv_init by (fastforce simp: cm_reachable_def)

section \<open>The servers\<close>

definition servers :: "config_state \<Rightarrow> ipaddress list \<times> ipaddress list \<times> ipaddress list" where
  "servers st = (baseAddresses st, apiAddresses st, ebAddresses st)"

lemma same_servers_servers: "same_servers st st' \<Longrightarrow> servers st' = servers st"
  by (simp add: same_servers_def servers_def)

lemma servers_update [simp]:
  "servers (st\<lparr>fs := d\<rparr>) = servers st" "servers (st\<lparr>cacheJson := j\<rparr>) = servers st" "servers (st\<lparr>userWhitelist := x\<rparr>) = servers st"
  "servers (st\<lparr>nextLicenseDownload := t\<rparr>) = servers st" "servers (st\<lparr>nextGetConfigUpdate := t\<rparr>) = servers st"
  "servers (st\<lparr>hooks := h\<rparr>) = servers st"
  by (simp_all add: servers_def)

lemma servers_writes [simp]: "servers (snd (writeCache nd st)) = servers st" "servers (snd (writeUserConfig nd st)) = servers st"
  by (simp_all add: writeCache_def writeUserConfig_def split: prod.splits)

lemma servers_fetchLicenseJson: "fetchLicenseJson nd w st = Some (b, st') \<Longrightarrow> servers st' = servers st"
  by (auto simp: fetchLicenseJson_def storeLicense_def success split: if_splits)

lemma servers_updateGetConfigData:
  assumes u: "updateGetConfigData nd st = Some st'"
  shows "servers st' = servers st"
proof -
  obtain latest cache where r: "json_ref (cacheJson st) (str ''get_config'') = Some (latest, cache)"
    using u by (auto simp: updateGetConfigData_def success)
  show ?thesis
  proof (cases "\<exists>infos. json_at latest (str ''peers'') = Some (JArray infos)")
    case True
    then obtain infos where p: "json_at latest (str ''peers'') = Some (JArray infos)" by blast
    then have "json_at (cacheJson st) (str ''get_config'') = Some latest"
      using r by (auto simp: json_ref_def success split: option.splits)
    from updateGetConfigData_peers [OF u this p] show ?thesis by (simp add: same_servers_servers)
  next
    case False
    then obtain d where "st' = st\<lparr>cacheJson := cache, fs := d\<rparr>" using updateGetConfigData_other [OF u r] by blast
    then show ?thesis by simp
  qed
qed

lemma servers_fetchGetConfig: "fetchGetConfig nd w st = Some st' \<Longrightarrow> servers st' = servers st"
  by (auto simp: fetchGetConfig_def storeGetConfig_def success split: if_splits dest!: servers_updateGetConfigData)

lemma servers_tick: "periodicTick nd w st = Some st' \<Longrightarrow> servers st' = servers st"
  by (auto simp: periodicTick_def success Let_def split: if_splits dest!: servers_fetchLicenseJson servers_fetchGetConfig)

lemma servers_step: "cm_step nd st st' \<Longrightarrow> servers st' = servers st"
  by (induction rule: cm_step.induct)
    (auto simp: userWhitelistAdd_def userWhitelistRm_def triggerGetConfig_def success split: if_splits dest: servers_tick)

lemma servers_run: "cm_run nd st st' \<Longrightarrow> servers st' = servers st"
  by (induction rule: cm_run.induct) (auto dest: servers_step)

text \<open>What the start computes from the license depends on nothing else.\<close>

definition license_view :: "config_state \<Rightarrow> config_state \<Rightarrow> bool" where
  "license_view st st' \<longleftrightarrow> servers st = servers st' \<and> allowedPeers st = allowedPeers st'"

lemma fold_option_rel:
  assumes "\<And>x s s'. R s s' \<Longrightarrow> rel_option R (f x s) (f x s')"
  shows "R s s' \<Longrightarrow> rel_option R (fold_option f xs s) (fold_option f xs s')"
proof (induction xs arbitrary: s s')
  case (Cons x xs)
  have "rel_option R (f x s) (f x s')" using assms Cons.prems .
  then show ?case using Cons.IH by (cases rule: option.rel_cases) auto
qed simp

lemma addServer_view:
  assumes "license_view st st'"
  shows "rel_option license_view (addEbServer x st) (addEbServer x st')" "rel_option license_view (addApiServer x st) (addApiServer x st')"
    "rel_option license_view (addBaseServer x st) (addBaseServer x st')"
  using assms by (auto simp: addEbServer_def addApiServer_def addBaseServer_def license_view_def servers_def split: Option.bind_splits)

lemma fold_addServer_view:
  assumes "license_view st st'"
  shows "rel_option license_view (fold_option addEbServer xs st) (fold_option addEbServer xs st')"
    "rel_option license_view (fold_option addApiServer xs st) (fold_option addApiServer xs st')"
    "rel_option license_view (fold_option addBaseServer xs st) (fold_option addBaseServer xs st')"
  using assms by (auto intro!: fold_option_rel addServer_view)

lemma bind_rel: "rel_option R x y \<Longrightarrow> (\<And>a b. R a b \<Longrightarrow> rel_option S (f a) (g b)) \<Longrightarrow> rel_option S (Option.bind x f) (Option.bind y g)"
  by (cases x; cases y) auto

lemma updateLicenseData_view:
  assumes "license_view st st'" and "json_at (cacheJson st) (str ''license'') = Some L" and "json_at (cacheJson st') (str ''license'') = Some L"
  shows "rel_option license_view (updateLicenseData st) (updateLicenseData st')"
proof -
  have r: "json_ref (cacheJson st) (str ''license'') = Some (L, cacheJson st)" "json_ref (cacheJson st') (str ''license'') = Some (L, cacheJson st')"
    using assms(2,3) by (simp_all add: json_ref_def)
  have self: "st\<lparr>cacheJson := cacheJson st\<rparr> = st" "st'\<lparr>cacheJson := cacheJson st'\<rparr> = st'" by simp_all
  have clear: "license_view (a\<lparr>ebAddresses := []\<rparr>) (b\<lparr>ebAddresses := []\<rparr>)" "license_view (a\<lparr>apiAddresses := []\<rparr>) (b\<lparr>apiAddresses := []\<rparr>)"
    "license_view (a\<lparr>baseAddresses := []\<rparr>) (b\<lparr>baseAddresses := []\<rparr>)" if "license_view a b" for a b
    using that by (simp_all add: license_view_def servers_def)
  show ?thesis
    using assms(1) unfolding updateLicenseData_def r bind.bind_lunit prod.case Let_def self
    by (auto intro!: bind_rel [of "(=)"] bind_rel [of license_view] fold_addServer_view clear simp: option.rel_eq)
qed

text \<open>The multicast destinations always fit.\<close>

lemma fold_push_back:
  "length v + length xs \<le> limit \<Longrightarrow> fold_option (etl_push_back limit) xs v = Some (v @ xs)"
  by (induction xs arbitrary: v) (simp_all add: etl_push_back_def)

lemma getMulticastDestinations_all:
  "ordered_set ALLOWED_PEERS_LIMIT (allowedPeers st) \<Longrightarrow> getMulticastDestinations st g = Some (allowedPeers st)"
  using fold_push_back [of "[]" "allowedPeers st"]
  by (simp add: getMulticastDestinations_def ordered_set_def ALLOWED_PEERS_LIMIT_def MULTICAST_DESTINATIONS_LIMIT_def)

end
