(* ===== verification/ConfigProps.thy ===== *)
theory ConfigProps
  imports ConfigManager
begin

text \<open>
  The properties of the configuration manager, with a node that has a cached license for the
  witnesses.
\<close>

section \<open>A concrete node\<close>

definition toy_cached :: json where
  "toy_cached = JObject [(str ''license'', JObject [(str ''eb_servers'', JArray [JString (str ''fc94::2'')]),
     (str ''api_servers'', JArray [JString (str ''fc94::1'')]), (str ''base_server_addresses'', JArray [JString (str ''9.9.9.9'')])])]"

definition toy_config_answer :: json where
  "toy_config_answer = JObject [(str ''type'', JString (str ''success'')),
     (str ''payload'', JObject [(str ''is_claimed'', JBool False),
       (str ''peers'', JArray [JObject [(str ''address'', JString (str ''fc94::3'')), (str ''hostname'', JString (str ''h'')),
         (str ''aliases'', JArray [])]])])]"

definition toy_config :: config_node where
  "toy_config =
     \<lparr>json_parse = (\<lambda>d. if d = [1] then toy_license [str ''9.9.9.9''] [str ''fc94::1''] [str ''fc94::2'']
        else if d = [2] then toy_config_answer else if d = [3] then toy_cached else JObject []),
      json_dump = (\<lambda>j. if j = JObject [] then str ''{}'' else [3]), cm_crypto = toy_crypto, configEnv = (\<lambda>_. None),
      ourIp = IpAddress_default, cm_hostid = 0, hostname_command_ok = True\<rparr>"

definition cachePath :: path where
  "cachePath = configDir @ storageMap Key_cache"

definition configPath :: path where
  "configPath = configDir @ storageMap Key_config"

definition toy_disk :: "bytes option \<Rightarrow> filesystem" where
  "toy_disk cache = \<lparr>files = (\<lambda>p. if p = cachePath then cache else None), readable = (\<lambda>_. True), writable = (\<lambda>_. True)\<rparr>"

definition toy_config_world :: "int \<Rightarrow> config_world" where
  "toy_config_world t = \<lparr>clock = t, license_answer = (0, []), api_answer = (200, [2])\<rparr>"

definition toy_config_state :: "bytes option \<Rightarrow> config_state" where
  "toy_config_state cache = the (periodicStart toy_config (toy_config_world 0)
     (ConfigManager_init toy_config 0 (HooksManager_init False) (toy_disk cache)))"

lemma toy_config_start:
  "periodicStart toy_config (toy_config_world 0) (ConfigManager_init toy_config 0 (HooksManager_init False) (toy_disk (Some [3]))) \<noteq> None"
  "periodicStart toy_config (toy_config_world 0) (ConfigManager_init toy_config 0 (HooksManager_init False) (toy_disk None)) \<noteq> None"
  by code_simp+

lemma toy_config_reachable: "cm_reachable toy_config (toy_config_state (Some [3]))" "cm_reachable toy_config (toy_config_state None)"
  using toy_config_start cm_refl unfolding cm_reachable_def toy_config_state_def by (metis option.exhaust_sel)+

section \<open>Properties\<close>

text \<open>C23: A successful answer of the control plane replaces the list of peers.  Afterwards a peer
  is allowed exactly if access control is off, or it is an API or event bus server, or it is on
  the user's whitelist, or the answer names its address; multicast goes to exactly the peers named.\<close>

theorem get_config_replaces_peers:
  assumes "cm_reachable nd st" and "fetchGetConfig nd w st = Some st'" and "api_answer w = (200, body)"
    and "json_at (json_parse nd body) (str ''type'') = Some (JString (str ''success''))"
    and "json_at (json_parse nd body) (str ''payload'') = Some payload"
    and peers: "json_at payload (str ''peers'') = Some (JArray infos)"
  shows "(cm_isPeerAllowed st' a \<longleftrightarrow> \<not> getEnableControlplane (configEnv nd) \<or> a \<in> set (apiAddresses st) \<or> a \<in> set (ebAddresses st) \<or>
      a \<in> set (userWhitelist st) \<or> (\<exists>info \<in> set infos. peer_address info = Some a)) \<and>
    (\<exists>dests. getMulticastDestinations st' g = Some dests \<and> set dests = {i. \<exists>info \<in> set infos. peer_address info = Some i})"
proof -
  have inv: "cm_inv nd st" by (rule cm_reachable_inv [OF assms(1)])
  obtain st1 st2 where s: "storeGetConfig payload st = Some st1" "updateGetConfigData nd st1 = Some st2"
    "st' = st2\<lparr>nextGetConfigUpdate := clock w + getConfigRefreshPeriod\<rparr>"
    using assms(2-5) by (auto simp: fetchGetConfig_def Response_def isSuccessful_def getPayloadJson_def json_ref_def success
        split: if_splits)
  have st1: "same_servers st st1" "json_at (cacheJson st1) (str ''get_config'') = Some payload"
    using s(1) by (auto simp: storeGetConfig_def success same_servers_def json_at_set)
  note f = updateGetConfigData_peers [OF s(2) st1(2) peers]
  have same: "same_servers st st2" using f st1(1) same_servers_trans by blast
  have ap: "allowedPeers st' = allowedPeers st2" "ordered_set ALLOWED_PEERS_LIMIT (allowedPeers st2)"
    "set (allowedPeers st2) = {i. \<exists>info \<in> set infos. peer_address info = Some i}" using f s(3) by simp_all
  have "getMulticastDestinations st' g = Some (allowedPeers st2)"
    using getMulticastDestinations_all ap(1,2) by simp
  moreover have "cm_isPeerAllowed st' a \<longleftrightarrow> allowEveryone st \<or> a \<in> set (apiAddresses st) \<or> a \<in> set (ebAddresses st) \<or>
      a \<in> set (userWhitelist st) \<or> a \<in> set (allowedPeers st2)"
    using same s(3) by (auto simp: cm_isPeerAllowed_def same_servers_def list_ex_iff)
  ultimately show ?thesis using ap(3) inv by (auto simp: cm_inv_def)
qed

lemma toy_get_config: "fetchGetConfig toy_config (toy_config_world 0) (toy_config_state (Some [3])) \<noteq> None"
  by code_simp

theorem get_config_replaces_peers_witness:
  "\<exists>st' info. fetchGetConfig toy_config (toy_config_world 0) (toy_config_state (Some [3])) = Some st' \<and>
     (\<forall>a. cm_isPeerAllowed st' a \<longleftrightarrow> \<not> getEnableControlplane (configEnv toy_config) \<or>
        a \<in> set (apiAddresses (toy_config_state (Some [3]))) \<or> a \<in> set (ebAddresses (toy_config_state (Some [3]))) \<or>
        a \<in> set (userWhitelist (toy_config_state (Some [3]))) \<or> peer_address info = Some a)"
proof -
  let ?st = "toy_config_state (Some [3])" and ?w = "toy_config_world 0"
  let ?info = "JObject [(str ''address'', JString (str ''fc94::3'')), (str ''hostname'', JString (str ''h'')), (str ''aliases'', JArray [])]"
  let ?payload = "JObject [(str ''is_claimed'', JBool False), (str ''peers'', JArray [?info])]"
  obtain st' where f: "fetchGetConfig toy_config ?w ?st = Some st'" using toy_get_config by blast
  have p: "json_parse toy_config [2] = toy_config_answer" by (simp add: toy_config_def)
  have w: "api_answer ?w = (200, [2])" by (simp add: toy_config_world_def)
  have "json_at (json_parse toy_config [2]) (str ''type'') = Some (JString (str ''success''))"
    "json_at (json_parse toy_config [2]) (str ''payload'') = Some ?payload" "json_at ?payload (str ''peers'') = Some (JArray [?info])"
    unfolding p by (simp_all add: toy_config_answer_def)
  from get_config_replaces_peers [OF toy_config_reachable(1) f w this] f show ?thesis by auto
qed

text \<open>C24: In every state the configuration manager reaches, the sets are ordered without
  repetition, all containers are within their limits, every allowed peer is an address of 16
  bytes, access control is off exactly if the control plane is disabled, an unclaimed device has
  no owner, and the multicast destinations are exactly the allowed peers.\<close>

theorem config_invariant:
  assumes "cm_reachable nd st"
  shows "sorted (allowedPeers st) \<and> distinct (allowedPeers st) \<and> length (allowedPeers st) \<le> 128 \<and>
    sorted (userWhitelist st) \<and> distinct (userWhitelist st) \<and> length (userWhitelist st) \<le> 8 \<and>
    length (baseAddresses st) \<le> 16 \<and> length (apiAddresses st) \<le> 16 \<and> length (ebAddresses st) \<le> 16 \<and>
    (\<forall>i \<in> set (allowedPeers st). ip_wf i) \<and> (allowEveryone st \<longleftrightarrow> \<not> getEnableControlplane (configEnv nd)) \<and>
    (\<not> claimed st \<longrightarrow> claimedBy st = []) \<and> getMulticastDestinations st g = Some (allowedPeers st)"
  using cm_reachable_inv [OF assms] getMulticastDestinations_all [of st g]
  by (simp add: cm_inv_def ordered_set_def ALLOWED_PEERS_LIMIT_def USER_WHITELIST_SIZE_LIMIT_def BASE_ADDRESSES_LIMIT_def
      DASHBOARD_API_ADDRESSES_LIMIT_def EVENTBUS_ADDRESSES_LIMIT_def)

theorem config_invariant_witness:
  "getMulticastDestinations (toy_config_state (Some [3])) IpAddress_default = Some (allowedPeers (toy_config_state (Some [3])))"
  using config_invariant [OF toy_config_reachable(1)] by blast

text \<open>C25: The base, API and event bus servers are those the license gave at the start: no later
  step changes them, not even one that downloads a valid license.  A node that starts without
  any license therefore never has a base server, and \<open>waitInit\<close> never returns.\<close>

theorem license_fixed_at_start:
  assumes "cm_run nd st st'"
  shows "baseAddresses st' = baseAddresses st \<and> apiAddresses st' = apiAddresses st \<and> ebAddresses st' = ebAddresses st \<and>
    (initialised st' \<longleftrightarrow> initialised st)"
  using servers_run [OF assms] by (auto simp: servers_def initialised_def)

lemma toy_no_license: "baseAddresses (toy_config_state None) = []" "nextLicenseDownload (toy_config_state None) = 0"
  "nextGetConfigUpdate (toy_config_state None) = 5000" "is_object (cacheJson (toy_config_state None))"
  by code_simp+

theorem license_fixed_at_start_witness:
  "\<exists>st'. cm_run toy_config (toy_config_state None) st' \<and>
     json_at (cacheJson st') (str ''license'') = Some (toy_license [str ''9.9.9.9''] [str ''fc94::1''] [str ''fc94::2'']) \<and>
     \<not> initialised st'"
proof -
  let ?w = "\<lparr>clock = 0, license_answer = (200, [1]), api_answer = (0, [])\<rparr>"
  let ?L = "toy_license [str ''9.9.9.9''] [str ''fc94::1''] [str ''fc94::2'']"
  obtain j where j: "json_set (cacheJson (toy_config_state None)) (str ''license'') ?L = Some j"
    using json_set_object [OF toy_no_license(4)] by blast
  have "isLicenseValid (cm_crypto toy_config) ?L = Some True" "json_parse toy_config [1] = ?L"
    using toy_license_valid by (simp_all add: toy_config_def)
  then have "periodicTick toy_config ?w (toy_config_state None) = Some (snd (writeCache toy_config
      (toy_config_state None\<lparr>cacheJson := j, nextLicenseDownload := licenseRefreshPeriod\<rparr>)))" (is "_ = Some ?st'")
    using j toy_no_license by (simp add: periodicTick_def fetchLicenseJson_def storeLicense_def)
  then have r: "cm_run toy_config (toy_config_state None) ?st'" by (rule cm_more [OF cm_refl cm_tick])
  have "json_at (cacheJson ?st') (str ''license'') = Some ?L"
    using json_at_set [OF j] by (simp add: writeCache_def split: prod.splits)
  moreover have "\<not> initialised ?st'" using license_fixed_at_start [OF r] toy_no_license(1) by (simp add: initialised_def)
  ultimately show ?thesis using r by blast
qed

text \<open>Adding an address to the whitelist does not survive a restart.  The operation reports
  success and writes a file, but the document it writes is the one read at the start: if that
  had no whitelist, the whitelist is empty after the next start.\<close>

theorem whitelist_lost_at_restart:
  assumes "userWhitelistAdd nd a st = Some (True, st')" and "json_at (userConfigJson st) (str ''local-whitelist'') = None"
    and "writable (fs st) configPath" and "readable (fs st) configPath"
    and dump: "json_parse nd (json_dump nd (userConfigJson st)) = userConfigJson st" "json_dump nd (userConfigJson st) \<noteq> []"
      "userConfigJson st \<noteq> JDiscarded"
  shows "a \<in> set (userWhitelist st') \<and> files (fs st') configPath = Some (json_dump nd (userConfigJson st)) \<and>
    (\<exists>st1. readUserConfig nd (ConfigManager_init nd t hm (fs st')) = Some (True, st1) \<and>
       updateUserConfigData st1 = Some st1 \<and> userWhitelist st1 = [])"
proof -
  obtain s where s: "etl_insert USER_WHITELIST_SIZE_LIMIT a (userWhitelist st) = Some s" "st' = snd (writeUserConfig nd (st\<lparr>userWhitelist := s\<rparr>))"
    using assms(1) by (auto simp: userWhitelistAdd_def success split: if_splits)
  have a: "a \<in> set s" using s(1) by (auto simp: etl_insert_def set_insort_key split: if_splits)
  have fs': "fs st' = (fs st)\<lparr>files := (files (fs st))(configPath \<mapsto> json_dump nd (userConfigJson st))\<rparr>" "userWhitelist st' = s"
    using s(2) assms(3) by (simp_all add: writeUserConfig_def writeStorage_def writeFile_def configPath_def)
  have "readStorage (fs st') Key_config = Some (json_dump nd (userConfigJson st))"
    using fs' assms(4) by (simp add: readStorage_def readFile_def isFile_def configPath_def)
  then have r: "readUserConfig nd (ConfigManager_init nd t hm (fs st')) = Some (True, ConfigManager_init nd t hm (fs st'))"
    using dump assms(2) by (simp add: readUserConfig_def storeUserConfig_def ConfigManager_init_def)
  have "updateUserConfigData (ConfigManager_init nd t hm (fs st')) = Some (ConfigManager_init nd t hm (fs st'))"
    by (simp add: updateUserConfigData_def ConfigManager_init_def)
  with r show ?thesis using fs' a by (auto simp: ConfigManager_init_def)
qed

theorem whitelist_lost_at_restart_witness:
  "\<exists>st' st1. userWhitelistAdd toy_config (IpAddress (replicate 16 1)) (ConfigManager_init toy_config 0 (HooksManager_init False) (toy_disk None)) =
     Some (True, st') \<and> IpAddress (replicate 16 1) \<in> set (userWhitelist st') \<and>
     readUserConfig toy_config (ConfigManager_init toy_config 0 (HooksManager_init False) (fs st')) = Some (True, st1) \<and> userWhitelist st1 = []"
proof -
  let ?st = "ConfigManager_init toy_config 0 (HooksManager_init False) (toy_disk None)" and ?a = "IpAddress (replicate 16 1)"
  obtain st' where u: "userWhitelistAdd toy_config ?a ?st = Some (True, st')"
    by (auto simp: userWhitelistAdd_def ConfigManager_init_def etl_insert_def USER_WHITELIST_SIZE_LIMIT_def)
  have "json_at (userConfigJson ?st) (str ''local-whitelist'') = None" "writable (fs ?st) configPath" "readable (fs ?st) configPath"
    "json_parse toy_config (json_dump toy_config (userConfigJson ?st)) = userConfigJson ?st"
    "json_dump toy_config (userConfigJson ?st) \<noteq> []" "userConfigJson ?st \<noteq> JDiscarded"
    by (simp_all add: ConfigManager_init_def toy_disk_def toy_config_def)
  from whitelist_lost_at_restart [OF u this, of 0 "HooksManager_init False"] u show ?thesis by blast
qed

text \<open>What the steps of the start leave alone.\<close>

lemma storeCache_ok:
  assumes "is_object (cacheJson st)"
  shows "\<exists>j. storeCache doc st = Some (st\<lparr>cacheJson := j\<rparr>) \<and>
    (\<forall>L. json_at doc (str ''license'') = Some (JObject L) \<longrightarrow> json_at j (str ''license'') = Some (JObject L))"
proof -
  have entry: "\<exists>j. storeCacheEntry k doc st = Some (st\<lparr>cacheJson := j\<rparr>) \<and> is_object j \<and>
      (\<forall>L. json_at doc k = Some (JObject L) \<longrightarrow> json_at j k = Some (JObject L))" if obj: "is_object (cacheJson st)" for k st
  proof (cases "\<exists>m. json_at doc k = Some (JObject m)")
    case True
    then obtain m where m: "json_at doc k = Some (JObject m)" by blast
    obtain j where "json_set (cacheJson st) k (JObject m) = Some j" "is_object j" using json_set_object [OF obj] by blast
    then show ?thesis using m json_at_set [of "cacheJson st" k "JObject m" j k] by (auto simp: storeCacheEntry_def)
  next
    case False
    then have "storeCacheEntry k doc st = Some (st\<lparr>cacheJson := cacheJson st\<rparr>)"
      by (auto simp: storeCacheEntry_def split: option.splits json.splits)
    then show ?thesis using False obj by blast
  qed
  obtain j1 where j1: "storeCacheEntry (str ''get_config'') doc st = Some (st\<lparr>cacheJson := j1\<rparr>)" "is_object j1" using entry [OF assms] by blast
  obtain j2 where "storeCacheEntry (str ''license'') doc (st\<lparr>cacheJson := j1\<rparr>) = Some (st\<lparr>cacheJson := j1, cacheJson := j2\<rparr>)"
    "\<forall>L. json_at doc (str ''license'') = Some (JObject L) \<longrightarrow> json_at j2 (str ''license'') = Some (JObject L)"
    using entry [of "st\<lparr>cacheJson := j1\<rparr>" "str ''license''"] j1(2) by auto
  then show ?thesis using j1(1) by (intro exI [of _ j2]) (simp add: storeCache_def)
qed

lemma readCache_frame:
  assumes "readCache nd st = Some (b, st')" and "is_object (cacheJson st)"
  shows "\<exists>j. st' = st\<lparr>cacheJson := j\<rparr>"
proof -
  have "st' = st \<or> (\<exists>doc. storeCache doc st = Some st')" using assms(1) by (auto simp: readCache_def success Let_def split: if_splits)
  then show ?thesis
  proof
    assume "st' = st"
    then show ?thesis by (intro exI [of _ "cacheJson st"]) simp
  next
    assume "\<exists>doc. storeCache doc st = Some st'"
    then obtain doc where doc: "storeCache doc st = Some st'" by blast
    moreover obtain j where "storeCache doc st = Some (st\<lparr>cacheJson := j\<rparr>)" using storeCache_ok [OF assms(2)] by blast
    ultimately show ?thesis by auto
  qed
qed

lemma fetchLicenseJson_frame: "fetchLicenseJson nd w st = Some (b, st') \<Longrightarrow> \<exists>j t. st' = st\<lparr>cacheJson := j, nextLicenseDownload := t\<rparr>"
proof -
  have self: "st = st\<lparr>cacheJson := cacheJson st, nextLicenseDownload := nextLicenseDownload st\<rparr>" by simp
  assume "fetchLicenseJson nd w st = Some (b, st')"
  then have "st' = st \<or> (\<exists>j t. st' = st\<lparr>cacheJson := j, nextLicenseDownload := t\<rparr>)"
    by (auto simp: fetchLicenseJson_def storeLicense_def success split: if_splits)
  then show ?thesis using self by metis
qed

lemma updateLicenseData_frame:
  assumes "updateLicenseData st = Some st'"
  shows "fs st' = fs st \<and> userConfigJson st' = userConfigJson st \<and> (\<exists>v. json_ref (cacheJson st) (str ''license'') = Some (v, cacheJson st'))"
proof -
  note keep = fold_option_invariant [where P = "\<lambda>s. fs s = fs st \<and> userConfigJson s = userConfigJson st \<and> cacheJson s = c" for c]
  have add: "fold_option addEbServer xs s = Some s' \<Longrightarrow> fs s = fs st \<and> userConfigJson s = userConfigJson st \<and> cacheJson s = c \<Longrightarrow> fs s' = fs st \<and> userConfigJson s' = userConfigJson st \<and> cacheJson s' = c"
    "fold_option addApiServer xs s = Some s' \<Longrightarrow> fs s = fs st \<and> userConfigJson s = userConfigJson st \<and> cacheJson s = c \<Longrightarrow> fs s' = fs st \<and> userConfigJson s' = userConfigJson st \<and> cacheJson s' = c"
    "fold_option addBaseServer xs s = Some s' \<Longrightarrow> fs s = fs st \<and> userConfigJson s = userConfigJson st \<and> cacheJson s = c \<Longrightarrow> fs s' = fs st \<and> userConfigJson s' = userConfigJson st \<and> cacheJson s' = c" for xs s s' c
    by (erule keep [rotated 2]; force simp: addEbServer_def addApiServer_def addBaseServer_def success)+
  obtain v cache where r: "json_ref (cacheJson st) (str ''license'') = Some (v, cache)"
    using assms by (auto simp: updateLicenseData_def success)
  show ?thesis
  proof (cases "v = JDiscarded \<or> v = JNull")
    case True
    then show ?thesis using assms r by (auto simp: updateLicenseData_def success)
  next
    case False
    then obtain eb api base st1 st2 where "fold_option addEbServer eb (st\<lparr>cacheJson := cache, ebAddresses := []\<rparr>) = Some st1"
      "fold_option addApiServer api (st1\<lparr>apiAddresses := []\<rparr>) = Some st2"
      "fold_option addBaseServer base (st2\<lparr>baseAddresses := []\<rparr>) = Some st'"
      using assms r by (auto simp: updateLicenseData_def success)
    note s = this
    have "fs st1 = fs st \<and> userConfigJson st1 = userConfigJson st \<and> cacheJson st1 = cache" by (rule add(1) [OF s(1)]) simp
    then have "fs st2 = fs st \<and> userConfigJson st2 = userConfigJson st \<and> cacheJson st2 = cache" by (intro add(2) [OF s(2)]) simp
    then have "fs st' = fs st \<and> userConfigJson st' = userConfigJson st \<and> cacheJson st' = cache" by (intro add(3) [OF s(3)]) simp
    then show ?thesis using r by blast
  qed
qed

text \<open>What the other files of the disk have to do with the steps: nothing.\<close>

definition other_files :: "filesystem \<Rightarrow> filesystem \<Rightarrow> bool" where
  "other_files d d' \<longleftrightarrow> files d' cachePath = files d cachePath \<and> files d' configPath = files d configPath \<and>
     readable d' = readable d \<and> writable d' = writable d"

lemma other_files_trans: "other_files a b \<Longrightarrow> other_files b c \<Longrightarrow> other_files a c"
  by (simp add: other_files_def)

lemma paths_differ:
  "hostsFilePath \<noteq> cachePath" "hostsFilePath \<noteq> configPath" "hostnamePath \<noteq> cachePath" "hostnamePath \<noteq> configPath" "cachePath \<noteq> configPath"
  by (simp_all add: hostsFilePath_def hostnamePath_def cachePath_def configPath_def configDir_def)

lemma other_files_host:
  "updateHostsFile xs d = Some (b, d') \<Longrightarrow> other_files d d'"
  "setSelfHostname i c h d = Some (b, d') \<Longrightarrow> other_files d d'"
  using paths_differ
  by (auto simp: updateHostsFile_def setSelfHostname_def transformFile_def writeFile_def other_files_def split: if_splits option.splits)

lemma updateGetConfigData_disk:
  assumes u: "updateGetConfigData nd st = Some st'"
  shows "other_files (fs st) (fs st') \<and> userConfigJson st' = userConfigJson st"
proof -
  obtain latest cache where r: "json_ref (cacheJson st) (str ''get_config'') = Some (latest, cache)"
    using u by (auto simp: updateGetConfigData_def success)
  show ?thesis
  proof (cases "\<exists>infos. json_at latest (str ''peers'') = Some (JArray infos)")
    case True
    then obtain infos where "json_at latest (str ''peers'') = Some (JArray infos)" by blast
    with u r obtain st1 st2 h d b where s: "updateClaim nd latest (st\<lparr>cacheJson := cache, allowedPeers := []\<rparr>) = Some st1"
      "fold_option addPeerInfo infos (claimHooks (claimedBy st) st1, []) = Some (st2, h)" "st' = st2\<lparr>fs := d\<rparr>"
      "updateHostsFile (map_insert (str ''husarnet-local'') (ourIp nd) h) (fs st2) = Some (b, d)"
      by (auto simp: updateGetConfigData_def success)
    have 1: "other_files (fs st) (fs st1)"
      using s(1) other_files_host(2) by (auto simp: updateClaim_def success other_files_def split: if_splits)
    have "st2 = (claimHooks (claimedBy st) st1)\<lparr>allowedPeers := allowedPeers st2\<rparr>"
      using fold_addPeerInfo [OF s(2)] updateClaim_frame [OF s(1)] by (simp add: claimHooks_frame)
    moreover have "fs (claimHooks (claimedBy st) st1) = fs st1" "userConfigJson (claimHooks (claimedBy st) st1) = userConfigJson st1"
      by (simp_all add: claimHooks_def Let_def)
    ultimately have 2: "fs st2 = fs st1" "userConfigJson st2 = userConfigJson st1"
      by (metis config_state.select_convs config_state.surjective config_state.update_convs(7))+
    have "userConfigJson st1 = userConfigJson st" using updateClaim_frame [OF s(1)] by (simp add: same_servers_def)
    then show ?thesis using 1 2 s(3) other_files_host(1) [OF s(4)] other_files_trans by auto
  next
    case False
    with u r show ?thesis using other_files_host(1) by (fastforce simp: updateGetConfigData_def success split: option.splits json.splits)
  qed
qed

text \<open>The cache file holds the cached document after every step of a run, and the user's file is as it was
  or holds the user's document.\<close>

definition on_disk :: "config_node \<Rightarrow> filesystem \<Rightarrow> json \<Rightarrow> config_state \<Rightarrow> bool" where
  "on_disk nd d u st \<longleftrightarrow>
     files (fs st) cachePath = Some (json_dump nd (cacheJson st)) \<and> readable (fs st) = readable d \<and> writable (fs st) = writable d \<and>
     userConfigJson st = u \<and> (files (fs st) configPath = files d configPath \<or> files (fs st) configPath = Some (json_dump nd u))"

lemma write_disk:
  "snd (writeCache nd st) = st\<lparr>fs := (if writable (fs st) cachePath
     then (fs st)\<lparr>files := (files (fs st))(cachePath \<mapsto> json_dump nd (cacheJson st))\<rparr> else fs st)\<rparr>"
  "snd (writeUserConfig nd st) = st\<lparr>fs := (if writable (fs st) configPath
     then (fs st)\<lparr>files := (files (fs st))(configPath \<mapsto> json_dump nd (userConfigJson st))\<rparr> else fs st)\<rparr>"
  by (simp_all add: writeCache_def writeUserConfig_def writeStorage_def writeFile_def cachePath_def configPath_def)

lemma on_disk_writeCache:
  assumes "readable (fs st) = readable d" and "writable (fs st) = writable d" and "writable d cachePath" and "userConfigJson st = u"
    and "files (fs st) configPath = files d configPath \<or> files (fs st) configPath = Some (json_dump nd u)"
  shows "on_disk nd d u (snd (writeCache nd st))"
  using assms paths_differ
  by (auto simp: on_disk_def write_disk)

lemma fetchLicenseJson_disk: "fetchLicenseJson nd w st = Some (b, st') \<Longrightarrow> fs st' = fs st \<and> userConfigJson st' = userConfigJson st"
  using fetchLicenseJson_frame by fastforce

lemma fetchGetConfig_disk: "fetchGetConfig nd w st = Some st' \<Longrightarrow> other_files (fs st) (fs st') \<and> userConfigJson st' = userConfigJson st"
  by (auto simp: fetchGetConfig_def storeGetConfig_def success other_files_def split: if_splits dest!: updateGetConfigData_disk)

lemma on_disk_tick:
  assumes t: "periodicTick nd w st = Some st'" and inv: "on_disk nd d u st" and "writable d cachePath"
  shows "on_disk nd d u st'"
proof -
  let ?renew = "clock w \<ge> nextLicenseDownload st"
  obtain st1 where 1: "(if ?renew then map_option snd (fetchLicenseJson nd w st) else Some st) = Some st1"
    using t by (auto simp: periodicTick_def success)
  let ?get = "getEnableControlplane (configEnv nd) \<and> clock w \<ge> nextGetConfigUpdate st1"
  obtain st2 where 2: "(if ?get then fetchGetConfig nd w st1 else Some st1) = Some st2"
    "st' = (if ?renew \<or> ?get then snd (writeCache nd st2) else st2)"
    using t 1 by (auto simp: periodicTick_def success)
  have f1: "fs st1 = fs st" "userConfigJson st1 = userConfigJson st" using 1 fetchLicenseJson_disk by (auto split: if_splits)
  have f2: "other_files (fs st1) (fs st2)" "userConfigJson st2 = userConfigJson st1"
    using 2(1) fetchGetConfig_disk by (auto simp: other_files_def split: if_splits)
  show ?thesis
  proof (cases "?renew \<or> ?get")
    case True
    have "on_disk nd d u (snd (writeCache nd st2))"
      by (rule on_disk_writeCache) (use f1 f2 inv assms(3) in \<open>auto simp: on_disk_def other_files_def\<close>)
    then show ?thesis using True 2(2) by simp
  next
    case False
    then have "st' = st" using 1 2 by auto
    then show ?thesis using inv by simp
  qed
qed

lemma on_disk_step:
  assumes "cm_step nd st st'" and "on_disk nd d u st" and "writable d cachePath"
  shows "on_disk nd d u st'"
  using assms
proof (induction rule: cm_step.induct)
  case (cm_tick w st st')
  then show ?case by (rule on_disk_tick)
next
  case (cm_add a st b st')
  then have "st' = st \<or> (\<exists>s. st' = snd (writeUserConfig nd (st\<lparr>userWhitelist := s\<rparr>)))"
    by (auto simp: userWhitelistAdd_def success split: if_splits)
  then show ?case
  proof
    assume "\<exists>s. st' = snd (writeUserConfig nd (st\<lparr>userWhitelist := s\<rparr>))"
    then obtain s where "st' = snd (writeUserConfig nd (st\<lparr>userWhitelist := s\<rparr>))" by blast
    then show ?thesis using cm_add(2) paths_differ(5) unfolding on_disk_def by (simp add: write_disk)
  qed (use cm_add in simp)
qed (auto simp: on_disk_def userWhitelistRm_def triggerGetConfig_def)

lemma on_disk_run: "cm_run nd st st' \<Longrightarrow> on_disk nd d u st \<Longrightarrow> writable d cachePath \<Longrightarrow> on_disk nd d u st'"
  by (induction rule: cm_run.induct) (auto intro: on_disk_step)

text \<open>The servers a license names.\<close>

definition named :: "bytes \<Rightarrow> json \<Rightarrow> ipaddress list option" where
  "named k license = do { v \<leftarrow> json_at license k; xs \<leftarrow> get_strings v; option_list (map parse_address xs) }"

definition license_usable :: "json \<Rightarrow> bool" where
  "license_usable license \<longleftrightarrow>
     (case (named (str ''eb_servers'') license, named (str ''api_servers'') license, named (str ''base_server_addresses'') license) of
        (Some eb, Some api, Some base) \<Rightarrow> length eb \<le> 16 \<and> length api \<le> 16 \<and> length base \<le> 16
      | _ \<Rightarrow> False)"

lemma addServer_Some:
  "addEbServer x st = Some st' \<Longrightarrow> \<exists>a. parse_address x = Some a \<and> ebAddresses st' = ebAddresses st @ [a] \<and> length (ebAddresses st') \<le> 16"
  "addApiServer x st = Some st' \<Longrightarrow> \<exists>a. parse_address x = Some a \<and> apiAddresses st' = apiAddresses st @ [a] \<and>
     length (apiAddresses st') \<le> 16 \<and> ebAddresses st' = ebAddresses st"
  "addBaseServer x st = Some st' \<Longrightarrow> \<exists>a. parse_address x = Some a \<and> baseAddresses st' = baseAddresses st @ [a] \<and>
     length (baseAddresses st') \<le> 16 \<and> ebAddresses st' = ebAddresses st \<and> apiAddresses st' = apiAddresses st"
  by (auto simp: addEbServer_def addApiServer_def addBaseServer_def etl_push_back_def EVENTBUS_ADDRESSES_LIMIT_def
      DASHBOARD_API_ADDRESSES_LIMIT_def BASE_ADDRESSES_LIMIT_def success split: if_splits)

lemma fold_addEbServer:
  "fold_option addEbServer xs st = Some st' \<Longrightarrow> length (ebAddresses st) \<le> 16 \<Longrightarrow>
     \<exists>as. option_list (map parse_address xs) = Some as \<and> ebAddresses st' = ebAddresses st @ as \<and> length (ebAddresses st') \<le> 16"
  "option_list (map parse_address xs) = Some as \<Longrightarrow> length (ebAddresses st) + length as \<le> 16 \<Longrightarrow> length (allowedPeers st) + length as \<le> 128 \<Longrightarrow>
     \<exists>st'. fold_option addEbServer xs st = Some st' \<and> length (allowedPeers st') \<le> length (allowedPeers st) + length as"
proof (induction xs arbitrary: st as)
  case (Cons x xs)
  { case 1
    then obtain st1 where st1: "addEbServer x st = Some st1" "fold_option addEbServer xs st1 = Some st'" by (auto split: option.splits)
    then show ?case using Cons.IH(1) [OF st1(2)] addServer_Some(1) [OF st1(1)] by auto
  next
    case 2
    then obtain a as1 where a: "parse_address x = Some a" "option_list (map parse_address xs) = Some as1" "as = a # as1"
      by (auto simp: success)
    obtain s where s: "etl_insert ALLOWED_PEERS_LIMIT a (allowedPeers st) = Some s" "length s \<le> length (allowedPeers st) + 1"
      using 2(3) a(3) by (auto simp: etl_insert_def ALLOWED_PEERS_LIMIT_def)
    let ?st = "st\<lparr>ebAddresses := ebAddresses st @ [a], allowedPeers := s\<rparr>"
    have "addEbServer x st = Some ?st" using 2(2) a s by (simp add: addEbServer_def etl_push_back_def EVENTBUS_ADDRESSES_LIMIT_def)
    then show ?case using Cons.IH(2) [OF a(2), of ?st] 2 a s(2) by fastforce
  }
qed simp_all

lemma fold_addApiServer:
  "fold_option addApiServer xs st = Some st' \<Longrightarrow> length (apiAddresses st) \<le> 16 \<Longrightarrow>
     \<exists>as. option_list (map parse_address xs) = Some as \<and> apiAddresses st' = apiAddresses st @ as \<and> length (apiAddresses st') \<le> 16 \<and>
       ebAddresses st' = ebAddresses st"
  "option_list (map parse_address xs) = Some as \<Longrightarrow> length (apiAddresses st) + length as \<le> 16 \<Longrightarrow> length (allowedPeers st) + length as \<le> 128 \<Longrightarrow>
     \<exists>st'. fold_option addApiServer xs st = Some st'"
proof (induction xs arbitrary: st as)
  case (Cons x xs)
  { case 1
    then obtain st1 where st1: "addApiServer x st = Some st1" "fold_option addApiServer xs st1 = Some st'" by (auto split: option.splits)
    then show ?case using Cons.IH(1) [OF st1(2)] addServer_Some(2) [OF st1(1)] by auto
  next
    case 2
    then obtain a as1 where a: "parse_address x = Some a" "option_list (map parse_address xs) = Some as1" "as = a # as1"
      by (auto simp: success)
    obtain s where s: "etl_insert ALLOWED_PEERS_LIMIT a (allowedPeers st) = Some s" "length s \<le> length (allowedPeers st) + 1"
      using 2(3) a(3) by (auto simp: etl_insert_def ALLOWED_PEERS_LIMIT_def)
    let ?st = "st\<lparr>apiAddresses := apiAddresses st @ [a], allowedPeers := s\<rparr>"
    have "addApiServer x st = Some ?st" using 2(2) a s by (simp add: addApiServer_def etl_push_back_def DASHBOARD_API_ADDRESSES_LIMIT_def)
    then show ?case using Cons.IH(2) [OF a(2), of ?st] 2 a s(2) by fastforce
  }
qed simp_all

lemma fold_addBaseServer:
  "fold_option addBaseServer xs st = Some st' \<Longrightarrow> length (baseAddresses st) \<le> 16 \<Longrightarrow>
     \<exists>as. option_list (map parse_address xs) = Some as \<and> baseAddresses st' = baseAddresses st @ as \<and> length (baseAddresses st') \<le> 16 \<and>
       ebAddresses st' = ebAddresses st \<and> apiAddresses st' = apiAddresses st"
  "option_list (map parse_address xs) = Some as \<Longrightarrow> length (baseAddresses st) + length as \<le> 16 \<Longrightarrow>
     \<exists>st'. fold_option addBaseServer xs st = Some st'"
proof (induction xs arbitrary: st as)
  case (Cons x xs)
  { case 1
    then obtain st1 where st1: "addBaseServer x st = Some st1" "fold_option addBaseServer xs st1 = Some st'" by (auto split: option.splits)
    then show ?case using Cons.IH(1) [OF st1(2)] addServer_Some(3) [OF st1(1)] by auto
  next
    case 2
    then obtain a as1 where a: "parse_address x = Some a" "option_list (map parse_address xs) = Some as1" "as = a # as1"
      by (auto simp: success)
    let ?st = "st\<lparr>baseAddresses := baseAddresses st @ [a]\<rparr>"
    have "addBaseServer x st = Some ?st" using 2(2) a by (simp add: addBaseServer_def etl_push_back_def BASE_ADDRESSES_LIMIT_def)
    then show ?case using Cons.IH(2) [OF a(2), of ?st] 2 a by auto
  }
qed simp_all

lemma updateLicenseData_named:
  assumes "json_at (cacheJson st) (str ''license'') = Some (JObject L)" and "updateLicenseData st = Some st'"
  shows "named (str ''base_server_addresses'') (JObject L) = Some (baseAddresses st')"
    and "named (str ''api_servers'') (JObject L) = Some (apiAddresses st')"
    and "named (str ''eb_servers'') (JObject L) = Some (ebAddresses st')" and "license_usable (JObject L)"
proof -
  have "json_ref (cacheJson st) (str ''license'') = Some (JObject L, cacheJson st)" using assms(1) by (simp add: json_ref_def)
  then obtain v1 eb v2 api v3 base st1 st2 where s:
    "json_at (JObject L) (str ''eb_servers'') = Some v1" "get_strings v1 = Some eb"
    "fold_option addEbServer eb (st\<lparr>cacheJson := cacheJson st, ebAddresses := []\<rparr>) = Some st1"
    "json_at (JObject L) (str ''api_servers'') = Some v2" "get_strings v2 = Some api"
    "fold_option addApiServer api (st1\<lparr>apiAddresses := []\<rparr>) = Some st2"
    "json_at (JObject L) (str ''base_server_addresses'') = Some v3" "get_strings v3 = Some base"
    "fold_option addBaseServer base (st2\<lparr>baseAddresses := []\<rparr>) = Some st'"
    using assms(2) by (auto simp: updateLicenseData_def success simp del: json_at.simps)
  have 1: "option_list (map parse_address eb) = Some (ebAddresses st1)" "length (ebAddresses st1) \<le> 16" using fold_addEbServer(1) [OF s(3)] by auto
  have 2: "option_list (map parse_address api) = Some (apiAddresses st2)" "length (apiAddresses st2) \<le> 16" "ebAddresses st2 = ebAddresses st1"
    using fold_addApiServer(1) [OF s(6)] by auto
  have 3: "option_list (map parse_address base) = Some (baseAddresses st')" "length (baseAddresses st') \<le> 16"
    "ebAddresses st' = ebAddresses st2" "apiAddresses st' = apiAddresses st2"
    using fold_addBaseServer(1) [OF s(9)] by auto
  show n: "named (str ''base_server_addresses'') (JObject L) = Some (baseAddresses st')"
    "named (str ''api_servers'') (JObject L) = Some (apiAddresses st')" "named (str ''eb_servers'') (JObject L) = Some (ebAddresses st')"
    unfolding named_def s(1,4,7) using 1 2 3 s(2,5,8) by simp_all
  show "license_usable (JObject L)" unfolding license_usable_def n using 1 2 3 by simp
qed

lemma updateLicenseData_usable:
  assumes "json_at (cacheJson st) (str ''license'') = Some (JObject L)" and "license_usable (JObject L)" and "allowedPeers st = []"
  shows "\<exists>st'. updateLicenseData st = Some st'"
proof -
  have r: "json_ref (cacheJson st) (str ''license'') = Some (JObject L, cacheJson st)" using assms(1) by (simp add: json_ref_def)
  obtain v1 eb v2 api v3 base ebs apis bases where s:
    "json_at (JObject L) (str ''eb_servers'') = Some v1" "get_strings v1 = Some eb" "option_list (map parse_address eb) = Some ebs"
    "json_at (JObject L) (str ''api_servers'') = Some v2" "get_strings v2 = Some api" "option_list (map parse_address api) = Some apis"
    "json_at (JObject L) (str ''base_server_addresses'') = Some v3" "get_strings v3 = Some base" "option_list (map parse_address base) = Some bases"
    and l: "length ebs \<le> 16" "length apis \<le> 16" "length bases \<le> 16"
    using assms(2) by (auto simp: license_usable_def named_def success split: option.splits simp del: json_at.simps)
  obtain st1 where st1: "fold_option addEbServer eb (st\<lparr>cacheJson := cacheJson st, ebAddresses := []\<rparr>) = Some st1" "length (allowedPeers st1) \<le> 16"
    using fold_addEbServer(2) [OF s(3), of "st\<lparr>cacheJson := cacheJson st, ebAddresses := []\<rparr>"] l(1) assms(3) by fastforce
  obtain st2 where st2: "fold_option addApiServer api (st1\<lparr>apiAddresses := []\<rparr>) = Some st2"
    using fold_addApiServer(2) [OF s(6), of "st1\<lparr>apiAddresses := []\<rparr>"] l(2) st1(2) by fastforce
  obtain st3 where "fold_option addBaseServer base (st2\<lparr>baseAddresses := []\<rparr>) = Some st3"
    using fold_addBaseServer(2) [OF s(9), of "st2\<lparr>baseAddresses := []\<rparr>"] l(3) by fastforce
  then show ?thesis using r s(1,2,4,5,7,8) st1(1) st2 by (auto simp: updateLicenseData_def simp del: json_at.simps)
qed

text \<open>Reading the user's file again succeeds as it did the first time.\<close>

lemma updateUserConfigData_absent: "userConfigJson st = JObject [] \<Longrightarrow> updateUserConfigData st = Some st"
  by (simp add: updateUserConfigData_def)

lemma fold_addWhitelistEntry:
  "fold_option addWhitelistEntry xs a = Some a' \<Longrightarrow> userWhitelist b = userWhitelist a \<Longrightarrow>
     fold_option addWhitelistEntry xs b = Some (b\<lparr>userWhitelist := userWhitelist a'\<rparr>)"
proof (induction xs arbitrary: a b)
  case (Cons x xs)
  obtain a1 where a1: "addWhitelistEntry x a = Some a1" "fold_option addWhitelistEntry xs a1 = Some a'"
    using Cons.prems(1) by (simp split: option.splits)
  have "addWhitelistEntry x b = Some (b\<lparr>userWhitelist := userWhitelist a1\<rparr>)"
  proof -
    have "b\<lparr>userWhitelist := userWhitelist a\<rparr> = b" using Cons.prems(2) by (metis config_state.surjective config_state.update_convs(8))
    moreover obtain y where "parse_address x = Some y" using a1(1) by (auto simp: addWhitelistEntry_def success)
    ultimately show ?thesis using a1(1) Cons.prems(2) by (auto simp: addWhitelistEntry_def split: if_splits)
  qed
  then show ?case using Cons.IH [OF a1(2), of "b\<lparr>userWhitelist := userWhitelist a1\<rparr>"] by simp
qed simp

lemma updateUserConfigData_again:
  assumes "updateUserConfigData a = Some a'" and "userConfigJson b = userConfigJson a"
  shows "\<exists>w. updateUserConfigData b = Some (b\<lparr>userWhitelist := w\<rparr>)" and "\<exists>w. a' = a\<lparr>userWhitelist := w\<rparr>"
proof -
  have "\<exists>w. updateUserConfigData c = Some (c\<lparr>userWhitelist := w\<rparr>)" if "userConfigJson c = userConfigJson a" for c
  proof (cases "\<exists>xs. json_at (userConfigJson a) (str ''local-whitelist'') = Some (JArray xs)")
    case True
    then obtain xs where xs: "json_at (userConfigJson a) (str ''local-whitelist'') = Some (JArray xs)" by blast
    obtain entries where e: "get_strings (JArray xs) = Some entries"
      "fold_option addWhitelistEntry entries (a\<lparr>userWhitelist := []\<rparr>) = Some a'"
      using assms(1) xs by (auto simp: updateUserConfigData_def success simp del: get_strings.simps)
    from fold_addWhitelistEntry [OF e(2), of "c\<lparr>userWhitelist := []\<rparr>"] show ?thesis
      using xs e(1) that by (auto simp: updateUserConfigData_def simp del: get_strings.simps)
  next
    case False
    then have "updateUserConfigData c = Some c" using that by (auto simp: updateUserConfigData_def split: option.splits json.splits)
    then show ?thesis by (intro exI [of _ "userWhitelist c"]) simp
  qed
  from this [OF assms(2)] this [OF refl] show "\<exists>w. updateUserConfigData b = Some (b\<lparr>userWhitelist := w\<rparr>)" "\<exists>w. a' = a\<lparr>userWhitelist := w\<rparr>"
    using assms(1) by auto
qed

lemma storeUserConfig_shape:
  assumes "storeUserConfig doc a = Some a'" and "userConfigJson a = JObject []"
  shows "\<exists>u. a' = a\<lparr>userConfigJson := u\<rparr> \<and> is_object u \<and>
    (\<forall>b. userConfigJson b = JObject [] \<longrightarrow> storeUserConfig doc b = Some (b\<lparr>userConfigJson := u\<rparr>) \<and> storeUserConfig u b = Some (b\<lparr>userConfigJson := u\<rparr>)) \<and>
    (u \<noteq> JObject [] \<longrightarrow> doc \<noteq> JObject [])"
proof (cases "\<exists>xs. json_at doc (str ''local-whitelist'') = Some (JArray xs)")
  case True
  then obtain xs where xs: "json_at doc (str ''local-whitelist'') = Some (JArray xs)" by blast
  let ?u = "JObject [(str ''local-whitelist'', JArray xs)]"
  have "storeUserConfig doc b = Some (b\<lparr>userConfigJson := ?u\<rparr>)" "storeUserConfig ?u b = Some (b\<lparr>userConfigJson := ?u\<rparr>)"
    if "userConfigJson b = JObject []" for b
    using xs that by (simp_all add: storeUserConfig_def)
  then show ?thesis using assms xs by (intro exI [of _ ?u]) auto
next
  case False
  have "storeUserConfig doc b = Some (b\<lparr>userConfigJson := JObject []\<rparr>)" "storeUserConfig (JObject []) b = Some (b\<lparr>userConfigJson := JObject []\<rparr>)"
    if "userConfigJson b = JObject []" for b
  proof -
    have "b\<lparr>userConfigJson := JObject []\<rparr> = b" using that by (metis config_state.surjective config_state.update_convs(1))
    then show "storeUserConfig doc b = Some (b\<lparr>userConfigJson := JObject []\<rparr>)" "storeUserConfig (JObject []) b = Some (b\<lparr>userConfigJson := JObject []\<rparr>)"
      using False by (auto simp: storeUserConfig_def split: option.splits json.splits)
  qed
  then show ?thesis using assms by (intro exI [of _ "JObject []"]) auto
qed

lemma readUserConfig_again:
  assumes a: "readUserConfig nd a = Some (r, a1)" "(if r then updateUserConfigData a1 else Some a1) = Some a2"
    and j: "userConfigJson a = JObject []" "userConfigJson b = JObject []"
    and same: "readStorage (fs b) Key_config = readStorage (fs a) Key_config \<or>
      readStorage (fs b) Key_config = Some (json_dump nd (userConfigJson a1)) \<and> json_dump nd (userConfigJson a1) \<noteq> [] \<and>
        json_parse nd (json_dump nd (userConfigJson a1)) = userConfigJson a1"
  shows "\<exists>r b1 u w. readUserConfig nd b = Some (r, b1) \<and>
    (if r then updateUserConfigData b1 else Some b1) = Some (b\<lparr>userConfigJson := u, userWhitelist := w\<rparr>)"
    and "\<exists>w. a2 = a\<lparr>userConfigJson := userConfigJson a1, userWhitelist := w\<rparr>"
proof -
  obtain contents where c: "readStorage (fs a) Key_config = Some contents" using a(1) by (auto simp: readUserConfig_def success)
  let ?doc = "json_parse nd (if contents = [] then str ''{}'' else contents)"
  define D where "D = (if ?doc = JDiscarded then JObject [] else ?doc)"
  have s: "storeUserConfig D a = Some a1" "r \<longleftrightarrow> ?doc \<noteq> JDiscarded"
    using a(1) c by (auto simp: readUserConfig_def D_def success split: if_splits)
  obtain u where u: "a1 = a\<lparr>userConfigJson := u\<rparr>" "is_object u"
    "\<And>b. userConfigJson b = JObject [] \<Longrightarrow> storeUserConfig D b = Some (b\<lparr>userConfigJson := u\<rparr>)"
    "\<And>b. userConfigJson b = JObject [] \<Longrightarrow> storeUserConfig u b = Some (b\<lparr>userConfigJson := u\<rparr>)"
    "u \<noteq> JObject [] \<Longrightarrow> D \<noteq> JObject []"
    using storeUserConfig_shape [OF s(1) j(1)] by blast
  have update: "\<exists>w. updateUserConfigData (b\<lparr>userConfigJson := u\<rparr>) = Some (b\<lparr>userConfigJson := u, userWhitelist := w\<rparr>)"
    if "r \<or> u = JObject []"
  proof (cases r)
    case True
    then show ?thesis using updateUserConfigData_again(1) [of a1 a2 "b\<lparr>userConfigJson := u\<rparr>"] a(2) u(1) by simp
  next
    case False
    then have "updateUserConfigData (b\<lparr>userConfigJson := u\<rparr>) = Some (b\<lparr>userConfigJson := u\<rparr>)" using that updateUserConfigData_absent by simp
    then show ?thesis by (intro exI [of _ "userWhitelist b"]) simp
  qed
  have self: "b\<lparr>userConfigJson := u, userWhitelist := userWhitelist b\<rparr> = b\<lparr>userConfigJson := u\<rparr>" by simp
  show "\<exists>r b1 u w. readUserConfig nd b = Some (r, b1) \<and>
    (if r then updateUserConfigData b1 else Some b1) = Some (b\<lparr>userConfigJson := u, userWhitelist := w\<rparr>)"
    using same
  proof
    assume "readStorage (fs b) Key_config = readStorage (fs a) Key_config"
    then have "readUserConfig nd b = Some (r, b\<lparr>userConfigJson := u\<rparr>)" using c u(3) [OF j(2)] s(2) by (auto simp: readUserConfig_def D_def)
    moreover have "\<exists>w. (if r then updateUserConfigData (b\<lparr>userConfigJson := u\<rparr>) else Some (b\<lparr>userConfigJson := u\<rparr>)) =
        Some (b\<lparr>userConfigJson := u, userWhitelist := w\<rparr>)"
    proof (cases r)
      case False
      then show ?thesis by (intro exI [of _ "userWhitelist b"]) simp
    qed (use update in simp)
    ultimately show ?thesis by blast
  next
    assume "readStorage (fs b) Key_config = Some (json_dump nd (userConfigJson a1)) \<and> json_dump nd (userConfigJson a1) \<noteq> [] \<and>
        json_parse nd (json_dump nd (userConfigJson a1)) = userConfigJson a1"
    moreover have "u \<noteq> JDiscarded" using u(2) by auto
    ultimately have "readUserConfig nd b = Some (True, b\<lparr>userConfigJson := u\<rparr>)" using u(1) u(4) [OF j(2)] by (simp add: readUserConfig_def)
    moreover have "r \<or> u = JObject []" using s(2) u(5) unfolding D_def by metis
    ultimately show ?thesis using update by (metis (full_types))
  qed
  show "\<exists>w. a2 = a\<lparr>userConfigJson := userConfigJson a1, userWhitelist := w\<rparr>"
  proof (cases r)
    case True
    then show ?thesis using updateUserConfigData_again(2) [of a1 a2 a1] a(2) u(1) by simp
  next
    case False
    then show ?thesis using a(2) unfolding u(1) by (intro exI [of _ "userWhitelist a"]) auto
  qed
qed


text \<open>What a start leaves, and what a later start can rely on.\<close>

lemma started:
  assumes start: "periodicStart nd w (ConfigManager_init nd t hm d) = Some st0" and "writable d cachePath"
  shows "on_disk nd d (userConfigJson st0) st0"
    and "userConfigJson b = JObject [] \<Longrightarrow>
      readStorage (fs b) Key_config = readStorage d Key_config \<or> readStorage (fs b) Key_config = Some (json_dump nd (userConfigJson st0)) \<Longrightarrow>
      json_dump nd (userConfigJson st0) \<noteq> [] \<Longrightarrow> json_parse nd (json_dump nd (userConfigJson st0)) = userConfigJson st0 \<Longrightarrow>
      \<exists>r b1 u v. readUserConfig nd b = Some (r, b1) \<and>
        (if r then updateUserConfigData b1 else Some b1) = Some (b\<lparr>userConfigJson := u, userWhitelist := v\<rparr>)"
    and "json_at (cacheJson st0) (str ''license'') = Some (JObject L) \<Longrightarrow>
      license_usable (JObject L) \<and> named (str ''base_server_addresses'') (JObject L) = Some (baseAddresses st0) \<and>
      named (str ''api_servers'') (JObject L) = Some (apiAddresses st0) \<and> named (str ''eb_servers'') (JObject L) = Some (ebAddresses st0)"
proof -
  let ?i = "ConfigManager_init nd t hm d"
  obtain r0 st1 r1 a1 a2 r3 st3 st4 where s: "readCache nd ?i = Some (r0, st1)" "readUserConfig nd st1 = Some (r1, a1)"
    "(if r1 then updateUserConfigData a1 else Some a1) = Some a2" "fetchLicenseJson nd w a2 = Some (r3, st3)"
    "updateLicenseData st3 = Some st4" "st0 = snd (writeCache nd st4)"
    using start by (auto simp: periodicStart_def success)
  obtain j1 where j1: "st1 = ?i\<lparr>cacheJson := j1\<rparr>" using readCache_frame [OF s(1)] by (auto simp: ConfigManager_init_def)
  then have st1: "userConfigJson st1 = JObject []" "fs st1 = d" by (simp_all add: ConfigManager_init_def)
  obtain v where a2: "a2 = st1\<lparr>userConfigJson := userConfigJson a1, userWhitelist := v\<rparr>"
    using readUserConfig_again(2) [OF s(2,3) st1(1) st1(1)] by blast
  obtain l where st4: "fs st4 = fs st3" "json_ref (cacheJson st3) (str ''license'') = Some (l, cacheJson st4)" "userConfigJson st4 = userConfigJson st3"
    using updateLicenseData_frame [OF s(5)] by blast
  have d: "fs st4 = d" "userConfigJson st4 = userConfigJson a1" using st4 fetchLicenseJson_disk [OF s(4)] a2 st1 by simp_all
  then show "on_disk nd d (userConfigJson st0) st0"
    unfolding s(6) by (intro on_disk_writeCache) (use assms(2) in \<open>simp_all add: write_disk\<close>)
  have uj: "userConfigJson st0 = userConfigJson a1" using d s(6) by (simp add: write_disk)
  show "\<exists>r b1 u v. readUserConfig nd b = Some (r, b1) \<and>
      (if r then updateUserConfigData b1 else Some b1) = Some (b\<lparr>userConfigJson := u, userWhitelist := v\<rparr>)"
    if "userConfigJson b = JObject []"
      "readStorage (fs b) Key_config = readStorage d Key_config \<or> readStorage (fs b) Key_config = Some (json_dump nd (userConfigJson st0))"
      "json_dump nd (userConfigJson st0) \<noteq> []" "json_parse nd (json_dump nd (userConfigJson st0)) = userConfigJson st0"
    by (rule readUserConfig_again(1) [OF s(2,3) st1(1) that(1)]) (use that(2-4) uj st1(2) in auto)
  show "license_usable (JObject L) \<and> named (str ''base_server_addresses'') (JObject L) = Some (baseAddresses st0) \<and>
      named (str ''api_servers'') (JObject L) = Some (apiAddresses st0) \<and> named (str ''eb_servers'') (JObject L) = Some (ebAddresses st0)"
    if "json_at (cacheJson st0) (str ''license'') = Some (JObject L)"
  proof -
    have "cacheJson st0 = cacheJson st4" using s(6) by (simp add: write_disk)
    then have "json_at (cacheJson st3) (str ''license'') = Some (JObject L)"
      using st4(2) that json_at_set by (auto simp: json_ref_def success split: option.splits)
    note n = updateLicenseData_named [OF this s(5)]
    have "baseAddresses st0 = baseAddresses st4" "apiAddresses st0 = apiAddresses st4" "ebAddresses st0 = ebAddresses st4"
      using s(6) by (simp_all add: write_disk)
    then show ?thesis using n by simp
  qed
qed

text \<open>C26: A node that starts offline gets its servers from the license that was last stored, by the start
  or by any later step: those that license names, and so the same as before if no newer license was
  stored.  The user's configuration file may exist and may have been rewritten; the disk must be as
  the node left it, the cache file writable and both files readable; the JSON library must read what it
  printed; and a license stored after the start must name at most 16 servers of each kind, all
  of them addresses, without which the start throws an exception.\<close>

theorem offline_restart:
  assumes start: "periodicStart nd w (ConfigManager_init nd t hm d) = Some st0" and run: "cm_run nd st0 st"
    and license: "json_at (cacheJson st) (str ''license'') = Some (JObject L)"
    and usable: "json_at (cacheJson st0) (str ''license'') = Some (JObject L) \<or> license_usable (JObject L)"
    and disk: "writable d cachePath" "readable d cachePath" "readable d configPath"
    and dump: "json_parse nd (json_dump nd (cacheJson st)) = cacheJson st" "json_dump nd (cacheJson st) \<noteq> []"
      "json_parse nd (json_dump nd (userConfigJson st)) = userConfigJson st" "json_dump nd (userConfigJson st) \<noteq> []"
    and offline: "fst (license_answer w') \<noteq> 200"
  shows "\<exists>st'. periodicStart nd w' (ConfigManager_init nd t' hm' (fs st)) = Some st' \<and>
    named (str ''base_server_addresses'') (JObject L) = Some (baseAddresses st') \<and>
    named (str ''api_servers'') (JObject L) = Some (apiAddresses st') \<and>
    named (str ''eb_servers'') (JObject L) = Some (ebAddresses st') \<and>
    (json_at (cacheJson st0) (str ''license'') = Some (JObject L) \<longrightarrow>
      baseAddresses st' = baseAddresses st \<and> apiAddresses st' = apiAddresses st \<and> ebAddresses st' = ebAddresses st)"
proof -
  let ?i = "ConfigManager_init nd t hm d" and ?i' = "ConfigManager_init nd t' hm' (fs st)"
  note first = started [OF start disk(1)]
  have od: "on_disk nd d (userConfigJson st0) st" by (rule on_disk_run [OF run first(1) disk(1)])
  then have uj: "userConfigJson st = userConfigJson st0" by (simp add: on_disk_def)
  have "readStorage (fs st) Key_cache = Some (json_dump nd (cacheJson st))"
    using od disk(2) by (simp add: on_disk_def readStorage_def readFile_def isFile_def cachePath_def)
  moreover have "cacheJson st \<noteq> JDiscarded" using license by auto
  moreover obtain j where j: "storeCache (cacheJson st) ?i' = Some (?i'\<lparr>cacheJson := j\<rparr>)" "json_at j (str ''license'') = Some (JObject L)"
    using storeCache_ok [of ?i' "cacheJson st"] license by (auto simp: ConfigManager_init_def)
  ultimately have r: "readCache nd ?i' = Some (True, ?i'\<lparr>cacheJson := j\<rparr>)" (is "_ = Some (True, ?b)")
    using dump(1,2) by (simp add: readCache_def ConfigManager_init_def)
  obtain r1 b1 u v where u: "readUserConfig nd ?b = Some (r1, b1)"
    "(if r1 then updateUserConfigData b1 else Some b1) = Some (?b\<lparr>userConfigJson := u, userWhitelist := v\<rparr>)" (is "_ = Some ?c")
  proof -
    have "readStorage (fs ?b) Key_config = readStorage d Key_config \<or>
        readStorage (fs ?b) Key_config = Some (json_dump nd (userConfigJson st0))"
      using od disk(3) by (auto simp: on_disk_def readStorage_def readFile_def isFile_def configPath_def ConfigManager_init_def)
    from first(2) [of ?b, OF _ this] show ?thesis using dump(3,4) uj that by (auto simp: ConfigManager_init_def)
  qed
  have c: "json_at (cacheJson ?c) (str ''license'') = Some (JObject L)" "allowedPeers ?c = []" using j(2) by (simp_all add: ConfigManager_init_def)
  have "license_usable (JObject L)" using usable first(3) by blast
  then obtain e where e: "updateLicenseData ?c = Some e" using updateLicenseData_usable [OF c(1) _ c(2)] by blast
  have p: "periodicStart nd w' ?i' = Some (snd (writeCache nd e))"
    using r u e offline by (simp add: periodicStart_def fetchLicenseJson_def)
  have s: "servers (snd (writeCache nd e)) = servers e" by simp
  have "baseAddresses st = baseAddresses st0" "apiAddresses st = apiAddresses st0" "ebAddresses st = ebAddresses st0"
    using servers_run [OF run] by (simp_all add: servers_def)
  then show ?thesis
    using p s updateLicenseData_named(1-3) [OF c(1) e] first(3) by (intro exI [of _ "snd (writeCache nd e)"]) (auto simp: servers_def)
qed

lemma toy_restart: "cacheJson (toy_config_state (Some [3])) = toy_cached" "baseAddresses (toy_config_state (Some [3])) \<noteq> []"
  by code_simp+

text \<open>A node whose first round downloads a license with another base server.\<close>

definition toy_newer :: json where
  "toy_newer = toy_license [str ''8.8.8.8''] [str ''fc94::1''] [str ''fc94::2'']"

definition toy_renewing :: config_node where
  "toy_renewing = toy_config
     \<lparr>json_parse := (\<lambda>d. if d = [4] then JObject [(str ''license'', toy_newer)] else if d = [5] then toy_newer else json_parse toy_config d),
      json_dump := (\<lambda>j. if j = JObject [] then str ''{}'' else if j = toy_cached then [3] else [4])\<rparr>"

definition toy_renewing_start :: "config_state option" where
  "toy_renewing_start = periodicStart toy_renewing (toy_config_world 0) (ConfigManager_init toy_renewing 0 (HooksManager_init False) (toy_disk (Some [3])))"

lemma toy_renewing_started:
  "case toy_renewing_start of None \<Rightarrow> False | Some st \<Rightarrow> cacheJson st = toy_cached \<and> userConfigJson st = JObject [] \<and> nextLicenseDownload st = 0 \<and>
     nextGetConfigUpdate st = 5000 \<and> baseAddresses st = [IpAddress ([0, 0, 0, 0, 0, 0, 0, 0, 0, 0, 255, 255, 9, 9, 9, 9])]"
  by code_simp

lemma toy_newer_servers:
  "named (str ''eb_servers'') toy_newer = Some [IpAddress ([0xfc, 0x94] @ replicate 13 0 @ [2])]"
  "named (str ''api_servers'') toy_newer = Some [IpAddress ([0xfc, 0x94] @ replicate 13 0 @ [1])]"
  "named (str ''base_server_addresses'') toy_newer = Some [IpAddress ([0, 0, 0, 0, 0, 0, 0, 0, 0, 0, 255, 255, 8, 8, 8, 8])]"
proof -
  have "parse_address (str ''fc94::2'') = Some (IpAddress ([0xfc, 0x94] @ replicate 13 0 @ [2]))"
    "parse_address (str ''fc94::1'') = Some (IpAddress ([0xfc, 0x94] @ replicate 13 0 @ [1]))"
    "parse_address (str ''8.8.8.8'') = Some (IpAddress ([0, 0, 0, 0, 0, 0, 0, 0, 0, 0, 255, 255, 8, 8, 8, 8]))"
    by code_simp+
  then show "named (str ''eb_servers'') toy_newer = Some [IpAddress ([0xfc, 0x94] @ replicate 13 0 @ [2])]"
    "named (str ''api_servers'') toy_newer = Some [IpAddress ([0xfc, 0x94] @ replicate 13 0 @ [1])]"
    "named (str ''base_server_addresses'') toy_newer = Some [IpAddress ([0, 0, 0, 0, 0, 0, 0, 0, 0, 0, 255, 255, 8, 8, 8, 8])]"
    by (simp_all add: named_def toy_newer_def toy_license_def)
qed

theorem offline_restart_witness:
  "\<exists>st0 st st'. toy_renewing_start = Some st0 \<and> cm_run toy_renewing st0 st \<and>
     periodicStart toy_renewing (toy_config_world 7) (ConfigManager_init toy_renewing 7 (HooksManager_init False) (fs st)) = Some st' \<and>
     named (str ''base_server_addresses'') toy_newer = Some (baseAddresses st') \<and> baseAddresses st' \<noteq> baseAddresses st0"
proof -
  obtain st0 where st0: "toy_renewing_start = Some st0" "cacheJson st0 = toy_cached" "userConfigJson st0 = JObject []"
    "nextLicenseDownload st0 = 0" "nextGetConfigUpdate st0 = 5000" "baseAddresses st0 = [IpAddress ([0, 0, 0, 0, 0, 0, 0, 0, 0, 0, 255, 255, 9, 9, 9, 9])]"
    using toy_renewing_started by (auto split: option.splits)
  have newer: "named (str ''base_server_addresses'') toy_newer \<noteq> Some (baseAddresses st0)"
    unfolding st0(6) toy_newer_servers by simp
  let ?w = "\<lparr>clock = 0, license_answer = (200, [5]), api_answer = (0, [])\<rparr>" and ?J = "JObject [(str ''license'', toy_newer)]"
  have "isLicenseValid (cm_crypto toy_renewing) toy_newer = Some True"
    using toy_license_valid by (simp add: toy_renewing_def toy_config_def toy_newer_def)
  moreover have "json_parse toy_renewing [5] = toy_newer" by (simp add: toy_renewing_def)
  moreover have "json_set toy_cached (str ''license'') toy_newer = Some ?J" by (simp add: toy_cached_def)
  ultimately have "periodicTick toy_renewing ?w st0 =
      Some (snd (writeCache toy_renewing (st0\<lparr>cacheJson := ?J, nextLicenseDownload := licenseRefreshPeriod\<rparr>)))" (is "_ = Some ?st")
    using st0(2,4,5) by (simp add: periodicTick_def fetchLicenseJson_def storeLicense_def)
  then have run: "cm_run toy_renewing st0 ?st" by (rule cm_more [OF cm_refl cm_tick])
  have st: "cacheJson ?st = ?J" "userConfigJson ?st = JObject []" using st0(3) by (simp_all add: write_disk)
  obtain L where L: "toy_newer = JObject L" by (simp add: toy_newer_def toy_license_def)
  have "json_at (cacheJson ?st) (str ''license'') = Some (JObject L)" using st(1) L by simp
  moreover have "license_usable (JObject L)" unfolding license_usable_def L [symmetric] toy_newer_servers by simp
  moreover have "writable (toy_disk (Some [3])) cachePath" "readable (toy_disk (Some [3])) cachePath" "readable (toy_disk (Some [3])) configPath"
    by (simp_all add: toy_disk_def)
  moreover have "json_parse toy_renewing (json_dump toy_renewing ?J) = ?J" "json_dump toy_renewing ?J \<noteq> []"
    "json_parse toy_renewing (json_dump toy_renewing (JObject [])) = JObject []" "json_dump toy_renewing (JObject []) \<noteq> []"
    by (simp_all add: toy_renewing_def toy_config_def toy_cached_def toy_newer_def toy_license_def)
  ultimately obtain st' where
    "periodicStart toy_renewing (toy_config_world 7) (ConfigManager_init toy_renewing 7 (HooksManager_init False) (fs ?st)) = Some st'"
    "named (str ''base_server_addresses'') (JObject L) = Some (baseAddresses st')"
    using offline_restart [OF st0(1) [unfolded toy_renewing_start_def] run, of L "toy_config_world 7" 7 "HooksManager_init False"] st
    by (auto simp: toy_config_world_def)
  moreover have "baseAddresses st' \<noteq> baseAddresses st0" using calculation(2) newer L by metis
  ultimately show ?thesis using st0(1) run unfolding L by blast
qed

end
