(* ===== verification/EventBus.thy ===== *)
theory EventBus
  imports WebSocket ConfigProps
begin

text \<open>
  \<open>eventbus.cpp\<close>: the event bus keeps a WebSocket to the control plane open and turns its messages
  into requests for an update of the configuration.  The callback of the WebSocket runs for each
  message, in order, before the read returns.

  The result: the only message the event bus acts on is the text \<open>get_config\<close>, and the next turn of
  the configuration manager after it asks the control plane for the configuration.
\<close>

record EventBus =
  eb_ws :: websocket
  eb_connected :: bool
  lastConnectionAttempt :: int

definition CONNECTION_ATTEMPT_INTERVAL :: int where "CONNECTION_ATTEMPT_INTERVAL = 1000"

definition EventBus_new :: EventBus where
  "EventBus_new = \<lparr>eb_ws = WebSocket_new, eb_connected = False, lastConnectionAttempt = 0\<rparr>"

definition eb_periodic ::
  "ws_lib \<Rightarrow> (bytes \<Rightarrow> int) \<Rightarrow> TcpConnection option \<Rightarrow> int \<Rightarrow> ipaddress \<Rightarrow> config_state \<Rightarrow> EventBus \<Rightarrow> (ws_effect list \<times> EventBus) option" where
  "eb_periodic lib send tcp now myAddress cfg eb =
     (if ws_state (eb_ws eb) = SOCK_CLOSED then
        let eb = eb\<lparr>eb_connected := False\<rparr> in
        if now - lastConnectionAttempt eb < CONNECTION_ATTEMPT_INTERVAL then Some ([], eb)
        else
          let eb = eb\<lparr>lastConnectionAttempt := now\<rparr>; epIp = getEbAddress cfg in
          if \<not> isFC94 epIp then Some ([], eb)
          else map_option (\<lambda>(out, ws). (out, eb\<lparr>eb_ws := ws\<rparr>))
            (ws_connect lib send tcp (InetAddress epIp 80) (str ''/device/'' @ toString_ip myAddress) (eb_ws eb))
      else if ws_state (eb_ws eb) = WS_OPEN then Some ([], eb\<lparr>eb_connected := True\<rparr>)
      else Some ([], eb))"

definition eb_handleMessage :: "int \<Rightarrow> Message \<Rightarrow> config_state \<Rightarrow> config_state" where
  "eb_handleMessage now msg cfg =
     (if opcode msg \<noteq> OP_TEXT then cfg
      else if length (msg_data msg) = 0 then cfg
      else if msg_data msg = str ''get_config'' then triggerGetConfig now cfg
      else cfg)"

fun eb_callback :: "int \<Rightarrow> ws_effect \<Rightarrow> config_state \<Rightarrow> config_state" where
  "eb_callback now (WsMessage msg) cfg = eb_handleMessage now msg cfg"
| "eb_callback now x cfg = cfg"

text \<open>Data from the connection: the read of the WebSocket with this callback.\<close>

definition eb_read ::
  "ws_lib \<Rightarrow> (bytes \<Rightarrow> int) \<Rightarrow> int \<Rightarrow> bytes \<Rightarrow> EventBus \<times> config_state \<Rightarrow> (ws_effect list \<times> EventBus \<times> config_state) option" where
  "eb_read lib send now buf s =
     (case s of (eb, cfg) \<Rightarrow>
        map_option (\<lambda>(out, ws). (out, eb\<lparr>eb_ws := ws\<rparr>, fold (eb_callback now) out cfg)) (ws_handleRead lib send buf (eb_ws eb)))"

definition eb_error :: "EventBus \<Rightarrow> EventBus" where
  "eb_error eb = eb\<lparr>eb_ws := snd (ws_close (eb_ws eb))\<rparr>"

section \<open>Properties\<close>

definition asks_update :: "Message \<Rightarrow> bool" where
  "asks_update msg \<longleftrightarrow> opcode msg = OP_TEXT \<and> msg_data msg = str ''get_config''"

lemma eb_callbacks:
  "fold (eb_callback now) (map WsMessage msgs) cfg = (if list_ex asks_update msgs then triggerGetConfig now cfg else cfg)"
proof (induction msgs arbitrary: cfg)
  case (Cons msg msgs)
  have "eb_handleMessage now msg cfg = (if asks_update msg then triggerGetConfig now cfg else cfg)"
    by (auto simp: eb_handleMessage_def asks_update_def)
  then show ?case using Cons by (simp add: triggerGetConfig_def)
qed simp

text \<open>C31: A segment of text and binary messages on an open event bus changes nothing but the time of the
  next update, and that exactly if one of them is the text \<open>get_config\<close>; then the next turn of the
  configuration manager asks the control plane, whatever the clock said before.\<close>

theorem event_bus_triggers_update:
  assumes "ws_state (eb_ws eb) = WS_OPEN" and "list_all2 encoded msgs segs" and "list_all (message_ok (char_signed lib)) msgs"
    and "list_all (\<lambda>m. opcode m = OP_TEXT \<or> opcode m = OP_BINARY) msgs"
  shows "\<exists>cfg'. eb_read lib send now (concat segs) (eb, cfg) = Some (map WsMessage msgs, eb, cfg') \<and>
    (\<not> list_ex asks_update msgs \<longrightarrow> cfg' = cfg) \<and>
    (list_ex asks_update msgs \<longrightarrow> cfg' = cfg\<lparr>nextGetConfigUpdate := now\<rparr> \<and>
      (\<forall>nd w st. getEnableControlplane (configEnv nd) \<and> now \<le> clock w \<and> clock w < nextLicenseDownload cfg \<and>
         fetchGetConfig nd w cfg' = Some st \<longrightarrow> periodicTick nd w cfg' = Some (snd (writeCache nd st))))"
proof -
  have "ws_handleRead lib send (concat segs) (eb_ws eb) = Some (map WsMessage msgs, eb_ws eb)"
    by (rule handleRead_texts [OF assms])
  then have "eb_read lib send now (concat segs) (eb, cfg) =
      Some (map WsMessage msgs, eb, if list_ex asks_update msgs then triggerGetConfig now cfg else cfg)"
    by (simp add: eb_read_def eb_callbacks)
  then show ?thesis by (auto simp: triggerGetConfig_def periodicTick_def Let_def)
qed

definition toy_event_bus :: EventBus where
  "toy_event_bus = EventBus_new\<lparr>eb_ws := toy_ws WS_OPEN, eb_connected := True\<rparr>"

theorem event_bus_triggers_update_witness:
  "\<exists>cfg'. eb_read toy_lib (\<lambda>_. 0) 4 (frame [1, 2, 3, 4] (toy_text (str ''get_config'')))
     (toy_event_bus, toy_config_state (Some [3])) =
       Some ([WsMessage (toy_text (str ''get_config''))], toy_event_bus, cfg') \<and> nextGetConfigUpdate cfg' = 4"
proof -
  let ?m = "toy_text (str ''get_config'')"
  have "list_all2 encoded [?m] [frame [1, 2, 3, 4] ?m]"
    using toy_encoded [of ?m] by (simp add: toy_text_def DATA_CAPACITY_def)
  moreover have "list_all (message_ok (char_signed toy_lib)) [?m]" "list_all (\<lambda>m. opcode m = OP_TEXT \<or> opcode m = OP_BINARY) [?m]"
    "list_ex asks_update [?m]"
    by (simp_all add: message_ok_def toy_text_def Message_of_def size_ok_def OP_TEXT_def asks_update_def)
  moreover have "ws_state (eb_ws toy_event_bus) = WS_OPEN" by (simp add: toy_event_bus_def toy_ws_def)
  ultimately show ?thesis
    using event_bus_triggers_update [of toy_event_bus "[?m]" "[frame [1, 2, 3, 4] ?m]" toy_lib "\<lambda>_. 0" 4] by fastforce
qed

end
