(* ===== verification/ApiServer.thy ===== *)
theory ApiServer
  imports ConfigProps
begin

text \<open>
  \<open>api_server/server.cpp\<close>, \<open>dashboardapi/proxy.cpp\<close> and the requests of \<open>dashboardapi/response.cpp\<close>:
  the HTTP interface the command line tool uses, and the signed requests to the control plane.
  The HTTP library hands a handler the headers, the parameters and the part of the path matched by
  the route; it and the URL-safe base64 encoder are parameters.  Requests to the control plane are
  effects, and the environment answers each attempt.

  The results: without the secret no request changes the configuration or reaches the control
  plane; a forwarded request is signed with the node's key and sent at most three times; the
  secret is created once and read back at the next start.
\<close>

section \<open>Requests and answers\<close>

record http_request =
  header :: "bytes \<Rightarrow> bytes option"
  param :: "bytes \<Rightarrow> bytes option"
  matched :: bytes
  http_method :: bytes
  http_body :: bytes

datatype content = Plain bytes | Document json | Relayed bytes

record http_response =
  http_status :: int
  http_content :: content

record api_call =
  call_address :: ipaddress
  call_method :: bytes
  call_path :: bytes
  call_body :: bytes

record api_env =
  api_crypto :: crypto
  api_identity :: identity
  base64url :: "bytes \<Rightarrow> bytes"
  query_string :: "(bytes \<times> bytes) list \<Rightarrow> bytes"
  version :: bytes
  user_agent :: bytes
  empty_error :: bytes

definition answer :: "content \<Rightarrow> http_response" where
  "answer c = \<lparr>http_status = 200, http_content = c\<rparr>"

definition returnSuccess :: "json \<Rightarrow> http_response" where
  "returnSuccess result = answer (Document (JObject [(str ''status'', JString (str ''success'')), (str ''result'', result)]))"

definition returnInvalidQuery :: "bytes \<Rightarrow> http_response" where
  "returnInvalidQuery e = answer (Document (JObject [(str ''status'', JString (str ''invalid'')), (str ''error'', JString e)]))"

definition returnError :: "bytes \<Rightarrow> http_response" where
  "returnError e = answer (Document (JObject [(str ''status'', JString (str ''error'')), (str ''error'', JString e)]))"

section \<open>The secret\<close>

text \<open>The token, the file system and the position of the random generator.\<close>

definition getOrCreateDaemonApiToken :: "(nat \<Rightarrow> byte) \<Rightarrow> nat \<Rightarrow> filesystem \<Rightarrow> (bytes \<times> filesystem \<times> nat) option" where
  "getOrCreateDaemonApiToken uni k disk =
     (case readStorage disk Key_daemonApiToken of
        None \<Rightarrow> None
      | Some token \<Rightarrow>
          if token = [] then
            let (newToken, k) = generateRandomString uni k 32;
                (success, disk) = writeStorage Key_daemonApiToken newToken disk
            in Some (newToken, disk, k)
          else Some (token, disk, k))"

definition validateSecret :: "bytes \<Rightarrow> http_request \<Rightarrow> http_response option" where
  "validateSecret token req =
     (if header req (str ''x-husarnet-secret'') = Some token then None
      else if param req (str ''secret'') \<noteq> Some token then Some (returnInvalidQuery (str ''invalid control secret''))
      else None)"

fun requireParams :: "http_request \<Rightarrow> bytes list \<Rightarrow> http_response option" where
  "requireParams req [] = None"
| "requireParams req (n # ns) =
     (if param req n = None then Some (returnInvalidQuery (str ''missing param '' @ n)) else requireParams req ns)"

section \<open>Requests to the control plane\<close>

definition encodePublicKey :: "api_env \<Rightarrow> bytes" where
  "encodePublicKey e = base64url e (pubkey (api_identity e))"

definition encodeSignature :: "api_env \<Rightarrow> bytes \<Rightarrow> bytes" where
  "encodeSignature e d = base64url e (Identity_sign (api_crypto e) (api_identity e) d)"

definition postHeartbeat :: "api_env \<Rightarrow> ipaddress \<Rightarrow> api_call" where
  "postHeartbeat e a =
     (let d = str ''{\"user_agent\":\"'' @ user_agent e @ [34, 125] in
      \<lparr>call_address = a, call_method = str ''POST'',
       call_path = str ''/v3/device/manage/heartbeat'' @ str ''?pk='' @ encodePublicKey e @ str ''&sig='' @ encodeSignature e d,
       call_body = d\<rparr>)"

definition postClaim :: "api_env \<Rightarrow> ipaddress \<Rightarrow> bytes \<Rightarrow> bytes \<Rightarrow> api_call" where
  "postClaim e a code host =
     (let d = str ''{\"code\":\"'' @ code @ str ''\",\"hostname\":\"'' @ host @ [34, 125] in
      \<lparr>call_address = a, call_method = str ''POST'',
       call_path = str ''/v3/device/manage/claim'' @ str ''?pk='' @ encodePublicKey e @ str ''&sig='' @ encodeSignature e d,
       call_body = d\<rparr>)"

definition getConfig_call :: "ipaddress \<Rightarrow> api_call" where
  "getConfig_call a = \<lparr>call_address = a, call_method = str ''GET'', call_path = str ''/v3/device/get_config'', call_body = []\<rparr>"

text \<open>The attempts of a forwarded request: the answers of the control plane, \<open>Inl\<close> an error.\<close>

fun attempts :: "nat \<Rightarrow> (bytes + bytes) list \<Rightarrow> bytes \<Rightarrow> nat \<times> (bytes + bytes)" where
  "attempts 0 rs err = (0, Inl err)"
| "attempts (Suc n) [] err = (0, Inl err)"
| "attempts (Suc n) (Inr b # rs) err = (1, Inr b)"
| "attempts (Suc n) (Inl e # rs) err = (case attempts n rs e of (k, r) \<Rightarrow> (k + 1, r))"

definition maxRetries :: nat where "maxRetries = 3"

definition server_error :: "bytes \<Rightarrow> json" where
  "server_error e = JObject [(str ''type'', JString (str ''server_error'')), (str ''errors'', JArray [JString e]),
     (str ''warnings'', JArray []), (str ''message'', JString (str ''error''))]"

text \<open>\<open>Get\<close> and \<open>Delete\<close> of the HTTP client send no body.  With any other method (\<open>HEAD\<close> is routed like \<open>GET\<close>)
  an attempt sends nothing and has the error of an empty result.\<close>

definition attemptRequest :: "ipaddress \<Rightarrow> bytes \<Rightarrow> http_request \<Rightarrow> api_call option" where
  "attemptRequest apiAddress pathWithQuery req =
     (if http_method req = str ''GET'' \<or> http_method req = str ''DELETE''
      then Some \<lparr>call_address = apiAddress, call_method = http_method req, call_path = pathWithQuery, call_body = []\<rparr>
      else if http_method req = str ''POST'' \<or> http_method req = str ''PUT''
      then Some \<lparr>call_address = apiAddress, call_method = http_method req, call_path = pathWithQuery, call_body = http_body req\<rparr>
      else None)"

definition forwardRequestToDashboardApi ::
  "api_env \<Rightarrow> bytes \<Rightarrow> config_state \<Rightarrow> (bytes + bytes) list \<Rightarrow> http_request \<Rightarrow> http_response \<times> api_call list" where
  "forwardRequestToDashboardApi e token cfg results req =
     (case validateSecret token req of
        Some res \<Rightarrow> (res, [])
      | None \<Rightarrow>
          let route = matched req in
          if route = [] then (returnError (str ''Invalid route''), [])
          else
            let apiAddress = getApiAddress cfg in
            if \<not> isFC94 apiAddress
            then (answer (Document (server_error (str ''request received by the daemon, but dashboard API address is not known''))), [])
            else
              let query = query_string e [(str ''pk'', encodePublicKey e), (str ''sig'', encodeSignature e (http_body req))];
                  attempt = attemptRequest apiAddress ([47] @ route @ [63] @ query) req;
                  sent = (\<lambda>k. case attempt of None \<Rightarrow> [] | Some call \<Rightarrow> replicate k call)
              in case attempts maxRetries (if attempt = None then replicate maxRetries (Inl (empty_error e)) else results) [] of
                   (k, Inr b) \<Rightarrow> (answer (Relayed b), sent k)
                 | (k, Inl err) \<Rightarrow> (\<lparr>http_status = 503, http_content = Document (server_error err)\<rparr>, sent k))"

section \<open>Routes\<close>

datatype route = Hi | Status | WhitelistAdd | WhitelistRm | Forward

text \<open>\<open>live\<close> is the manager's part of the status.  \<open>None\<close> is an exception or an exit.\<close>

definition api_handle ::
  "api_env \<Rightarrow> config_node \<Rightarrow> bool \<Rightarrow> json \<Rightarrow> bytes \<Rightarrow> (bytes + bytes) list \<Rightarrow> route \<Rightarrow> http_request \<Rightarrow> config_state \<Rightarrow>
     (http_response \<times> api_call list \<times> config_state) option" where
  "api_handle e nd debug_build live token results r req cfg =
     (case r of
        Hi \<Rightarrow> Some (answer (Plain (str ''Hello World!'')), [], cfg)
      | Status \<Rightarrow> do {
          config \<leftarrow> getDataForStatus debug_build nd cfg;
          Some (returnSuccess (JObject [(str ''config'', config), (str ''live'', live), (str ''version'', JString (version e)),
            (str ''user_agent'', JString (user_agent e))]), [], cfg)
        }
      | WhitelistAdd \<Rightarrow>
          (case validateSecret token req of
             Some res \<Rightarrow> Some (res, [], cfg)
           | None \<Rightarrow>
               (case requireParams req [str ''address''] of
                  Some res \<Rightarrow> Some (res, [], cfg)
                | None \<Rightarrow> do {
                    a \<leftarrow> parse_address (the (param req (str ''address'')));
                    (ok, cfg) \<leftarrow> userWhitelistAdd nd a cfg;
                    Some (if ok then returnSuccess JNull else returnError (str ''Failed to add address to whitelist''), [], cfg)
                  }))
      | WhitelistRm \<Rightarrow>
          (case validateSecret token req of
             Some res \<Rightarrow> Some (res, [], cfg)
           | None \<Rightarrow>
               (case requireParams req [str ''address''] of
                  Some res \<Rightarrow> Some (res, [], cfg)
                | None \<Rightarrow> do {
                    a \<leftarrow> parse_address (the (param req (str ''address'')));
                    let (ok, cfg) = userWhitelistRm a cfg;
                    Some (if ok then returnSuccess JNull else returnError (str ''Failed to remove address from whitelist''), [], cfg)
                  }))
      | Forward \<Rightarrow>
          let (res, calls) = forwardRequestToDashboardApi e token cfg results req in Some (res, calls, cfg))"

text \<open>The address the server listens on; \<open>ifAddress\<close> is the answer of the port for an interface.\<close>

definition apiBindAddress :: "(bytes \<Rightarrow> ipaddress) \<Rightarrow> (EnvKey \<Rightarrow> bytes option) \<Rightarrow> ipaddress option" where
  "apiBindAddress ifAddress env =
     (if getDaemonApiInterface env \<noteq> [] then Some (ifAddress (getDaemonApiInterface env)) else getDaemonApiHost [0, 0, 0, 0] env)"

section \<open>Properties\<close>

definition has_secret :: "bytes \<Rightarrow> http_request \<Rightarrow> bool" where
  "has_secret token req \<longleftrightarrow> header req (str ''x-husarnet-secret'') = Some token \<or> param req (str ''secret'') = Some token"

lemma validateSecret_None: "validateSecret token req = None \<longleftrightarrow> has_secret token req"
  by (auto simp: validateSecret_def has_secret_def)

lemma validateSecret_Some: "\<not> has_secret token req \<Longrightarrow> validateSecret token req = Some (returnInvalidQuery (str ''invalid control secret''))"
  by (auto simp: validateSecret_def has_secret_def)

text \<open>C32: A request without the secret, in the header or in the parameter, changes nothing and causes no
  request to the control plane; unless it asks for the greeting or the status, it is answered as
  invalid.\<close>

theorem api_requires_secret:
  assumes "api_handle e nd dbg live token results r req cfg = Some (res, calls, cfg')" and "\<not> has_secret token req"
  shows "cfg' = cfg \<and> calls = [] \<and> (r \<noteq> Hi \<and> r \<noteq> Status \<longrightarrow> res = returnInvalidQuery (str ''invalid control secret''))"
  using assms(1) validateSecret_Some [OF assms(2)]
  by (cases r) (auto simp: api_handle_def forwardRequestToDashboardApi_def success)

text \<open>A whitelist request with the secret and the printed form of an address allows exactly that
  address in addition, if there is room.\<close>

theorem api_whitelist_add:
  assumes "has_secret token req" and "param req (str ''address'') = Some (toString_ip a)" and "ip_wf a"
    and "a \<notin> set (userWhitelist cfg)" and "length (userWhitelist cfg) < USER_WHITELIST_SIZE_LIMIT"
  shows "\<exists>cfg'. api_handle e nd dbg live token results WhitelistAdd req cfg = Some (returnSuccess JNull, [], cfg') \<and>
    (\<forall>x. cm_isPeerAllowed cfg' x \<longleftrightarrow> x = a \<or> cm_isPeerAllowed cfg x)"
proof -
  have "parse_address (toString_ip a) = Some a" by (rule IpAddress_parse_toString [OF assms(3)]) simp
  moreover obtain s where s: "etl_insert USER_WHITELIST_SIZE_LIMIT a (userWhitelist cfg) = Some s" "set s = insert a (set (userWhitelist cfg))"
    using assms(4,5) by (auto simp: etl_insert_def set_insort_key)
  moreover have "cm_isPeerAllowed (snd (writeUserConfig nd (cfg\<lparr>userWhitelist := s\<rparr>))) x \<longleftrightarrow> x = a \<or> cm_isPeerAllowed cfg x" for x
    using s(2) by (auto simp: cm_isPeerAllowed_def writeUserConfig_def split: prod.splits)
  moreover have "validateSecret token req = None" "requireParams req [str ''address''] = None"
    using assms(1,2) by (simp_all add: validateSecret_None)
  ultimately show ?thesis
    using assms(2,4,5) by (simp add: api_handle_def userWhitelistAdd_def)
qed

text \<open>The attempts end with the first answer, or after all of them.\<close>

lemma attempts_first:
  "attempts n rs err = (k, r) \<Longrightarrow>
     k \<le> n \<and> (0 < n \<and> rs \<noteq> [] \<longrightarrow> 1 \<le> k) \<and> (\<forall>b. find (\<lambda>r. \<not> isl r) (take n rs) = Some (Inr b) \<longrightarrow> r = Inr b) \<and>
     (n \<le> length rs \<and> find (\<lambda>r. \<not> isl r) (take n rs) = None \<longrightarrow> k = n \<and> isl r)"
  by (induction n rs err arbitrary: k r rule: attempts.induct) (auto split: prod.splits)

text \<open>A forwarded request is sent to the first API server of the license, at most three times and
  each time the same, with the node's public key and its signature of the body, and with the body
  itself if it is posted or put; the answer is that of the first attempt that has one, otherwise 503.\<close>

theorem api_forward:
  assumes "has_secret token req" and "matched req \<noteq> []" and "isFC94 (getApiAddress cfg)" and "3 \<le> length results"
    and "http_method req \<in> {str ''GET'', str ''DELETE'', str ''POST'', str ''PUT''}"
    and "forwardRequestToDashboardApi e token cfg results req = (res, calls)"
  shows "\<exists>k call. calls = replicate k call \<and> 1 \<le> k \<and> k \<le> 3 \<and> call_address call = getApiAddress cfg \<and>
    call_method call = http_method req \<and> call_body call = (if http_method req \<in> {str ''POST'', str ''PUT''} then http_body req else []) \<and>
    call_path call = [47] @ matched req @ [63] @ query_string e [(str ''pk'', base64url e (pubkey (api_identity e))),
      (str ''sig'', base64url e (Identity_sign (api_crypto e) (api_identity e) (http_body req)))] \<and>
    (\<forall>b. find (\<lambda>r. \<not> isl r) (take 3 results) = Some (Inr b) \<longrightarrow> http_content res = Relayed b) \<and>
    (find (\<lambda>r. \<not> isl r) (take 3 results) = None \<longrightarrow> k = 3 \<and> http_status res = 503)"
proof -
  obtain k r where k: "attempts 3 results [] = (k, r)" by (cases "attempts 3 results []")
  let ?call = "\<lparr>call_address = getApiAddress cfg, call_method = http_method req, call_path = [47] @ matched req @ [63] @
    query_string e [(str ''pk'', encodePublicKey e), (str ''sig'', encodeSignature e (http_body req))],
    call_body = (if http_method req \<in> {str ''POST'', str ''PUT''} then http_body req else [])\<rparr>"
  have "attemptRequest (getApiAddress cfg) ([47] @ matched req @ [63] @
      query_string e [(str ''pk'', encodePublicKey e), (str ''sig'', encodeSignature e (http_body req))]) req = Some ?call"
    using assms(5) by (auto simp: attemptRequest_def)
  note call = this
  have v: "validateSecret token req = None" using assms(1) by (simp add: validateSecret_None)
  have "calls = replicate k ?call" "r = Inr b \<Longrightarrow> http_content res = Relayed b" "isl r \<Longrightarrow> http_status res = 503" for b
    using assms(2,3,6) v k unfolding forwardRequestToDashboardApi_def Let_def call
    by (auto simp: maxRetries_def answer_def split: sum.splits)
  moreover have "results \<noteq> []" using assms(4) by auto
  ultimately show ?thesis
    using attempts_first [OF k] assms(4)
    by (intro exI [of _ k] exI [of _ ?call]) (simp add: encodePublicKey_def encodeSignature_def)
qed

text \<open>The first start creates a secret of 32 characters, and every later start reads it back.\<close>

lemma token_persistent:
  assumes "writable d tokenPath" "readable d tokenPath" "files d tokenPath = None" and "tokenPath = configDir @ storageMap Key_daemonApiToken"
  shows "\<exists>token d' k'. getOrCreateDaemonApiToken uni k d = Some (token, d', k') \<and> length token = 32 \<and>
    getOrCreateDaemonApiToken uni' k'' d' = Some (token, d', k'')"
  using assms by (auto simp: getOrCreateDaemonApiToken_def readStorage_def writeStorage_def readFile_def writeFile_def isFile_def
      generateRandomString_def)

section \<open>Concrete requests\<close>

definition toy_api :: api_env where
  "toy_api = \<lparr>api_crypto = toy_crypto, api_identity = Identity_default, base64url = (\<lambda>d. take 4 d),
     query_string = (\<lambda>ps. concat (map (\<lambda>(k, v). k @ [61] @ v) ps)), version = [], user_agent = [], empty_error = []\<rparr>"

definition toy_http :: "bytes option \<Rightarrow> bytes \<Rightarrow> http_request" where
  "toy_http secret a = \<lparr>header = (\<lambda>n. if n = str ''x-husarnet-secret'' then secret else None),
     param = (\<lambda>n. if n = str ''address'' then Some a else None), matched = str ''x'', http_method = str ''GET'', http_body = [1]\<rparr>"

theorem api_requires_secret_witness:
  "\<exists>res. api_handle toy_api toy_config False JNull [7] [] WhitelistAdd (toy_http None (str ''fc94::7'')) (toy_config_state (Some [3])) =
     Some (res, [], toy_config_state (Some [3])) \<and> res = returnInvalidQuery (str ''invalid control secret'')"
proof -
  let ?req = "toy_http None (str ''fc94::7'')"
  have n: "\<not> has_secret [7] ?req" by (simp add: has_secret_def toy_http_def)
  then obtain res calls cfg where h: "api_handle toy_api toy_config False JNull [7] [] WhitelistAdd ?req (toy_config_state (Some [3])) = Some (res, calls, cfg)"
    using validateSecret_Some by (simp add: api_handle_def)
  from api_requires_secret [OF h n] h show ?thesis by auto
qed

theorem api_whitelist_add_witness:
  "\<exists>cfg'. api_handle toy_api toy_config False JNull [7] [] WhitelistAdd (toy_http (Some [7]) (toString_ip (IpAddress (replicate 16 9))))
     (ConfigManager_init toy_config 0 (HooksManager_init False) (toy_disk None)) = Some (returnSuccess JNull, [], cfg') \<and>
     cm_isPeerAllowed cfg' (IpAddress (replicate 16 9))"
proof -
  let ?req = "toy_http (Some [7]) (toString_ip (IpAddress (replicate 16 9)))" and ?cfg = "ConfigManager_init toy_config 0 (HooksManager_init False) (toy_disk None)"
  have "has_secret [7] ?req" "param ?req (str ''address'') = Some (toString_ip (IpAddress (replicate 16 9)))"
    by (simp_all add: has_secret_def toy_http_def)
  moreover have "ip_wf (IpAddress (replicate 16 9))" "IpAddress (replicate 16 9) \<notin> set (userWhitelist ?cfg)"
    "length (userWhitelist ?cfg) < USER_WHITELIST_SIZE_LIMIT"
    by (simp_all add: ip_wf_def ConfigManager_init_def USER_WHITELIST_SIZE_LIMIT_def)
  ultimately show ?thesis using api_whitelist_add [of "[7]" ?req "IpAddress (replicate 16 9)" ?cfg toy_api toy_config] by blast
qed

lemma toy_api_address: "isFC94 (getApiAddress (toy_config_state (Some [3])))"
  by code_simp

theorem api_forward_witness:
  "http_content (fst (forwardRequestToDashboardApi toy_api [7] (toy_config_state (Some [3])) [Inl [], Inr [5], Inr [6]] (toy_http (Some [7]) []))) =
     Relayed [5]"
proof -
  let ?f = "forwardRequestToDashboardApi toy_api [7] (toy_config_state (Some [3])) [Inl [], Inr [5], Inr [6]] (toy_http (Some [7]) [])"
  have "has_secret [7] (toy_http (Some [7]) [])" "matched (toy_http (Some [7]) []) \<noteq> []" by (simp_all add: has_secret_def toy_http_def)
  from api_forward [OF this toy_api_address, of "[Inl [], Inr [5], Inr [6]]" toy_api "fst ?f" "snd ?f"]
  show ?thesis by (auto simp: toy_http_def)
qed

end
