(* ===== verification/Daemon.thy ===== *)
theory Daemon
  imports StackProps EventBus ApiServer
begin

text \<open>
  \<open>husarnet_manager.cpp\<close> and \<open>ports/linux/tun.cpp\<close>: the running daemon, in which the configuration
  manager decides on peers, multicast destinations and base servers, the select loop delivers
  datagrams, packets of the tunnel interface and TCP data, the stack and the event bus handle them,
  and the threads run between.  A call of a callback runs to its end; the callbacks of one round are
  the events of \<open>runOnce\<close>, in their order.  Which closure the callback of a TCP connection is (a
  connection to a base server, with its number, or that of the event bus) comes from the environment.

  The results compose those of the components: the base servers the stack divides by are never
  missing, because the daemon waits for a license and no step of the configuration manager removes
  them; a round of the loop returns unless it brings the one datagram that aborts the stack; and a
  peer has a place in the peer table only if the configuration allowed it at some time.
\<close>

section \<open>The tunnel interface\<close>

definition TUN_BUFFER_SIZE :: nat where "TUN_BUFFER_SIZE = 4096"

text \<open>What \<open>read\<close> returns, empty for an error, and whether \<open>errno\<close> is \<open>EAGAIN\<close>.\<close>

record tun_read =
  tun_bytes :: bytes
  tun_eagain :: bool

definition onTunData :: "tun_read \<Rightarrow> int \<Rightarrow> bytes option \<times> int" where
  "onTunData r fd =
     (let d = take TUN_BUFFER_SIZE (tun_bytes r) in
      if length d \<le> 0 then (None, if tun_eagain r then fd else -1) else (Some d, fd))"

section \<open>Status\<close>

definition peerStatus :: "int \<Rightarrow> peer \<Rightarrow> json" where
  "peerStatus t p = JObject [(str ''address'', JString (toString_ip (peer_id p))), (str ''is_active'', JBool (isActive t p)),
     (str ''is_reestablishing'', JBool (isReestablishing p)), (str ''is_tunelled'', JBool (isTunelled p)),
     (str ''is_secure'', JBool (isSecure p))]"

definition connectionName :: "BaseConnectionType \<Rightarrow> bytes" where
  "connectionName t = (case t of BaseNone \<Rightarrow> str ''None'' | BaseTCP \<Rightarrow> str ''TCP'' | BaseUDP \<Rightarrow> str ''UDP'')"

definition manager_getDataForStatus :: "node \<Rightarrow> env \<Rightarrow> ng_state \<Rightarrow> EventBus \<Rightarrow> json" where
  "manager_getDataForStatus nd e st eb =
     (let baseConnectionType = getCurrentBaseConnectionType e st;
          currentBaseAddress = getCurrentBaseAddress e st
      in JObject
        [(str ''local_ip'', JString (toString_ip (deviceId (myIdentity nd)))),
         (str ''base_connection'', JObject
           [(str ''type'', JString (connectionName baseConnectionType)),
            (str ''address'', JString (toString_ip (ip_of currentBaseAddress))),
            (str ''port'', JInt (uint (port_of currentBaseAddress)))]),
         (str ''dashboard_connection'', JBool (eb_connected eb)),
         (str ''health'', JObject [(str ''summary'', JBool (baseConnectionType \<noteq> BaseNone \<and> eb_connected eb))]),
         (str ''peers'', JArray (map (\<lambda>(i, p). peerStatus (now e) (deref st p)) (getPeers st)))])"

section \<open>The event loop\<close>

datatype callback = UnicastCb | MulticastCb | TunCb

record daemon =
  config :: config_state
  stack :: ng_state
  bus :: EventBus
  tun :: int

record loop_env =
  stack_env :: env
  bus_lib :: ws_lib
  bus_send :: "bytes \<Rightarrow> int"
  tun_next :: tun_read
  tcp_owner :: "callback sock_event \<Rightarrow> nat option"

definition node_at :: "config_state \<Rightarrow> node \<Rightarrow> node" where
  "node_at cfg nd = nd\<lparr>isPeerAllowed := cm_isPeerAllowed cfg\<rparr>"

definition env_at :: "config_state \<Rightarrow> env \<Rightarrow> env" where
  "env_at cfg e = e\<lparr>getBaseAddresses := baseAddresses cfg\<rparr>"

definition dests_at :: "config_state \<Rightarrow> HusarnetAddress \<Rightarrow> HusarnetAddress list" where
  "dests_at cfg g = (case getMulticastDestinations cfg g of Some ds \<Rightarrow> ds | None \<Rightarrow> [])"

definition onStack :: "node \<Rightarrow> env \<Rightarrow> stack_event \<Rightarrow> daemon \<Rightarrow> (net list \<times> daemon) option" where
  "onStack nd e x d =
     map_option (\<lambda>(out, st). (out, d\<lparr>stack := st\<rparr>)) (stack_handle (node_at (config d) nd) (env_at (config d) e) x (stack d))"

definition onTun :: "node \<Rightarrow> loop_env \<Rightarrow> daemon \<Rightarrow> (net list \<times> daemon) option" where
  "onTun nd l d =
     (case onTunData (tun_next l) (tun d) of
        (None, fd) \<Rightarrow> Some ([], d\<lparr>tun := fd\<rparr>)
      | (Some packet, fd) \<Rightarrow> onStack nd (stack_env l) (TunPacket (dests_at (config d)) packet) (d\<lparr>tun := fd\<rparr>))"

definition onBus :: "loop_env \<Rightarrow> bytes \<Rightarrow> daemon \<Rightarrow> (net list \<times> daemon) option" where
  "onBus l buf d =
     map_option (\<lambda>(out, eb, cfg). ([], d\<lparr>bus := eb, config := cfg\<rparr>))
       (eb_read (bus_lib l) (bus_send l) (now (stack_env l)) buf (bus d, config d))"

fun dispatch :: "node \<Rightarrow> loop_env \<Rightarrow> callback sock_event \<Rightarrow> daemon \<Rightarrow> (net list \<times> daemon) option" where
  "dispatch nd l (UdpCallback cb a x) d =
     (case cb of
        UnicastCb \<Rightarrow> onStack nd (stack_env l) (SocketEvent (Udp a x)) d
      | MulticastCb \<Rightarrow> onStack nd (stack_env l) (SocketEvent (Multicast a x)) d
      | TunCb \<Rightarrow> Some ([], d))"
| "dispatch nd l (CustomCallback cb) d = (if cb = TunCb then onTun nd l d else Some ([], d))"
| "dispatch nd l (DataCallback fd x) d =
     (case tcp_owner l (DataCallback fd x) of
        Some c \<Rightarrow> onStack nd (stack_env l) (SocketEvent (TcpData x)) d
      | None \<Rightarrow> onBus l x d)"
| "dispatch nd l (ErrorCallback conn) d =
     (case tcp_owner l (ErrorCallback conn) of
        Some c \<Rightarrow> onStack nd (stack_env l) (SocketEvent (TcpError c)) d
      | None \<Rightarrow> Some ([], d\<lparr>bus := eb_error (bus d)\<rparr>))"

primrec dispatchAll :: "node \<Rightarrow> loop_env \<Rightarrow> callback sock_event list \<Rightarrow> daemon \<Rightarrow> (net list \<times> daemon) option" where
  "dispatchAll nd l [] d = Some ([], d)"
| "dispatchAll nd l (x # xs) d =
     (case dispatch nd l x d of
        None \<Rightarrow> None
      | Some (out, d) \<Rightarrow> map_option (\<lambda>(later, d). (out @ later, d)) (dispatchAll nd l xs d))"

text \<open>One turn of the loop of \<open>runHusarnet\<close>: the periodic work of the socket and a round of \<open>select\<close>.\<close>

definition loopRound :: "node \<Rightarrow> loop_env \<Rightarrow> world \<Rightarrow> callback sockets \<Rightarrow> daemon \<Rightarrow> (net list \<times> daemon) option" where
  "loopRound nd l w socks d =
     (case onStack nd (stack_env l) (SocketEvent Periodic) d of
        None \<Rightarrow> None
      | Some (out, d) \<Rightarrow> map_option (\<lambda>(later, d). (out @ later, d)) (dispatchAll nd l (fst (runOnce w socks)) d))"

section \<open>Runs\<close>

text \<open>\<open>prepareHusarnet\<close> waits until the configuration is initialised; \<open>runHusarnet\<close> then builds the
  stack.\<close>

definition daemon_start :: "node \<Rightarrow> config_node \<Rightarrow> daemon \<Rightarrow> bool" where
  "daemon_start nd cnd d \<longleftrightarrow>
     cm_reachable cnd (config d) \<and> initialised (config d) \<and> bus d = EventBus_new \<and>
     (\<exists>q listen k. NgSocket nd q listen (SecurityLayer nd k) = Some (stack d))"

text \<open>The steps: callbacks of the loop, its periodic work, and the threads: the worker of the socket,
  the configuration manager and the event bus.\<close>

inductive daemon_step :: "node \<Rightarrow> config_node \<Rightarrow> daemon \<Rightarrow> daemon \<Rightarrow> bool" for nd cnd where
  step_callback: "dispatch nd l x d = Some (out, d') \<Longrightarrow> daemon_step nd cnd d d'"
| step_periodic: "onStack nd e (SocketEvent Periodic) d = Some (out, d') \<Longrightarrow> daemon_step nd cnd d d'"
| step_worker: "onStack nd e (SocketEvent Worker) d = Some (out, d') \<Longrightarrow> daemon_step nd cnd d d'"
| step_config: "cm_step cnd (config d) cfg \<Longrightarrow> daemon_step nd cnd d (d\<lparr>config := cfg\<rparr>)"
| step_bus: "eb_periodic lib send tcp t a (config d) (bus d) = Some (out, eb) \<Longrightarrow> daemon_step nd cnd d (d\<lparr>bus := eb\<rparr>)"

inductive daemon_run :: "node \<Rightarrow> config_node \<Rightarrow> daemon \<Rightarrow> daemon \<Rightarrow> bool" for nd cnd where
  run_refl: "daemon_run nd cnd d d"
| run_step: "daemon_run nd cnd d d1 \<Longrightarrow> daemon_step nd cnd d1 d2 \<Longrightarrow> daemon_run nd cnd d d2"

section \<open>The invariant\<close>

definition daemon_inv :: "node \<Rightarrow> config_node \<Rightarrow> daemon \<Rightarrow> bool" where
  "daemon_inv nd cnd d \<longleftrightarrow> stack_reachable nd (stack d) \<and> cm_reachable cnd (config d) \<and> initialised (config d)"

definition daemon_node :: "node \<Rightarrow> bool" where
  "daemon_node nd \<longleftrightarrow> crypto_sizes (node_crypto nd) \<and> node_wf nd"

lemma ng_env_at: "daemon_node nd \<Longrightarrow> initialised cfg \<Longrightarrow> ng_env nd (env_at cfg e)"
  by (simp add: ng_env_def daemon_node_def initialised_def env_at_def)

lemma dests_at_wf: "cm_reachable cnd cfg \<Longrightarrow> list_all ip_wf (dests_at cfg g)"
  using cm_reachable_inv [of cnd cfg] getMulticastDestinations_all [of cfg g] by (auto simp: dests_at_def cm_inv_def list_all_iff)

lemma onTunData_size: "onTunData r fd = (Some packet, fd') \<Longrightarrow> 0 < length packet \<and> length packet \<le> 4096"
  by (auto simp: onTunData_def TUN_BUFFER_SIZE_def Let_def split: if_splits)

lemma tun_event_ok: "cm_reachable cnd cfg \<Longrightarrow> onTunData r fd = (Some packet, fd') \<Longrightarrow> stack_event_ok (TunPacket (dests_at cfg) packet)"
  using dests_at_wf onTunData_size by auto

lemma cm_reachable_step: "cm_reachable cnd cfg \<Longrightarrow> cm_step cnd cfg cfg' \<Longrightarrow> cm_reachable cnd cfg'"
  unfolding cm_reachable_def using cm_more by blast

lemma initialised_step: "cm_step cnd cfg cfg' \<Longrightarrow> initialised cfg' \<longleftrightarrow> initialised cfg"
  using servers_run [of cnd cfg cfg'] cm_more [OF cm_refl] by (fastforce simp: servers_def initialised_def)

lemma onStack_inv:
  assumes "daemon_node nd" and "daemon_inv nd cnd d" and "stack_event_ok x" and "onStack nd e x d = Some (out, d')"
  shows "daemon_inv nd cnd d'"
proof -
  obtain st where st: "stack_handle (nd\<lparr>isPeerAllowed := cm_isPeerAllowed (config d)\<rparr>) (env_at (config d) e) x (stack d) = Some (out, st)"
    and d': "d' = d\<lparr>stack := st\<rparr>"
    using assms(4) by (auto simp: onStack_def node_at_def)
  have "ng_env nd (env_at (config d) e)" using assms(1,2) by (simp add: daemon_inv_def ng_env_at)
  then show ?thesis using stack_step [OF _ _ assms(3) st] assms(2) by (simp add: daemon_inv_def d')
qed

text \<open>The event bus changes the configuration only by asking for updates.\<close>

lemma callbacks_inv:
  "cm_reachable cnd cfg \<and> initialised cfg \<Longrightarrow> cm_reachable cnd (fold (eb_callback t) out cfg) \<and> initialised (fold (eb_callback t) out cfg)"
proof (induction out arbitrary: cfg)
  case (Cons x out)
  have "eb_callback t x cfg = cfg \<or> cm_step cnd cfg (eb_callback t x cfg)"
    by (cases x) (auto simp: eb_handleMessage_def intro: cm_trigger)
  then show ?case using Cons cm_reachable_step initialised_step by fastforce
qed simp

lemma onTun_inv:
  assumes "daemon_node nd" and "daemon_inv nd cnd d" and "onTun nd l d = Some (out, d')"
  shows "daemon_inv nd cnd d'"
proof -
  have inv: "daemon_inv nd cnd (d\<lparr>tun := fd\<rparr>)" for fd using assms(2) by (simp add: daemon_inv_def)
  obtain packet fd where o: "onTunData (tun_next l) (tun d) = (packet, fd)" by fastforce
  show ?thesis
  proof (cases packet)
    case None
    then show ?thesis using assms(3) o inv by (auto simp: onTun_def)
  next
    case (Some x)
    then have ok: "stack_event_ok (TunPacket (dests_at (config d)) x)"
      using tun_event_ok [of cnd "config d"] o assms(2) unfolding daemon_inv_def by blast
    have "onStack nd (stack_env l) (TunPacket (dests_at (config d)) x) (d\<lparr>tun := fd\<rparr>) = Some (out, d')"
      using assms(3) o Some by (simp add: onTun_def)
    then show ?thesis by (rule onStack_inv [OF assms(1) inv ok])
  qed
qed

lemma dispatch_inv:
  assumes "daemon_node nd" and "daemon_inv nd cnd d" and "dispatch nd l x d = Some (out, d')"
  shows "daemon_inv nd cnd d'"
proof (cases x)
  case (UdpCallback cb a y)
  then show ?thesis
    using assms(2,3) onStack_inv [OF assms(1,2), of "SocketEvent (Udp a y)"] onStack_inv [OF assms(1,2), of "SocketEvent (Multicast a y)"]
    by (cases cb) auto
next
  case (CustomCallback cb)
  then show ?thesis using assms onTun_inv by (auto split: if_splits)
next
  case (DataCallback fd y)
  show ?thesis
  proof (cases "tcp_owner l (DataCallback fd y)")
    case None
    then obtain out1 ws where "d' = d\<lparr>bus := (bus d)\<lparr>eb_ws := ws\<rparr>, config := fold (eb_callback (now (stack_env l))) out1 (config d)\<rparr>"
      using assms(3) DataCallback by (auto simp: onBus_def eb_read_def)
    then show ?thesis using callbacks_inv [of cnd "config d" "now (stack_env l)" out1] assms(2) by (simp add: daemon_inv_def)
  next
    case (Some c)
    then show ?thesis using assms(3) onStack_inv [OF assms(1,2), of "SocketEvent (TcpData y)"] DataCallback by auto
  qed
next
  case (ErrorCallback conn)
  then show ?thesis using assms onStack_inv [OF assms(1,2), of "SocketEvent (TcpError c)" for c]
    by (auto simp: daemon_inv_def split: option.splits)
qed

lemma daemon_step_inv:
  assumes "daemon_step nd cnd d d'" and "daemon_node nd" and "daemon_inv nd cnd d"
  shows "daemon_inv nd cnd d'"
  using assms(1)
proof cases
  case (step_callback l x out)
  then show ?thesis using dispatch_inv assms(2,3) by blast
next
  case (step_periodic e out)
  then show ?thesis using onStack_inv [OF assms(2,3), of "SocketEvent Periodic"] by simp
next
  case (step_worker e out)
  then show ?thesis using onStack_inv [OF assms(2,3), of "SocketEvent Worker"] by simp
next
  case (step_config cfg)
  then show ?thesis using cm_reachable_step initialised_step assms(3) by (auto simp: daemon_inv_def)
next
  case (step_bus lib send tcp t a out eb)
  then show ?thesis using assms(3) by (simp add: daemon_inv_def)
qed

lemma daemon_run_inv: "daemon_run nd cnd d d' \<Longrightarrow> daemon_node nd \<Longrightarrow> daemon_inv nd cnd d \<Longrightarrow> daemon_inv nd cnd d'"
  by (induction rule: daemon_run.induct) (auto intro: daemon_step_inv)

lemma daemon_start_inv: "daemon_start nd cnd d \<Longrightarrow> daemon_inv nd cnd d"
  by (auto simp: daemon_start_def daemon_inv_def intro: stack_start)

section \<open>Rounds return\<close>

lemma onStack_returns:
  assumes "daemon_node nd" and "daemon_inv nd cnd d" and "stack_event_ok x" and "\<And>y. x = SocketEvent y \<Longrightarrow> \<not> fatal y (stack d)"
  shows "\<exists>out d'. onStack nd e x d = Some (out, d')"
proof -
  have "ng_env (node_at (config d) nd) (env_at (config d) e)" "ng_inv (node_at (config d) nd) (stack d)"
    using assms(1,2) ng_env_at stack_reachable_inv by (auto simp: daemon_inv_def node_at_def)
  from stack_handle_ok [OF this(1) assms(3) this(2) assms(4)] show ?thesis by (auto simp: succeeds_def onStack_def)
qed

text \<open>What a round must not bring: the datagram that consists of the type byte of a data message, and
  data for the event bus (which the WebSocket connection may refuse with an abort).\<close>

fun harmless :: "loop_env \<Rightarrow> callback sock_event \<Rightarrow> bool" where
  "harmless l (UdpCallback cb a x) = (cb = UnicastCb \<longrightarrow> x \<noteq> [PTP_value PTP_DATA])"
| "harmless l (DataCallback fd x) = (tcp_owner l (DataCallback fd x) \<noteq> None)"
| "harmless l _ = True"

lemma onTun_returns:
  assumes "daemon_node nd" and "daemon_inv nd cnd d"
  shows "\<exists>out d'. onTun nd l d = Some (out, d')"
proof -
  have inv: "daemon_inv nd cnd (d\<lparr>tun := fd\<rparr>)" for fd using assms(2) by (simp add: daemon_inv_def)
  have "\<exists>out d'. onStack nd (stack_env l) (TunPacket (dests_at (config d)) x) (d\<lparr>tun := fd\<rparr>) = Some (out, d')"
    if "onTunData (tun_next l) (tun d) = (Some x, fd)" for x fd
  proof (rule onStack_returns [OF assms(1) inv])
    show "stack_event_ok (TunPacket (dests_at (config d)) x)"
      using tun_event_ok [of cnd "config d"] that assms(2) unfolding daemon_inv_def by blast
  qed simp
  then show ?thesis by (auto simp: onTun_def split: prod.split option.split)
qed

lemma dispatch_returns:
  assumes "daemon_node nd" and "daemon_inv nd cnd d" and "harmless l x" and "\<And>cb a. x \<noteq> UdpCallback cb a []"
  shows "\<exists>out d'. dispatch nd l x d = Some (out, d')"
proof (cases x)
  case (UdpCallback cb a y)
  have "stack_event_ok (SocketEvent (Udp a y))" "stack_event_ok (SocketEvent (Multicast a y))" by simp_all
  moreover have "\<not> fatal (Multicast a y) (stack d)" "cb = UnicastCb \<Longrightarrow> \<not> fatal (Udp a y) (stack d)"
    using assms(3,4) UdpCallback by (auto simp: fatal_def)
  ultimately show ?thesis
    using UdpCallback onStack_returns [OF assms(1,2), of "SocketEvent (Udp a y)"] onStack_returns [OF assms(1,2), of "SocketEvent (Multicast a y)"]
    by (cases cb) auto
next
  case (CustomCallback cb)
  then show ?thesis using onTun_returns [OF assms(1,2)] by simp
next
  case (DataCallback fd y)
  have "\<not> fatal (TcpData y) (stack d)" by (simp add: fatal_def)
  then show ?thesis
    using DataCallback assms(3) onStack_returns [OF assms(1,2), of "SocketEvent (TcpData y)"] by auto
next
  case (ErrorCallback conn)
  have "\<not> fatal (TcpError c) (stack d)" for c by (simp add: fatal_def)
  then show ?thesis
    using ErrorCallback onStack_returns [OF assms(1,2), of "SocketEvent (TcpError c)" for c] by (auto split: option.split)
qed

lemma dispatchAll_returns:
  assumes "daemon_node nd" and "daemon_inv nd cnd d" and "\<forall>x \<in> set xs. harmless l x \<and> (\<forall>cb a. x \<noteq> UdpCallback cb a [])"
    and "daemon_run nd cnd d0 d"
  shows "\<exists>out d'. dispatchAll nd l xs d = Some (out, d') \<and> daemon_run nd cnd d0 d'"
  using assms(2-)
proof (induction xs arbitrary: d)
  case (Cons x xs)
  obtain out d1 where d1: "dispatch nd l x d = Some (out, d1)" using dispatch_returns [OF assms(1) Cons.prems(1), of l x] Cons.prems(2) by auto
  have "daemon_run nd cnd d0 d1" using Cons.prems(3) step_callback [OF d1] by (rule run_step)
  then obtain later d2 where "dispatchAll nd l xs d1 = Some (later, d2)" "daemon_run nd cnd d0 d2"
    using Cons.IH [OF dispatch_inv [OF assms(1) Cons.prems(1) d1]] Cons.prems(2) by auto
  then show ?case by (simp add: d1)
qed simp

text \<open>C9: In every state of a started daemon a turn of the event loop returns and leads to a state of the
  daemon, whatever the sockets, the tunnel interface and the environment bring, unless a datagram at
  the unicast socket is the single type byte of a data message, or data arrives for the event bus.\<close>

theorem daemon_round_returns:
  assumes "daemon_node nd" and "daemon_start nd cnd d0" and "daemon_run nd cnd d0 d"
    and "\<forall>x \<in> set (fst (runOnce w socks)). harmless l x"
  shows "\<exists>out d'. loopRound nd l w socks d = Some (out, d') \<and> daemon_run nd cnd d0 d'"
proof -
  have inv: "daemon_inv nd cnd d" using daemon_run_inv [OF assms(3,1)] daemon_start_inv [OF assms(2)] by blast
  have "\<not> fatal Periodic (stack d)" by (simp add: fatal_def)
  then obtain out d1 where d1: "onStack nd (stack_env l) (SocketEvent Periodic) d = Some (out, d1)"
    using onStack_returns [OF assms(1) inv, of "SocketEvent Periodic" "stack_env l"] by auto
  have "\<forall>x \<in> set (fst (runOnce w socks)). harmless l x \<and> (\<forall>cb a. x \<noteq> UdpCallback cb a [])"
    using assms(4) runOnce_datagrams [of _ _ "[]" w socks] by auto
  moreover have "daemon_inv nd cnd d1" using onStack_inv [OF assms(1) inv _ d1] by simp
  moreover have "daemon_run nd cnd d0 d1" by (rule run_step [OF assms(3) step_periodic [OF d1]])
  ultimately obtain later d2 where "dispatchAll nd l (fst (runOnce w socks)) d1 = Some (later, d2)" "daemon_run nd cnd d0 d2"
    using dispatchAll_returns [OF assms(1)] by blast
  then show ?thesis by (simp add: loopRound_def d1)
qed

section \<open>Admission of peers\<close>

lemma onStack_admits:
  assumes "onStack nd e x d = Some (out, d')"
  shows "admitted (cm_isPeerAllowed (config d)) (heap (stack d)) (heap (stack d')) \<and> config d' = config d"
  using assms admission.stack_handle_keeps [of "node_at (config d) nd"] unfolding onStack_def
  by (fastforce simp: node_at_def)

lemma dispatch_admits:
  assumes "dispatch nd l x d = Some (out, d')"
  shows "admitted (cm_isPeerAllowed (config d)) (heap (stack d)) (heap (stack d'))"
proof -
  have refl: "admitted f h h" for f h by (simp add: admitted_def)
  show ?thesis
  proof (cases x)
    case (CustomCallback cb)
    then show ?thesis using assms onStack_admits [of nd "stack_env l"] refl
      by (fastforce simp: onTun_def split: if_splits prod.splits option.splits)
  next
    case (UdpCallback cb a y)
    then show ?thesis using assms onStack_admits refl by (cases cb) fastforce+
  qed (use assms onStack_admits [of nd "stack_env l"] refl in \<open>fastforce simp: onBus_def split: option.splits\<close>)+
qed

lemma step_admits:
  assumes "daemon_step nd cnd d d'"
  shows "admitted (cm_isPeerAllowed (config d)) (heap (stack d)) (heap (stack d'))"
  using assms
proof cases
  case (step_callback l x out)
  then show ?thesis using dispatch_admits by blast
next
  case (step_periodic e out)
  then show ?thesis using onStack_admits by blast
next
  case (step_worker e out)
  then show ?thesis using onStack_admits by blast
qed (simp_all add: admitted_def)

lemma daemon_run_trans: "daemon_run nd cnd d1 d2 \<Longrightarrow> daemon_run nd cnd d0 d1 \<Longrightarrow> daemon_run nd cnd d0 d2"
  by (induction rule: daemon_run.induct) (auto intro: daemon_run.intros)

lemma start_heap: "daemon_start nd cnd d \<Longrightarrow> heap (stack d) = []"
  by (auto simp: daemon_start_def NgSocket_def SecurityLayer_def sec_state.defs split: if_splits) (metis pc_state.select_convs(1))

text \<open>C10: Every peer the daemon keeps was allowed by the configuration at some time of the run: it is not
  the attempt of a stranger.  (It need not be allowed now: peers are never removed.)\<close>

theorem daemon_peers_admitted:
  assumes "daemon_start nd cnd d0" and "daemon_run nd cnd d0 d" and "p \<in> set (heap (stack d))"
  shows "\<exists>d1. daemon_run nd cnd d0 d1 \<and> daemon_run nd cnd d1 d \<and> cm_isPeerAllowed (config d1) (peer_id p)"
proof -
  have "\<exists>d1. daemon_run nd cnd d0 d1 \<and> daemon_run nd cnd d1 d \<and> cm_isPeerAllowed (config d1) i"
    if "i \<in> peer_id ` set (heap (stack d))" for i
    using assms(2) that assms(1)
  proof (induction rule: daemon_run.induct)
    case (run_refl d)
    then show ?case by (auto simp: start_heap)
  next
    case (run_step d0 d1 d2)
    obtain new where new: "map peer_id (heap (stack d2)) = map peer_id (heap (stack d1)) @ new" "list_all (cm_isPeerAllowed (config d1)) new"
      using step_admits [OF run_step.hyps(2)] unfolding admitted_def by blast
    have one: "daemon_run nd cnd d1 d2" by (rule daemon_run.run_step [OF run_refl run_step.hyps(2)])
    have "i \<in> peer_id ` set (heap (stack d1)) \<or> i \<in> set new" using run_step.prems(1) new(1) by (metis Un_iff set_append set_map)
    then show ?case
    proof
      assume "i \<in> peer_id ` set (heap (stack d1))"
      then show ?thesis using run_step.IH run_step.prems(2) one daemon_run_trans by blast
    next
      assume "i \<in> set new"
      then show ?thesis using new(2) run_step.hyps(1) one by (auto simp: list_all_iff)
    qed
  qed
  then show ?thesis using assms(3) by blast
qed

section \<open>A concrete daemon\<close>

definition toy_daemon :: daemon where
  "toy_daemon = \<lparr>config = toy_config_state (Some [3]), stack = toy_socket 1, bus = EventBus_new, tun = 3\<rparr>"

definition toy_server :: ipaddress where
  "toy_server = IpAddress ([0xfc, 0x94] @ replicate 13 0 @ [1])"

text \<open>A turn in which a datagram arrives and the interface has a packet for the API server.\<close>

definition toy_loop :: loop_env where
  "toy_loop = \<lparr>stack_env = toy_env, bus_lib = toy_lib, bus_send = (\<lambda>_. 0),
     tun_next = \<lparr>tun_bytes = [0x60, 0, 0, 0, 0, 1, 17, 64] @ ip_data (deviceId (myIdentity (toy_node 1))) @ ip_data toy_server @ [9],
       tun_eagain = False\<rparr>, tcp_owner = (\<lambda>_. Some 1)\<rparr>"

definition toy_loop_sockets :: "callback sockets" where
  "toy_loop_sockets = \<lparr>udpSockets = [(4, UnicastCb)], customSockets = [(3, TunCb)], tcpConnections = [],
     unicastUdpFd = 4, multicastUdpFd4 = -1, multicastUdpFd6 = -1\<rparr>"

lemma toy_daemon_start: "daemon_start (toy_node 1) toy_config toy_daemon"
proof -
  have "bindPort (\<lambda>_. True) 5582 = Some 5582" by (simp add: bindPort.simps)
  then have "NgSocket (toy_node 1) 4 (\<lambda>_. True) (SecurityLayer (toy_node 1) 0) = Some (toy_socket 1)"
    by (simp add: NgSocket_def toy_socket_def toy_node_def)
  moreover have "initialised (toy_config_state (Some [3]))" using toy_restart(2) by (simp add: initialised_def)
  ultimately show ?thesis using toy_config_reachable(1) unfolding daemon_start_def toy_daemon_def by auto
qed

lemma toy_daemon_node: "daemon_node (toy_node 1)"
  using toy_crypto_sizes toy_node_wf(1) by (simp add: daemon_node_def toy_node_def)

lemma toy_round_events: "list_all (harmless toy_loop) (fst (runOnce toy_world toy_loop_sockets))" "fst (runOnce toy_world toy_loop_sockets) \<noteq> []"
  by code_simp+

theorem daemon_round_returns_witness:
  "loopRound (toy_node 1) toy_loop toy_world toy_loop_sockets toy_daemon \<noteq> None \<and> fst (runOnce toy_world toy_loop_sockets) \<noteq> []"
  using daemon_round_returns [OF toy_daemon_node toy_daemon_start run_refl, of toy_world toy_loop_sockets toy_loop] toy_round_events
  by (auto simp: list_all_iff)

lemma toy_tun_peer:
  "case dispatch (toy_node 1) toy_loop (CustomCallback TunCb) toy_daemon of
     None \<Rightarrow> False
   | Some (out, d) \<Rightarrow> list_ex (\<lambda>p. peer_id p = toy_server) (heap (stack d))"
  by code_simp

theorem daemon_peers_admitted_witness:
  "\<exists>d1. daemon_run (toy_node 1) toy_config toy_daemon d1 \<and> cm_isPeerAllowed (config d1) toy_server"
proof -
  obtain out d p where d: "dispatch (toy_node 1) toy_loop (CustomCallback TunCb) toy_daemon = Some (out, d)"
    and p: "p \<in> set (heap (stack d))" "peer_id p = toy_server"
    using toy_tun_peer by (auto simp: list_ex_iff split: option.splits)
  have "daemon_run (toy_node 1) toy_config toy_daemon d" by (rule run_step [OF run_refl step_callback [OF d]])
  from daemon_peers_admitted [OF toy_daemon_start this p(1)] p(2) show ?thesis by auto
qed

end
