(* ===== verification/Esp32.thy ===== *)
theory Esp32
  imports Daemon
begin

text \<open>
  \<open>ports/esp32/port.cpp\<close>, \<open>ports/esp32/tun.cpp\<close> and \<open>ports/esp32/user_interface.cpp\<close>: the port to the
  ESP32.  The non-volatile storage keeps zero-terminated strings by name; the answers of the flash
  library, the resolver and the TCP stack (lwIP) are fields of records.  \<open>None\<close> is an abort.

  The results: the storage gives back what was written, with the terminating zero byte still
  attached, and an identity survives that; the partition is erased only when the flash library asks
  for it; what the HTTP client makes of a response, with and without a length; packets of the
  interface reach the stack in order; the address handed to a C program is the node's.
\<close>

section \<open>Storage\<close>

record nvs =
  nvs_items :: "bytes \<Rightarrow> bytes option"
  nvs_readable :: bool
  nvs_accepts :: "bytes \<Rightarrow> bytes \<Rightarrow> bool"
  nvs_commits :: bool

definition NVS_HOSTNAME_KEY :: bytes where "NVS_HOSTNAME_KEY = str ''hostname''"

primrec storageMap_esp :: "StorageKey \<Rightarrow> bytes option" where
  "storageMap_esp Key_id = Some (str ''id'')"
| "storageMap_esp Key_config = Some (str ''config.json'')"
| "storageMap_esp Key_daemonApiToken = Some (str ''daemon_api_token'')"
| "storageMap_esp Key_cache = Some (str ''cache.json'')"
| "storageMap_esp Key_defaults = None"

text \<open>The size the library reports counts the terminating zero byte.\<close>

definition readNVS :: "nvs \<Rightarrow> bytes \<Rightarrow> bytes" where
  "readNVS n p =
     (case nvs_items n (c_str p) of
        None \<Rightarrow> []
      | Some v \<Rightarrow> if \<not> nvs_readable n then [] else v @ [0])"

definition writeNVS :: "bytes \<Rightarrow> bytes \<Rightarrow> nvs \<Rightarrow> bool \<times> nvs" where
  "writeNVS p d n =
     (if \<not> nvs_accepts n (c_str p) (c_str d) then (False, n)
      else
        let n = n\<lparr>nvs_items := (nvs_items n)(c_str p \<mapsto> c_str d)\<rparr> in
        if \<not> nvs_commits n then (False, n) else (True, n))"

definition readStorage_esp :: "nvs \<Rightarrow> StorageKey \<Rightarrow> bytes option" where
  "readStorage_esp n key = map_option (readNVS n) (storageMap_esp key)"

definition writeStorage_esp :: "StorageKey \<Rightarrow> bytes \<Rightarrow> nvs \<Rightarrow> (bool \<times> nvs) option" where
  "writeStorage_esp key d n = map_option (\<lambda>p. writeNVS p d n) (storageMap_esp key)"

definition getSelfHostname_esp :: "nvs \<Rightarrow> bytes" where
  "getSelfHostname_esp n = readNVS n NVS_HOSTNAME_KEY"

definition setSelfHostname_esp :: "bytes \<Rightarrow> nvs \<Rightarrow> bool \<times> nvs" where
  "setSelfHostname_esp newHostname n = writeNVS NVS_HOSTNAME_KEY newHostname n"

section \<open>Start\<close>

datatype esp_err = ESP_OK | ESP_ERR_NVS_NOT_INITIALIZED | ESP_ERR_NVS_NO_FREE_PAGES | ESP_ERR_NVS_NEW_VERSION_FOUND | ESP_FAIL

record nvs_boot =
  open_first :: esp_err
  flash_init :: esp_err
  flash_erase :: esp_err
  flash_reinit :: esp_err
  open_again :: esp_err
  semaphore_made :: bool

text \<open>The result says whether the partition was erased.\<close>

definition esp_init :: "nvs_boot \<Rightarrow> bool option" where
  "esp_init b = do {
     (err, erased) \<leftarrow>
       (if open_first b = ESP_ERR_NVS_NOT_INITIALIZED then
          if flash_init b = ESP_ERR_NVS_NO_FREE_PAGES \<or> flash_init b = ESP_ERR_NVS_NEW_VERSION_FOUND then
            if flash_erase b \<noteq> ESP_OK then None
            else if flash_reinit b \<noteq> ESP_OK then None
            else Some (open_again b, True)
          else if flash_init b \<noteq> ESP_OK then None
          else Some (open_again b, False)
        else Some (open_first b, False));
     if err \<noteq> ESP_OK then None
     else if \<not> semaphore_made b then None
     else Some erased
   }"

section \<open>HTTP client\<close>

datatype addrinfo = Ai_inet u32 | Ai_inet6 bytes | Ai_other

fun resolveLoop :: "addrinfo list \<Rightarrow> ipaddress option" where
  "resolveLoop [] = Some IpAddress_default"
| "resolveLoop (Ai_inet a # rest) = fromBinary4_u32 a"
| "resolveLoop (Ai_inet6 a # rest) = fromBinary a"
| "resolveLoop (Ai_other # rest) = resolveLoop rest"

record http_world =
  lookup_host :: "bytes \<Rightarrow> addrinfo list option"
  tcp_sys :: sys
  http_send :: "bytes \<Rightarrow> int"
  http_reply :: bytes
  parse_junk :: "u32 list"
  to_arithmetic :: "bytes \<Rightarrow> nat option"
  agent :: bytes

definition resolveToIp_esp :: "http_world \<Rightarrow> bytes \<Rightarrow> ipaddress option" where
  "resolveToIp_esp w hostname =
     (case lookup_host w (c_str hostname) of
        None \<Rightarrow> Some IpAddress_default
      | Some infos \<Rightarrow> resolveLoop infos)"

type_synonym HttpResult = "int \<times> bytes"

definition HTTP_BUFFER :: nat where "HTTP_BUFFER = 4096"

text \<open>The result and the bytes sent.  The response is what one call of \<open>recv\<close> gives, and is parsed into
  the message that held the request.\<close>

definition httpSendRecv :: "http_world \<Rightarrow> ipaddress \<Rightarrow> HTTPMessage \<Rightarrow> (HttpResult \<times> bytes) option" where
  "httpSendRecv w ip message =
     (if isInvalid ip then Some ((-1, []), [])
      else do {
        (buffer, message) \<leftarrow> encode HTTP_BUFFER message;
        if fst (connectUnmanagedTcpSocket (tcp_sys w)) < 0 then Some ((-1, []), [])
        else if \<not> length buffer > 0 then None
        else
          let (out, ok) = sendLoop (http_send w) buffer; view = take HTTP_BUFFER (http_reply w) in
          if \<not> ok then Some ((-1, []), out)
          else if view = [] then Some ((-1, []), out)
          else do {
            (res, message) \<leftarrow> http_parse (to_arithmetic w) view message;
            Some (if res = OK then (sint (word_of_nat (statusCode message) :: u32), body message) else (-1, []), out)
          }
      })"

definition getMessage :: "http_world \<Rightarrow> bytes \<Rightarrow> bytes \<Rightarrow> HTTPMessage option" where
  "getMessage w host p =
     (if length (c_str p) > 128 then None
      else Some (HTTPMessage_new\<lparr>req_method := str ''GET'', req_endpoint := c_str p,
        headers := map_insert (str ''User-Agent'') (agent w) (map_insert (str ''Host'') host [])\<rparr>))"

definition postMessage :: "http_world \<Rightarrow> bytes \<Rightarrow> bytes \<Rightarrow> bytes \<Rightarrow> HTTPMessage option" where
  "postMessage w host p content =
     (if length (c_str p) > 256 then None
      else Some (HTTPMessage_new\<lparr>req_method := str ''POST'', req_endpoint := c_str p,
        headers := map_insert (str ''Content-Type'') (str ''application/json'')
          (map_insert (str ''User-Agent'') (agent w) (map_insert (str ''Host'') host [])),
        body := content\<rparr>))"

definition hostAddress :: "http_world \<Rightarrow> bytes \<Rightarrow> ipaddress option" where
  "hostAddress w host = do {
     ip \<leftarrow> IpAddress_parse (parse_junk w) host;
     if isInvalid ip then resolveToIp_esp w host else Some ip
   }"

definition httpGet_host :: "http_world \<Rightarrow> bytes \<Rightarrow> bytes \<Rightarrow> (HttpResult \<times> bytes) option" where
  "httpGet_host w host p = do {
     message \<leftarrow> getMessage w host p;
     ip \<leftarrow> hostAddress w host;
     if isInvalid ip then Some ((-1, []), []) else httpSendRecv w ip message
   }"

definition httpGet_ip :: "http_world \<Rightarrow> ipaddress \<Rightarrow> bytes \<Rightarrow> (HttpResult \<times> bytes) option" where
  "httpGet_ip w ip p = do {
     message \<leftarrow> getMessage w (toString_ip ip) p;
     httpSendRecv w ip message
   }"

definition httpPost_host :: "http_world \<Rightarrow> bytes \<Rightarrow> bytes \<Rightarrow> bytes \<Rightarrow> (HttpResult \<times> bytes) option" where
  "httpPost_host w host p content = do {
     message \<leftarrow> postMessage w host p content;
     ip \<leftarrow> hostAddress w host;
     if isInvalid ip then Some ((-1, []), []) else httpSendRecv w ip message
   }"

definition httpPost_ip :: "http_world \<Rightarrow> ipaddress \<Rightarrow> bytes \<Rightarrow> bytes \<Rightarrow> (HttpResult \<times> bytes) option" where
  "httpPost_ip w ip p content = do {
     message \<leftarrow> postMessage w (toString_ip ip) p content;
     httpSendRecv w ip message
   }"

section \<open>Network interface\<close>



definition lwip_hook_ip6_route :: "bytes \<Rightarrow> bool" where
  "lwip_hook_ip6_route dest \<longleftrightarrow> drop_bit 16 (be_word (take 4 dest)) = 0xFC94"

text \<open>What is handed to lwIP: the address given as the destination, and the packet.\<close>

definition onLowerLayerData_esp :: "bytes \<Rightarrow> (bytes \<times> bytes) option" where
  "onLowerLayerData_esp d = (if length d < 40 then None else Some (chunk 8 16 d, d))"



text \<open>The addresses of the interfaces, through the text lwIP prints them as; \<open>buf\<close> is on the stack and
  keeps what it held.\<close>

record netif =
  netif_ip6 :: "bytes list"
  netif_ip4 :: "bytes option"

definition print_into :: "bytes \<Rightarrow> bytes \<Rightarrow> bytes" where
  "print_into s buf = s @ [0] @ drop (length s + 1) buf"

definition localAddressesOf :: "(bytes \<Rightarrow> bytes) \<Rightarrow> (bytes \<Rightarrow> bytes) \<Rightarrow> bytes \<Rightarrow> netif \<Rightarrow> ipaddress list option" where
  "localAddressesOf ntoa6 ntoa4 buf n = do {
     v6 \<leftarrow> those (map (\<lambda>a. fromBinary (print_into (ntoa6 a) buf))
       (filter (\<lambda>a. a \<noteq> replicate 16 0 \<and> a \<noteq> replicate 15 0 @ [1]) (netif_ip6 n)));
     case netif_ip4 n of
       None \<Rightarrow> Some v6
     | Some a \<Rightarrow>
         if a = replicate 4 0 \<or> take 1 a = [127] then Some v6
         else map_option (\<lambda>v4. v6 @ [v4]) (fromBinary4 (print_into (ntoa4 a) buf))
   }"

definition getLocalAddresses_esp :: "(bytes \<Rightarrow> bytes) \<Rightarrow> (bytes \<Rightarrow> bytes) \<Rightarrow> bytes \<Rightarrow> netif list \<Rightarrow> ipaddress list option" where
  "getLocalAddresses_esp ntoa6 ntoa4 buf ns = map_option concat (those (map (localAddressesOf ntoa6 ntoa4 buf) ns))"

section \<open>Interface of the client\<close>

text \<open>\<open>join\<close> runs as a task of its own; the result is the flag \<open>started\<close> and the claim that is sent.\<close>

definition join :: "api_env \<Rightarrow> ipaddress \<Rightarrow> nvs \<Rightarrow> bytes \<Rightarrow> bytes \<Rightarrow> bool \<Rightarrow> bool \<times> api_call option" where
  "join e apiAddress n hostname joinCode started =
     (if started then (started, None)
      else if length (c_str joinCode) = 0 then (started, None)
      else if isInvalid apiAddress then (True, None)
      else
        let host = c_str hostname; host = (if host = [] then getSelfHostname_esp n else host)
        in (True, Some (postClaim e apiAddress (c_str joinCode) host)))"

text \<open>The memory the caller sees: what is written to \<open>ip\<close>, or nothing.\<close>

definition husarnet_get_ip_address :: "identity \<Rightarrow> nat \<Rightarrow> bytes option" where
  "husarnet_get_ip_address i room =
     (let ipAddress = toString_ip (deviceId i) in
      if length ipAddress \<ge> room then None else Some (ipAddress @ [0]))"

section \<open>Storage: what is read back\<close>

lemma read_other: "writeNVS p d n = (b, n') \<Longrightarrow> c_str p \<noteq> c_str q \<Longrightarrow> readNVS n' q = readNVS n q"
  by (auto simp: writeNVS_def readNVS_def Let_def split: if_splits option.splits)

lemma read_after_write:
  assumes "writeNVS p d n = (True, n')" and "nvs_readable n"
  shows "readNVS n' p = c_str d @ [0]"
  using assms by (auto simp: writeNVS_def readNVS_def Let_def split: if_splits option.splits)

lemma identity_no_zero: "c_str (Identity_serialize c i) = Identity_serialize c i"
proof (rule c_str_id)
  have "0 \<notin> set hexLetters" by (simp add: hexLetters_def)
  then have h: "0 \<notin> set (encodeHex s)" for s using encodeHex_no_control by blast
  have "0 \<notin> set (toString_ip (pubkeyToDeviceId c (pubkey i)))" by (rule toString_ip_class(2))
  then show "0 \<notin> set (Identity_serialize c i)" using h by (simp add: Identity_serialize_def)
qed

text \<open>What the rest of the program needs of a storage: what is written is read back, as \<open>kept\<close> says, and
  writing under one key does not touch the others.\<close>

locale storage =
  fixes load :: "'s \<Rightarrow> StorageKey \<Rightarrow> bytes option" and store :: "StorageKey \<Rightarrow> bytes \<Rightarrow> 's \<Rightarrow> (bool \<times> 's) option"
    and kept :: "bytes \<Rightarrow> bytes" and usable :: "'s \<Rightarrow> bool"
  assumes load_store: "usable s \<Longrightarrow> store k d s = Some (True, s') \<Longrightarrow> load s' k = Some (kept d)"
    and load_other: "store k d s = Some (b, s') \<Longrightarrow> k \<noteq> k' \<Longrightarrow> load s' k' = load s k'"
begin

inductive later :: "'s \<Rightarrow> 's \<Rightarrow> bool" where
  later_refl: "later s s"
| later_store: "later s s' \<Longrightarrow> k \<noteq> Key_id \<Longrightarrow> store k d s' = Some (b, s'') \<Longrightarrow> later s s''"

lemma later_id: "later s s' \<Longrightarrow> load s' Key_id = load s Key_id"
  by (induction rule: later.induct) (auto dest: load_other)

lemma identity_kept:
  assumes "crypto_sizes c" and "identity_wf c i" and "Identity_isValid i" and "length junk = 4"
    and "kept (Identity_serialize c i) = Identity_serialize c i @ r"
    and "usable s" and "store Key_id (Identity_serialize c i) s = Some (True, s')" and "later s' s''"
  shows "\<exists>stored. load s'' Key_id = Some stored \<and> stored = Identity_serialize c i @ r \<and> Identity_init c junk stored w n = Some (i, stored, n)"
proof -
  have "load s'' Key_id = Some (Identity_serialize c i @ r)"
    using later_id [OF assms(8)] load_store [OF assms(6,7)] assms(5) by simp
  then show ?thesis
    using deserialize_serialize_append [OF assms(1,2,4), of r] assms(3) serialize_not_Nil [of c i] by (simp add: Identity_init_def)
qed

end

interpretation nvs: storage readStorage_esp writeStorage_esp "\<lambda>d. c_str d @ [0]" nvs_readable
proof unfold_locales
  fix s s' :: nvs and k d
  assume "nvs_readable s" "writeStorage_esp k d s = Some (True, s')"
  then show "readStorage_esp s' k = Some (c_str d @ [0])"
    using read_after_write by (auto simp: writeStorage_esp_def readStorage_esp_def)
next
  fix s s' :: nvs and k k' :: StorageKey and d and b :: bool
  assume w: "writeStorage_esp k d s = Some (b, s')" and "k \<noteq> k'"
  then have "c_str p \<noteq> c_str q" if "storageMap_esp k = Some p" "storageMap_esp k' = Some q" for p q
    using that by (cases k; cases k') (auto simp: c_str_def)
  then show "readStorage_esp s' k' = readStorage_esp s k'"
    using w read_other by (cases "storageMap_esp k'") (auto simp: writeStorage_esp_def readStorage_esp_def)
qed

interpretation disk: storage readStorage "\<lambda>k d s. Some (writeStorage k d s)" "\<lambda>d. d" "\<lambda>s. \<forall>p. readable s p"
proof unfold_locales
  fix s s' :: filesystem and k d
  assume "\<forall>p. readable s p" "Some (writeStorage k d s) = Some (True, s')"
  then show "readStorage s' k = Some d"
    by (auto simp: writeStorage_def writeFile_def readStorage_def readFile_def isFile_def split: if_splits)
next
  fix s s' :: filesystem and k k' :: StorageKey and d and b :: bool
  assume w: "Some (writeStorage k d s) = Some (b, s')" and "k \<noteq> k'"
  then have "storageMap k \<noteq> storageMap k'" by (cases k; cases k') simp_all
  then show "readStorage s' k' = readStorage s k'"
    using w by (auto simp: writeStorage_def writeFile_def readStorage_def readFile_def isFile_def split: if_splits)
qed

text \<open>C40: An identity once written is loaded by every later start, whatever else is written to the storage: on
  a desktop as it was, on the ESP32 with the terminating zero byte at its end.\<close>

theorem identity_survives_storage:
  assumes "crypto_sizes c" and "identity_wf c i" and "Identity_isValid i" and "length junk = 4"
    and "nvs_readable n" and "writeStorage_esp Key_id (Identity_serialize c i) n = Some (True, n1)" and "nvs.later n1 n2"
    and "\<forall>p. readable f p" and "writeStorage Key_id (Identity_serialize c i) f = (True, f1)" and "disk.later f1 f2"
  shows "(\<exists>stored. readStorage_esp n2 Key_id = Some stored \<and> stored = Identity_serialize c i @ [0] \<and> Identity_init c junk stored w k = Some (i, stored, k)) \<and>
    (\<exists>stored. readStorage f2 Key_id = Some stored \<and> stored = Identity_serialize c i \<and> Identity_init c junk stored w k = Some (i, stored, k))"
  using nvs.identity_kept [OF assms(1-4) _ assms(5-7), of "[0]" w k] identity_no_zero [of c i]
    disk.identity_kept [OF assms(1-4) _ assms(8) _ assms(10), of "[]" w k] assms(9) by simp

theorem identity_survives_storage_witness:
  "let i = \<lparr>pubkey = fst (ed_keypair toy_crypto 3), privkey = snd (ed_keypair toy_crypto 3),
            deviceId = pubkeyToDeviceId toy_crypto (fst (ed_keypair toy_crypto 3))\<rparr>
   in \<exists>n1 n2 stored. writeStorage_esp Key_id (Identity_serialize toy_crypto i)
       \<lparr>nvs_items = (\<lambda>_. None), nvs_readable = True, nvs_accepts = (\<lambda>_ _. True), nvs_commits = True\<rparr> = Some (True, n1) \<and>
     writeStorage_esp Key_cache [1] n1 = Some (True, n2) \<and>
     readStorage_esp n2 Key_id = Some stored \<and> Identity_init toy_crypto [0, 0, 0, 0] stored True 0 = Some (i, stored, 0)"
proof -
  let ?i = "\<lparr>pubkey = fst (ed_keypair toy_crypto 3), privkey = snd (ed_keypair toy_crypto 3),
    deviceId = pubkeyToDeviceId toy_crypto (fst (ed_keypair toy_crypto 3))\<rparr>"
  let ?n = "\<lparr>nvs_items = (\<lambda>_. None), nvs_readable = True, nvs_accepts = (\<lambda>_ _. True), nvs_commits = True\<rparr>"
  let ?f = "\<lparr>files = (\<lambda>_. None), readable = (\<lambda>_. True), writable = (\<lambda>_. True)\<rparr>"
  obtain n1 where n1: "writeStorage_esp Key_id (Identity_serialize toy_crypto ?i) ?n = Some (True, n1)" "nvs_accepts n1 = (\<lambda>_ _. True)" "nvs_commits n1"
    by (simp add: writeStorage_esp_def writeNVS_def Let_def)
  obtain n2 where n2: "writeStorage_esp Key_cache [1] n1 = Some (True, n2)" using n1 by (simp add: writeStorage_esp_def writeNVS_def Let_def)
  obtain f1 where f1: "writeStorage Key_id (Identity_serialize toy_crypto ?i) ?f = (True, f1)" by (simp add: writeStorage_def writeFile_def)
  have "nvs.later n1 n2" by (rule nvs.later_store [OF nvs.later_refl _ n2]) simp
  moreover have "identity_wf toy_crypto ?i" using toy_crypto_sizes by (simp add: identity_wf_def crypto_sizes_def)
  moreover have "Identity_isValid ?i" by code_simp
  ultimately show ?thesis unfolding Let_def
    using identity_survives_storage [OF toy_crypto_sizes _ _ _ _ n1(1) _ _ f1 disk.later_refl, of "[0, 0, 0, 0]" n2 True 0] n1(1) n2 by auto
qed

text \<open>The partition is erased only if the first attempt to open it and then the initialisation asked for
  it, and after a start the storage is open.\<close>

theorem esp_erases_on_request:
  assumes "esp_init b = Some erased"
  shows "(if open_first b = ESP_ERR_NVS_NOT_INITIALIZED then open_again b else open_first b) = ESP_OK \<and>
    (erased \<longleftrightarrow> open_first b = ESP_ERR_NVS_NOT_INITIALIZED \<and>
       (flash_init b = ESP_ERR_NVS_NO_FREE_PAGES \<or> flash_init b = ESP_ERR_NVS_NEW_VERSION_FOUND))"
  using assms by (auto simp: esp_init_def split: if_splits)

theorem esp_erases_on_request_witness:
  "esp_init \<lparr>open_first = ESP_ERR_NVS_NOT_INITIALIZED, flash_init = ESP_ERR_NVS_NO_FREE_PAGES, flash_erase = ESP_OK, flash_reinit = ESP_OK,
     open_again = ESP_OK, semaphore_made = True\<rparr> = Some True"
  using esp_erases_on_request [of "\<lparr>open_first = ESP_ERR_NVS_NOT_INITIALIZED, flash_init = ESP_ERR_NVS_NO_FREE_PAGES,
      flash_erase = ESP_OK, flash_reinit = ESP_OK, open_again = ESP_OK, semaphore_made = True\<rparr>"]
  by (simp add: esp_init_def)

section \<open>Responses\<close>

text \<open>C38: What a posted request returns for a response that arrives in one piece of at most 2048 bytes: the
  status and as many bytes as the response announces, or an error if there are fewer.  A response
  that announces no length is read with the length of the request's own body, whose header is
  still in the message.\<close>

theorem esp_post_result:
  assumes "\<not> isInvalid ip" and "fst (connectUnmanagedTcpSocket (tcp_sys w)) \<ge> 0" and "\<And>d. d \<noteq> [] \<Longrightarrow> 0 < http_send w d"
    and "\<And>k. to_arithmetic w (to_string k) = Some k" and "content \<noteq> []"
    and "postMessage w (toString_ip ip) p content = Some msg" and "encode HTTP_BUFFER msg = Some (raw, msg')"
    and "hs \<noteq> []" and "list_all header_ok hs" and "reason \<noteq> []" and "13 \<notin> set reason" and "code < 2 ^ 31"
    and "http_reply w = http_response_text code reason hs rest" and "length (http_reply w) \<le> 2048"
    and "(case map_of (rev hs) (str ''Content-Length'') of None \<Rightarrow> n = length content | Some v \<Rightarrow> v = to_string n)"
  shows "httpPost_ip w ip p content = Some (if length rest < n then (-1, []) else (int code, take n rest), raw)"
proof -
  have msg': "msg' = msg\<lparr>headers := map_assign (str ''Content-Length'') (to_string (length content)) (headers msg)\<rparr>" "raw \<noteq> []"
    "msg_buffer msg' = []" "msg_it msg' = 0" "parserState msg' = START_LINE"
    using assms(5-7) by (auto simp: encode_def postMessage_def HTTPMessage_new_def Let_def split: if_splits)
  have "(map_of (headers msg') ++ map_of (rev hs)) (str ''Content-Length'') = Some (to_string n)"
    using assms(15) by (simp add: msg'(1) map_of_map_assign map_add_def split: option.splits)
  from parse_response [OF assms(8-11,4) _ msg'(3-5) this, of code rest] obtain m where
    m: "http_parse (to_arithmetic w) (http_reply w) msg' = Some (if length rest < n then INCOMPLETE else OK, m)"
      "statusCode m = code" "\<not> length rest < n \<longrightarrow> body m = take n rest"
    using assms(13,14) by auto
  have "sendLoop (http_send w) raw = (raw, True)" using sendLoop_all assms(3) msg'(2) by blast
  moreover have "sint (word_of_nat code :: u32) = int code"
    using assms(12) by (simp add: signed_of_nat signed_take_bit_int_eq_self)
  moreover have "http_reply w \<noteq> []" by (simp add: assms(13) http_response_text_def)
  moreover have "take HTTP_BUFFER (http_reply w) = http_reply w" using assms(14) by (simp add: HTTP_BUFFER_def)
  ultimately show ?thesis using m msg'(2) assms(1,2,6,7) by (simp add: httpPost_ip_def httpSendRecv_def Let_def)
qed

text \<open>A response without a length, to a request with a body of two bytes.\<close>

definition toy_http :: "(bytes \<times> bytes) list \<Rightarrow> http_world" where
  "toy_http hs = \<lparr>lookup_host = (\<lambda>_. None),
     tcp_sys = \<lparr>new_fd = 3, bind_ok = (\<lambda>_. True), join_ok = True, connect_ok = True, connect_ready = True, so_error = 0\<rparr>,
     http_send = (\<lambda>_. 7), http_reply = http_response_text 200 (str ''OK'') hs (str ''abcd''), parse_junk = [0, 0, 0, 0],
     to_arithmetic = toy_number, agent = str ''Husarnet''\<rparr>"

theorem esp_post_result_witness:
  "\<exists>raw. httpPost_ip (toy_http [(str ''Server'', str ''x'')]) (IpAddress (0xfc # 0x94 # replicate 14 0)) (str ''/x'') (str ''{}'') = Some ((200, str ''ab''), raw)"
proof -
  let ?hs = "[(str ''Server'', str ''x'')]" and ?ip = "IpAddress (0xfc # 0x94 # replicate 14 0)"
  have "case postMessage (toy_http ?hs) (toString_ip ?ip) (str ''/x'') (str ''{}'') of None \<Rightarrow> False | Some msg \<Rightarrow> encode HTTP_BUFFER msg \<noteq> None"
    by code_simp
  then obtain msg raw msg' where "postMessage (toy_http ?hs) (toString_ip ?ip) (str ''/x'') (str ''{}'') = Some msg"
    "encode HTTP_BUFFER msg = Some (raw, msg')" by (auto split: option.splits)
  moreover have "length (http_reply (toy_http ?hs)) \<le> 2048" by code_simp
  ultimately show ?thesis
    using esp_post_result [of ?ip "toy_http ?hs" "str ''{}''" "str ''/x''" msg raw msg' ?hs "str ''OK''" 200 "str ''abcd''" 2]
    by (simp add: toy_http_def connectUnmanagedTcpSocket_def isInvalid_def toy_number_to_string header_ok_def)
qed

section \<open>Packets of the interface\<close>







text \<open>Packets for Husarnet addresses, and no others, are routed to the interface.\<close>

lemma esp_route:
  assumes "length d = 16"
  shows "lwip_hook_ip6_route d \<longleftrightarrow> isFC94 (IpAddress d)"
proof -
  obtain x y u v where bs: "take 4 d = [x, y, u, v]" by (rule length_four [of "take 4 d"]) (simp add: assms)
  have "drop_bit 16 (be_word (take 4 d)) = le_word [y, x]"
    unfolding bs be_word_def by (rule bit_word_eqI) (auto simp: bit_simps dest: bit_imp_le_length)
  moreover have "le_word [y, x] = (0xFC94 :: u32) \<longleftrightarrow> y = 0x94 \<and> x = 0xFC"
  proof
    assume "le_word [y, x] = (0xFC94 :: u32)"
    also have "(0xFC94 :: u32) = le_word [0x94, 0xFC]" by (simp add: push_bit_eq_mult)
    finally have "[y, x] = [0x94, 0xFC]" by (rule le_word_inject) simp_all
    then show "y = 0x94 \<and> x = 0xFC" by simp
  qed (simp add: push_bit_eq_mult)
  moreover have "d ! 0 = x" "d ! 1 = y" using nth_take [of 0 4 d] nth_take [of 1 4 d] bs by simp_all
  ultimately show ?thesis by (auto simp: lwip_hook_ip6_route_def isFC94_def)
qed

text \<open>The address given to lwIP as the destination of a packet is its source.\<close>

lemma esp_destination_is_source:
  assumes "length src = 16" and "length dst = 16"
  shows "onLowerLayerData_esp (ip6_header n protocol src dst @ payload) = Some (src, ip6_header n protocol src dst @ payload)"
  using assms by (simp add: onLowerLayerData_esp_def ip6_header_def chunk_def)

text \<open>The addresses reported are the first characters of the printed ones.\<close>

lemma esp_reports_text:
  assumes "16 \<le> length (ntoa6 a)" and "a \<noteq> replicate 16 0" and "a \<noteq> replicate 15 0 @ [1]"
  shows "getLocalAddresses_esp ntoa6 ntoa4 buf [\<lparr>netif_ip6 = [a], netif_ip4 = None\<rparr>] = Some [IpAddress (take 16 (ntoa6 a))]"
  using assms by (simp add: getLocalAddresses_esp_def localAddressesOf_def fromBinary_def print_into_def)

section \<open>Joining\<close>

primrec joins :: "api_env \<Rightarrow> nvs \<Rightarrow> (ipaddress \<times> bytes \<times> bytes) list \<Rightarrow> bool \<Rightarrow> api_call list" where
  "joins e n [] started = []"
| "joins e n (x # xs) started =
     (case x of (apiAddress, hostname, joinCode) \<Rightarrow>
        (case join e apiAddress n hostname joinCode started of
           (started, sent) \<Rightarrow> (case sent of None \<Rightarrow> [] | Some c \<Rightarrow> [c]) @ joins e n xs started))"

lemma joins_started: "joins e n xs True = []"
  by (induction xs) (auto simp: join_def)

text \<open>However often \<open>join\<close> is called, at most one claim is sent, and only the first call with a join code
  can send it: if the control plane is not known by then, no later call does.\<close>

theorem esp_join_once:
  shows "joins e n calls False =
    (case dropWhile (\<lambda>(a, h, code). c_str code = []) calls of
       [] \<Rightarrow> []
     | (a, h, code) # rest \<Rightarrow>
         if isInvalid a then [] else [postClaim e a (c_str code) (if c_str h = [] then getSelfHostname_esp n else c_str h)])"
proof (induction calls)
  case (Cons x xs)
  obtain a h code where x: "x = (a, h, code)" by (cases x)
  show ?case using Cons by (cases "c_str code = []") (auto simp: x join_def joins_started Let_def)
qed simp

text \<open>A host name kept in the storage is sent with a zero byte at its end.\<close>

lemma stored_hostname_zero:
  assumes "setSelfHostname_esp h n = (True, n')" and "nvs_readable n" and "\<not> isInvalid a" and "c_str code \<noteq> []"
  shows "\<exists>c. join e a n' [] code False = (True, Some c) \<and>
    call_body c = str ''{\"code\":\"'' @ c_str code @ str ''\",\"hostname\":\"'' @ c_str h @ [0, 34, 125]"
  using assms read_after_write [of NVS_HOSTNAME_KEY h n n']
  by (simp add: join_def c_str_def setSelfHostname_esp_def getSelfHostname_esp_def postClaim_def Let_def)

text \<open>The address a C program gets fits the memory it gave, and its text reads back as the address of the
  node.\<close>

theorem esp_ip_address:
  assumes "ip_wf (deviceId i)" and "length junk = 4" and "husarnet_get_ip_address i room = Some memory"
  shows "length memory \<le> room \<and> IpAddress_parse junk (c_str memory) = Some (deviceId i)"
proof -
  have m: "memory = toString_ip (deviceId i) @ [0]" "length memory \<le> room"
    using assms(3) by (auto simp: husarnet_get_ip_address_def Let_def split: if_splits)
  have "c_str memory = toString_ip (deviceId i)" using toString_ip_class(2) [of "deviceId i"]
    by (auto simp: m(1) c_str_def takeWhile_append)
  then show ?thesis using m(2) IpAddress_parse_toString [OF assms(1,2)] by simp
qed

theorem esp_ip_address_witness:
  "\<exists>memory. husarnet_get_ip_address \<lparr>pubkey = [], privkey = [], deviceId = IpAddress (0xfc # 0x94 # replicate 14 0)\<rparr> 40 = Some memory \<and>
     IpAddress_parse [0, 0, 0, 0] (c_str memory) = Some (IpAddress (0xfc # 0x94 # replicate 14 0))"
proof -
  let ?i = "\<lparr>pubkey = [], privkey = [], deviceId = IpAddress (0xfc # 0x94 # replicate 14 0)\<rparr>"
  have "husarnet_get_ip_address ?i 40 \<noteq> None" by code_simp
  then obtain memory where "husarnet_get_ip_address ?i 40 = Some memory" by auto
  then show ?thesis using esp_ip_address [of ?i "[0, 0, 0, 0]" 40 memory] by (simp add: ip_wf_def)
qed

end
