(* ===== verification/LinuxPort.thy ===== *)
theory LinuxPort
  imports FatPort
begin

text \<open>
  \<open>ports/linux/filesystem.cpp\<close> and \<open>ports/linux/port.cpp\<close>: how a file is changed in place on Linux, and
  which addresses the host has.  The answers of the operating system (whether a rename, a lease, a
  seek succeeds, how much a read returns, whether \<open>realloc\<close> moves a block) are fields of \<open>file_io\<close>.
  \<open>None\<close> is an exception nobody catches, the end of the process, or the use of memory that
  \<open>realloc\<close> has moved.

  The results: for a file that fits the first buffer, the three ways of changing it are together
  equivalent to the portable one, whatever fails before the file is written; a larger file is cut
  when it is changed under a lease; the addresses reported are those of the interfaces, without
  link-local ones and without those of ZeroTier.
\<close>

section \<open>Files\<close>

record file_io =
  rename_ok :: bool
  remove_ok :: bool
  open_ok :: bool
  lease_ok :: bool
  read_size :: "nat \<Rightarrow> int"
  realloc_moves :: "nat \<Rightarrow> bool"
  seek_ok :: bool
  write_size :: "nat \<Rightarrow> nat"
  truncate_ok :: bool

definition tmpPath :: "path \<Rightarrow> path" where
  "tmpPath p = p @ str ''.tmp''"

definition transformTmpFile :: "file_io \<Rightarrow> path \<Rightarrow> (bytes \<Rightarrow> bytes) \<Rightarrow> filesystem \<Rightarrow> (bool \<times> filesystem) option" where
  "transformTmpFile io p transform fs = do {
     oldContent \<leftarrow> readFile fs p;
     let newContent = transform oldContent;
     let (written, fs) = writeFile (tmpPath p) newContent fs;
     if \<not> written then Some (False, fs)
     else if \<not> rename_ok io then Some (False, fs)
     else
       let fs = fs\<lparr>files := (files fs)(p := files fs (tmpPath p), tmpPath p := files fs p)\<rparr> in
       if \<not> remove_ok io then None
       else Some (True, fs\<lparr>files := (files fs)(tmpPath p := None)\<rparr>)
   }"

text \<open>The loop that reads the file: \<open>read\<close> fails, or returns at most what there is room for and what
  is left of the file.  The room is computed before the buffer grows.\<close>

datatype read_outcome = ReadError | BadMemory | ReadAll bytes

function readLoop :: "file_io \<Rightarrow> bytes \<Rightarrow> nat \<Rightarrow> nat \<Rightarrow> read_outcome" where
  "readLoop io content pos bufferSize =
     (let sizeLeft = bufferSize - 1 - pos;
          grow = sizeLeft \<le> 1024;
          bufferSize = (if grow then bufferSize * 2 else bufferSize)
      in if grow \<and> realloc_moves io bufferSize then BadMemory
         else if read_size io pos < 0 then ReadError
         else
           let bytesRead = min (nat (read_size io pos)) (min sizeLeft (length content - pos)) in
           if bytesRead = 0 then ReadAll (take pos content)
           else readLoop io content (pos + bytesRead) bufferSize)"
  by pat_completeness auto

termination
  by (relation "measure (\<lambda>(io, content, pos, bufferSize). length content - pos)") (auto simp: Let_def)

declare readLoop.simps [simp del]

definition transformLockFile :: "file_io \<Rightarrow> path \<Rightarrow> (bytes \<Rightarrow> bytes) \<Rightarrow> filesystem \<Rightarrow> (bool \<times> filesystem) option" where
  "transformLockFile io p transform fs =
     (if \<not> open_ok io then Some (False, fs)
      else if \<not> lease_ok io then Some (False, fs)
      else
        let content = the (files fs p) in
        case readLoop io content 0 (32 * 1024) of
          ReadError \<Rightarrow> Some (False, fs)
        | BadMemory \<Rightarrow> None
        | ReadAll buffer \<Rightarrow>
            let newContent = transform (c_str buffer);
                n = min (write_size io (length newContent)) (length newContent)
            in if \<not> seek_ok io then Some (False, fs)
               else
                 let fs = fs\<lparr>files := (files fs)(p \<mapsto> take n newContent @ drop n content)\<rparr> in
                 if n \<noteq> length newContent then Some (False, fs)
                 else if \<not> truncate_ok io then Some (False, fs)
                 else Some (True, fs\<lparr>files := (files fs)(p \<mapsto> newContent)\<rparr>))"

definition transformFile_linux :: "file_io \<Rightarrow> path \<Rightarrow> (bytes \<Rightarrow> bytes) \<Rightarrow> filesystem \<Rightarrow> (bool \<times> filesystem) option" where
  "transformFile_linux io p transform fs =
     (if \<not> isFile fs p then Some (writeFile p (transform []) fs)
      else do {
        (done, fs) \<leftarrow> transformTmpFile io p transform fs;
        if done then Some (True, fs)
        else do {
          (done, fs) \<leftarrow> transformLockFile io p transform fs;
          if done then Some (True, fs)
          else do {
            content \<leftarrow> readFile fs p;
            Some (writeFile p (transform content) fs)
          }
        }
      })"

section \<open>Addresses of the host\<close>

definition isInterfaceBlacklisted :: "bytes \<Rightarrow> bool" where
  "isInterfaceBlacklisted name \<longleftrightarrow> length name > 2 \<and> take 2 name = str ''zt'' \<or> name = str ''hnetl2''"

text \<open>The answer of \<open>SIOCGIFCONF\<close>: names, and the address as it lies in memory where the family is
  \<open>AF_INET\<close>; \<open>None\<close> if a call fails.\<close>

fun ipv4OfInterface :: "bytes \<times> u32 option \<Rightarrow> ipaddress list option" where
  "ipv4OfInterface (ifname, saddr) =
     (if isInterfaceBlacklisted ifname then Some []
      else case saddr of
        None \<Rightarrow> Some []
      | Some addr32 \<Rightarrow> do {
          a \<leftarrow> fromBinary4_u32 addr32;
          Some (if addr32 = 0x7f000001 then [] else [a])
        })"

definition getLocalIpv4Addresses :: "(bytes \<times> u32 option) list option \<Rightarrow> ipaddress list option" where
  "getLocalIpv4Addresses configuration =
     (case configuration of
        None \<Rightarrow> Some []
      | Some requests \<Rightarrow> map_option concat (those (map ipv4OfInterface requests)))"

text \<open>\<open>fgets\<close> with a buffer of 100 bytes: up to 99 bytes, not beyond the end of a line.\<close>

definition fgets_size :: "bytes \<Rightarrow> nat" where
  "fgets_size s = min 99 (min (length s) (Suc (length (takeWhile (\<lambda>c. c \<noteq> 10) s))))"

function fgets_all :: "bytes \<Rightarrow> bytes list" where
  "fgets_all s = (if s = [] then [] else take (fgets_size s) s # fgets_all (drop (fgets_size s) s))"
  by pat_completeness auto

termination
  by (relation "measure length") (auto simp: fgets_size_def)

declare fgets_all.simps [simp del]

definition localhost6 :: ipaddress where
  "localhost6 = IpAddress (replicate 15 0 @ [1])"

definition ipv6OfLine :: "bytes \<Rightarrow> ipaddress list option" where
  "ipv6OfLine buf =
     (let line = c_str buf in
      if length line < 32 then Some []
      else do {
        ip \<leftarrow> fromBinaryString (decodeHex (take 32 line));
        if isLinkLocal ip then Some []
        else if ip = localhost6 then Some []
        else if length line < 44 then None
        else
          let ifname = dropWhile (\<lambda>c. c = 32) (drop 44 line) in
          Some (if isInterfaceBlacklisted ifname then [] else [ip])
      })"

definition getLocalIpv6Addresses :: "bytes \<Rightarrow> ipaddress list option" where
  "getLocalIpv6Addresses if_inet6 = map_option concat (those (map ipv6OfLine (fgets_all if_inet6)))"

definition getLocalAddresses_linux :: "(bytes \<times> u32 option) list option \<Rightarrow> bytes \<Rightarrow> ipaddress list option" where
  "getLocalAddresses_linux configuration if_inet6 = do {
     v4 \<leftarrow> getLocalIpv4Addresses configuration;
     v6 \<leftarrow> getLocalIpv6Addresses if_inet6;
     Some (v4 @ v6)
   }"

text \<open>The address of an interface, from the addresses of all interfaces as netlink lists them.\<close>

datatype family = AF_INET | AF_INET6 | AF_OTHER

fun interfaceAddress :: "int \<Rightarrow> ipaddress \<times> ipaddress \<Rightarrow> (int \<times> family \<times> bytes) list \<Rightarrow> (ipaddress \<times> ipaddress) option" where
  "interfaceAddress ifindex (ipv4, ipv6) [] = Some (ipv4, ipv6)"
| "interfaceAddress ifindex (ipv4, ipv6) ((index, family, d) # rest) =
     (if index = ifindex \<and> family = AF_INET then do {
        addr_ip \<leftarrow> fromBinary4 d;
        if \<not> isReservedNotPrivate addr_ip then Some (addr_ip, ipv6) else interfaceAddress ifindex (ipv4, ipv6) rest
      }
      else if index = ifindex \<and> family = AF_INET6 then do {
        addr_ip \<leftarrow> fromBinary d;
        interfaceAddress ifindex (ipv4, if isReservedNotPrivate addr_ip then addr_ip else ipv6) rest
      }
      else interfaceAddress ifindex (ipv4, ipv6) rest)"

text \<open>\<open>cache\<close> is absent if netlink cannot be asked, and \<open>ifindex\<close> is negative on an error.  The last argument
  and the second result say whether \<open>netlinkMutex\<close> is held; \<open>None\<close> is a wait for ever.\<close>

definition getIpAddressFromInterfaceName ::
  "int \<Rightarrow> (int \<times> family \<times> bytes) list option \<Rightarrow> bool \<Rightarrow> (ipaddress \<times> bool) option" where
  "getIpAddressFromInterfaceName ifindex cache locked =
     (if locked then None
      else case cache of
        None \<Rightarrow> Some (IpAddress_default, True)
      | Some addrs \<Rightarrow>
          if ifindex < 0 then Some (IpAddress_default, True)
          else map_option (\<lambda>(ipv4, ipv6). (if isMappedV4 ipv4 then ipv4 else ipv6, False))
            (interfaceAddress ifindex (IpAddress_default, IpAddress_default) addrs))"

text \<open>Setting up the interface: the requests to the kernel in their order, and whether the process goes
  on.\<close>

record netlink =
  tun_node :: bool
  mknod_ok :: bool
  tun_opens :: bool
  tun_allocated :: bool
  nl_connects :: bool
  link_known :: bool
  address_added :: bool
  link_changed :: bool
  route_added :: bool

datatype nl_request = EnableIpv6 bytes | AddAddress bytes nat | ChangeLink nat | AddRoute bytes nat

definition multicastDestination :: bytes where
  "multicastDestination = [0xff, 0x15, 0xf2, 0xd3, 0xa3, 0x89] @ replicate 10 0"

definition openTun_linux :: "netlink \<Rightarrow> bytes \<Rightarrow> bool" where
  "openTun_linux nl name =
     (if \<not> tun_opens nl then False
      else if \<not> length name < 16 then False
      else tun_allocated nl)"

text \<open>The file that is set to 0.\<close>

definition linkEnableIPv6 :: "bytes \<Rightarrow> nl_request" where
  "linkEnableIPv6 interface = EnableIpv6 (str ''/proc/sys/net/ipv6/conf/'' @ interface @ str ''/disable_ipv6'')"

definition startTun_linux :: "netlink \<Rightarrow> ipaddress \<Rightarrow> bytes \<Rightarrow> bool \<Rightarrow> (nl_request list \<times> bool) option" where
  "startTun_linux nl myAddress interfaceName locked =
     (if locked then None
      else if \<not> tun_node nl \<and> \<not> mknod_ok nl then Some ([], False)
      else if \<not> openTun_linux nl interfaceName then Some ([], False)
      else
        let rs = [linkEnableIPv6 (str ''lo''), linkEnableIPv6 interfaceName] in
        if \<not> nl_connects nl then Some (rs, False)
        else if \<not> link_known nl then Some (rs, False)
        else
          let rs = rs @ [AddAddress (ip_data myAddress) 16] in
          if \<not> address_added nl then Some (rs, False)
          else
            let rs = rs @ [ChangeLink 1350] in
            if \<not> link_changed nl then Some (rs, False)
            else
              let rs = rs @ [AddRoute multicastDestination 48] in
              if \<not> route_added nl then Some (rs, False) else Some (rs, True))"

text \<open>Where systemd is told that the daemon is ready.\<close>

definition notifyPath :: "bytes \<Rightarrow> bytes option" where
  "notifyPath sockPath =
     (if \<not> length sockPath < 107 then None
      else Some (if sockPath \<noteq> [] \<and> sockPath ! 0 = 64 then sockPath[0 := 0] else sockPath))"

section \<open>Changing a file\<close>

lemma readLoop_small:
  assumes "length content < 31743" and "\<And>k. read_size io k \<noteq> 0" and "pos \<le> length content"
  shows "readLoop io content pos 32768 = ReadError \<or> readLoop io content pos 32768 = ReadAll content"
  using assms(3)
proof (induction "length content - pos" arbitrary: pos rule: less_induct)
  case less
  let ?n = "min (nat (read_size io pos)) (min (32767 - pos) (length content - pos))"
  have grow: "\<not> 32767 - pos \<le> 1024" using less.prems assms(1) by simp
  show ?case
  proof (cases "read_size io pos < 0 \<or> pos = length content")
    case True
    then show ?thesis using grow by (auto simp: readLoop.simps [of io content pos] Let_def)
  next
    case False
    then have n: "0 < ?n" using less.prems assms(1) assms(2) [of pos] by simp
    then have "readLoop io content pos 32768 = readLoop io content (pos + ?n) 32768"
      using False grow by (simp add: readLoop.simps [of io content pos] Let_def)
    moreover have "readLoop io content (pos + ?n) 32768 = ReadError \<or> readLoop io content (pos + ?n) 32768 = ReadAll content"
    proof (rule less.hyps)
      show "length content - (pos + ?n) < length content - pos" using n by linarith
      show "pos + ?n \<le> length content" using less.prems by linarith
    qed
    ultimately show ?thesis by simp
  qed
qed

definition atomic_io :: "file_io \<Rightarrow> bool" where
  "atomic_io io \<longleftrightarrow> (\<forall>k. read_size io k \<noteq> 0) \<and> (\<forall>n. write_size io n = n) \<and> truncate_ok io \<and> remove_ok io"

text \<open>What each way of changing the file gives: the change, or the file as it was.\<close>

definition changed :: "path \<Rightarrow> bytes \<Rightarrow> bytes \<Rightarrow> filesystem \<Rightarrow> (bool \<times> filesystem) option \<Rightarrow> bool" where
  "changed p old new fs r \<longleftrightarrow>
     (\<exists>ok fs'. r = Some (ok, fs') \<and> files fs' p = Some (if ok then new else old) \<and> readable fs' = readable fs \<and> writable fs' = writable fs \<and>
        (\<forall>q. q \<noteq> p \<and> q \<noteq> tmpPath p \<longrightarrow> files fs' q = files fs q))"

lemma tmpPath_neq [simp]: "tmpPath p \<noteq> p" "p \<noteq> tmpPath p"
  by (simp_all add: tmpPath_def)

lemma tmp_changed:
  assumes "files fs p = Some c" and "readable fs p" and "atomic_io io"
  shows "changed p c (transform c) fs (transformTmpFile io p transform fs)"
  using assms by (auto simp: changed_def transformTmpFile_def readFile_def isFile_def writeFile_def atomic_io_def)

lemma lock_changed:
  assumes "files fs p = Some c" and "atomic_io io" and "0 \<notin> set c" and "length c < 31743"
  shows "changed p c (transform c) fs (transformLockFile io p transform fs)"
proof -
  have "readLoop io c 0 32768 = ReadError \<or> readLoop io c 0 32768 = ReadAll c"
    using readLoop_small [of c io 0] assms(2,4) by (simp add: atomic_io_def)
  then show ?thesis using assms c_str_id [of c] by (auto simp: changed_def transformLockFile_def atomic_io_def Let_def)
qed

lemma linux_changed:
  assumes "files fs p = Some c" and "readable fs p" and "atomic_io io" and "0 \<notin> set c" and "length c < 31743"
  shows "changed p c (transform c) fs (transformFile_linux io p transform fs) \<and>
    (writable fs p \<longrightarrow> (\<exists>fs'. transformFile_linux io p transform fs = Some (True, fs')))"
proof -
  obtain ok1 fs1 where one: "transformTmpFile io p transform fs = Some (ok1, fs1)" "files fs1 p = Some (if ok1 then transform c else c)"
    "readable fs1 = readable fs" "writable fs1 = writable fs" "\<forall>q. q \<noteq> p \<and> q \<noteq> tmpPath p \<longrightarrow> files fs1 q = files fs q"
    using tmp_changed [OF assms(1-3), of transform] unfolding changed_def by auto
  show ?thesis
  proof (cases ok1)
    case True
    then show ?thesis using one assms(1) by (auto simp: changed_def transformFile_linux_def isFile_def)
  next
    case False
    then have "files fs1 p = Some c" using one(2) by simp
    then obtain ok2 fs2 where two: "transformLockFile io p transform fs1 = Some (ok2, fs2)" "files fs2 p = Some (if ok2 then transform c else c)"
      "readable fs2 = readable fs" "writable fs2 = writable fs" "\<forall>q. q \<noteq> p \<and> q \<noteq> tmpPath p \<longrightarrow> files fs2 q = files fs q"
      using lock_changed [OF _ assms(3-5), of fs1 p transform] one(3-5) unfolding changed_def by auto
    show ?thesis using False one(1) two assms(1,2)
      by (auto simp: changed_def transformFile_linux_def isFile_def readFile_def writeFile_def)
  qed
qed

text \<open>C34: For a readable file of fewer than 31743 bytes without zero bytes, changing it on Linux does what
  the portable version does, whichever of renaming, opening, leasing, reading and seeking fail: the
  process goes on; if the file may be written, both report success and leave the same contents;
  otherwise the file has its old contents or all of the new ones, as reported; and no other file
  is touched but the temporary one.\<close>

theorem transform_file_equivalent:
  assumes "files fs p = Some c" and "readable fs p" and "atomic_io io" and "0 \<notin> set c" and "length c < 31743"
  shows "\<exists>ok fs'. transformFile_linux io p transform fs = Some (ok, fs') \<and>
    files fs' p = Some (if ok then transform c else c) \<and>
    (\<forall>q. q \<noteq> p \<and> q \<noteq> tmpPath p \<longrightarrow> files fs' q = files fs q) \<and>
    (writable fs p \<longrightarrow> ok \<and> (\<exists>fs''. transformFile p transform fs = Some (True, fs'') \<and> files fs' p = files fs'' p))"
proof -
  obtain ok fs' where l: "transformFile_linux io p transform fs = Some (ok, fs')" "files fs' p = Some (if ok then transform c else c)"
    "\<forall>q. q \<noteq> p \<and> q \<noteq> tmpPath p \<longrightarrow> files fs' q = files fs q" "writable fs p \<longrightarrow> ok"
    using linux_changed [OF assms, of transform] unfolding changed_def by auto
  moreover have "writable fs p \<Longrightarrow> transformFile p transform fs = Some (True, fs\<lparr>files := (files fs)(p \<mapsto> transform c)\<rparr>)"
    using assms(1,2) by (simp add: transformFile_def isFile_def readFile_def writeFile_def)
  ultimately show ?thesis by auto
qed

definition toy_io :: file_io where
  "toy_io = \<lparr>rename_ok = False, remove_ok = True, open_ok = True, lease_ok = True, read_size = (\<lambda>_. 3), realloc_moves = (\<lambda>_. True),
     seek_ok = True, write_size = (\<lambda>n. n), truncate_ok = True\<rparr>"

theorem transform_file_equivalent_witness:
  "\<exists>fs'. transformFile_linux toy_io (str ''a'') (\<lambda>c. c @ [7]) \<lparr>files = [str ''a'' \<mapsto> [1, 2, 3, 4]], readable = (\<lambda>_. True), writable = (\<lambda>_. True)\<rparr> =
     Some (True, fs') \<and> files fs' (str ''a'') = Some [1, 2, 3, 4, 7]"
  using transform_file_equivalent [of "\<lparr>files = [str ''a'' \<mapsto> [1, 2, 3, 4]], readable = (\<lambda>_. True), writable = (\<lambda>_. True)\<rparr>"
      "str ''a''" "[1, 2, 3, 4]" toy_io "\<lambda>c. c @ [7]"]
  by (auto simp: atomic_io_def toy_io_def)

text \<open>A longer file is cut at the end of the first buffer when it is changed under a lease, even if the
  buffer grows in place: the room left was computed before, and a read of no bytes looks like the
  end of the file.\<close>

lemma lease_cuts_file:
  assumes "32767 \<le> length content" and "\<And>k. 32767 \<le> read_size io k" and "\<And>k. \<not> realloc_moves io k"
  shows "readLoop io content 0 (32 * 1024) = ReadAll (take 32767 content)"
proof -
  have big: "nat (read_size io 0) \<ge> 32767" using assms(2) [of 0] by linarith
  have pos: "\<not> read_size io k < 0" for k using assms(2) [of k] by linarith
  have "readLoop io content 0 32768 = readLoop io content 32767 32768"
    using assms(1) big pos [of 0] by (simp add: readLoop.simps [of io content 0] Let_def)
  also have "\<dots> = ReadAll (take 32767 content)"
    using assms(3) pos [of 32767] by (simp add: readLoop.simps [of io content 32767] Let_def)
  finally show ?thesis by simp
qed

section \<open>The addresses reported\<close>

text \<open>A line of \<open>if_inet6\<close> as the kernel writes it: the address in hexadecimal, twelve characters of
  numbers, and the name of the interface after at least one blank.\<close>

record if_entry =
  if_address :: bytes
  if_numbers :: bytes
  if_blanks :: nat
  if_name :: bytes

definition if_line :: "if_entry \<Rightarrow> bytes" where
  "if_line e = encodeHex (if_address e) @ if_numbers e @ replicate (if_blanks e) 32 @ if_name e @ [10]"

definition if_entry_ok :: "if_entry \<Rightarrow> bool" where
  "if_entry_ok e \<longleftrightarrow> length (if_address e) = 16 \<and> length (if_numbers e) = 12 \<and> 0 \<notin> set (if_numbers e @ if_name e) \<and>
     10 \<notin> set (if_numbers e @ if_name e) \<and> 32 \<notin> set (if_name e) \<and> if_name e \<noteq> [] \<and> length (if_line e) \<le> 99"

definition reported :: "if_entry \<Rightarrow> bool" where
  "reported e \<longleftrightarrow> \<not> isLinkLocal (IpAddress (if_address e)) \<and> IpAddress (if_address e) \<noteq> localhost6 \<and> take 2 (if_name e) \<noteq> str ''zt''"

lemma if_line_plain:
  assumes "if_entry_ok e"
  shows "0 \<notin> set (if_line e)" "10 \<notin> set (butlast (if_line e))" "length (if_line e) \<ge> 45" "last (if_line e) = 10"
proof -
  have "0 \<notin> set hexLetters" "10 \<notin> set hexLetters" by (simp_all add: hexLetters_def)
  then show "0 \<notin> set (if_line e)" "10 \<notin> set (butlast (if_line e))"
    using assms encodeHex_no_control by (auto simp: if_line_def if_entry_ok_def butlast_append)
  show "length (if_line e) \<ge> 45" "last (if_line e) = 10" using assms by (auto simp: if_line_def if_entry_ok_def)
qed

lemma fgets_line:
  assumes "line = body @ [10]" and "10 \<notin> set body" and "length line \<le> 99"
  shows "fgets_all (line @ rest) = line # fgets_all rest"
proof -
  have "takeWhile (\<lambda>c. c \<noteq> 10) (line @ rest) = body" using assms(1,2) by (simp add: takeWhile_append takeWhile_tail)
  then have "fgets_size (line @ rest) = length line" using assms by (simp add: fgets_size_def)
  then show ?thesis using assms(1) by (simp add: fgets_all.simps [of "body @ 10 # rest"])
qed

lemma fgets_lines: "list_all if_entry_ok es \<Longrightarrow> fgets_all (concat (map if_line es)) = map if_line es"
proof (induction es)
  case Nil
  then show ?case by (simp add: fgets_all.simps)
next
  case (Cons e es)
  then have e: "if_entry_ok e" by simp
  have "if_line e = butlast (if_line e) @ [10]" using if_line_plain(3,4) [OF e] by (cases "if_line e" rule: rev_cases) auto
  then have "fgets_all (if_line e @ concat (map if_line es)) = if_line e # fgets_all (concat (map if_line es))"
    using fgets_line if_line_plain(2) [OF e] e unfolding if_entry_ok_def by blast
  then show ?case using Cons by simp
qed

lemma ipv6_of_line:
  assumes "if_entry_ok e"
  shows "ipv6OfLine (if_line e) = Some (if reported e then [IpAddress (if_address e)] else [])"
proof -
  have l: "length (encodeHex (if_address e)) = 32" using assms by (simp add: if_entry_ok_def)
  have c: "c_str (if_line e) = if_line e" by (rule c_str_id [OF if_line_plain(1) [OF assms]])
  have d: "drop 44 (if_line e) = replicate (if_blanks e) 32 @ if_name e @ [10]" "take 32 (if_line e) = encodeHex (if_address e)"
    using assms l by (simp_all add: if_line_def if_entry_ok_def)
  obtain x n where n: "if_name e = x # n" "x \<noteq> 32" using assms by (cases "if_name e") (auto simp: if_entry_ok_def)
  have name: "dropWhile (\<lambda>c. c = 32) (drop 44 (if_line e)) = if_name e @ [10]"
    unfolding d using n by (simp add: dropWhile_append)
  have black: "isInterfaceBlacklisted (if_name e @ [10]) \<longleftrightarrow> take 2 (if_name e) = str ''zt''"
  proof -
    have "last (if_name e @ [10]) \<noteq> last (str ''hnetl2'')" by simp
    then have "if_name e @ [10] \<noteq> str ''hnetl2''" by metis
    then show ?thesis using n by (cases n) (auto simp: isInterfaceBlacklisted_def)
  qed
  show ?thesis using assms if_line_plain(3) [OF assms]
    by (simp add: ipv6OfLine_def Let_def c d(2) name black fromBinaryString_def if_entry_ok_def reported_def)
qed

lemma those_some: "those (map (\<lambda>x. Some (f x)) xs) = Some (map f xs)"
  by (induction xs) simp_all

text \<open>Whatever interfaces the kernel lists, the IPv6 addresses reported are those of the lines, in their
  order, that are neither link-local nor the loopback address and whose interface is not named like
  one of ZeroTier.  (The other name the code excludes, \<open>hnetl2\<close>, is compared with the line end
  still attached and never recognised.)\<close>

theorem local_ipv6_addresses:
  assumes "list_all if_entry_ok es"
  shows "getLocalIpv6Addresses (concat (map if_line es)) = Some (map (\<lambda>e. IpAddress (if_address e)) (filter reported es))"
proof -
  have "map ipv6OfLine (map if_line es) = map (\<lambda>e. Some (if reported e then [IpAddress (if_address e)] else [])) es"
    using assms ipv6_of_line by (simp add: list_all_iff)
  moreover have "concat (map (\<lambda>e. if reported e then [IpAddress (if_address e)] else []) es) = map (\<lambda>e. IpAddress (if_address e)) (filter reported es)"
    by (induction es) simp_all
  ultimately show ?thesis by (simp only: getLocalIpv6Addresses_def fgets_lines [OF assms] those_some option.map)
qed

definition toy_entry :: "bytes \<Rightarrow> if_entry" where
  "toy_entry name = \<lparr>if_address = replicate 16 0x20, if_numbers = str '' 02 40 00 80'', if_blanks = 5, if_name = name\<rparr>"

theorem local_ipv6_addresses_witness:
  "getLocalIpv6Addresses (if_line (toy_entry (str ''hnetl2'')) @ if_line (toy_entry (str ''zt0''))) = Some [IpAddress (replicate 16 0x20)]"
proof -
  have "list_all if_entry_ok [toy_entry (str ''hnetl2''), toy_entry (str ''zt0'')]"
    by (simp add: toy_entry_def if_entry_ok_def if_line_def)
  moreover have "reported (toy_entry (str ''hnetl2''))" "\<not> reported (toy_entry (str ''zt0''))" by code_simp+
  ultimately show ?thesis using local_ipv6_addresses [of "[toy_entry (str ''hnetl2''), toy_entry (str ''zt0'')]"]
    by (simp add: toy_entry_def)
qed

text \<open>The IPv4 loopback address is meant to be left out, but is compared in the wrong byte order.\<close>

lemma loopback_reported: "getLocalIpv4Addresses (Some [(str ''lo'', Some (le_word [127, 0, 0, 1]))]) = Some [IpAddress (replicate 10 0 @ [0xFF, 0xFF, 127, 0, 0, 1])]"
  by code_simp

section \<open>The netlink lock\<close>

text \<open>A request for an address that fails leaves the lock held, and the interface can then never be set
  up; after a successful one it is set up, unless the kernel refuses.\<close>

lemma netlink_lock:
  assumes "getIpAddressFromInterfaceName ifindex cache False = Some (a, locked)"
  shows "startTun_linux nl address name locked = None \<longleftrightarrow> cache = None \<or> ifindex < 0"
  using assms by (auto simp: getIpAddressFromInterfaceName_def startTun_linux_def Let_def split: option.splits if_splits)

end
