(* ===== verification/Desktop.thy ===== *)
theory Desktop
  imports Daemon LinuxPort
begin

text \<open>
  The other desktop ports: \<open>ports/macos\<close>, \<open>ports/windows\<close> and the resolver, the HTTP client and the hooks
  of \<open>ports/fat/port.cpp\<close>.  System calls are fields of records or arguments; a command run by the
  shell is its text or, for the firewall, a constructor with the effect Windows documents.

  The results: what is written to the macOS interface is read back without its prefix, and which
  reads abort; the interface taken is the first free one; the Windows firewall has exactly one rule
  of ours after any number of starts; only executable scripts with the right extension are run.
\<close>

section \<open>Portable\<close>

text \<open>The last address of the list wins; the result is the default address on a failure.\<close>

datatype ares_node = Node4 u32 | Node6 bytes | NodeOther

primrec ares_nodes :: "ares_node list \<Rightarrow> ipaddress \<Rightarrow> ipaddress option" where
  "ares_nodes [] a = Some a"
| "ares_nodes (n # ns) a =
     (case n of
        Node4 x \<Rightarrow> fromBinary4_u32 x \<bind> ares_nodes ns
      | Node6 x \<Rightarrow> fromBinary x \<bind> ares_nodes ns
      | NodeOther \<Rightarrow> ares_nodes ns a)"

definition ares_local_callback :: "ares_node list option \<Rightarrow> ipaddress \<Rightarrow> ipaddress option" where
  "ares_local_callback addrinfo a = (case addrinfo of None \<Rightarrow> Some a | Some ns \<Rightarrow> ares_nodes ns a)"

definition resolveToIp_fat :: "bool \<Rightarrow> (bytes \<Rightarrow> ares_node list option) \<Rightarrow> bytes \<Rightarrow> ipaddress option" where
  "resolveToIp_fat ares_init_ok getaddrinfo hostname =
     (if hostname = [] then Some IpAddress_default
      else if \<not> ares_init_ok then Some IpAddress_default
      else ares_local_callback (getaddrinfo (c_str hostname)) IpAddress_default)"

text \<open>The HTTP library answers with status and body, or fails; the failed result is the status 0.\<close>

definition httpGet_fat :: "(bytes \<Rightarrow> bytes \<Rightarrow> (int \<times> bytes) option) \<Rightarrow> bytes \<Rightarrow> bytes \<Rightarrow> int \<times> bytes" where
  "httpGet_fat client host p = (case client host p of Some r \<Rightarrow> r | None \<Rightarrow> (0, []))"

definition httpGet_fat_ip :: "(bytes \<Rightarrow> bytes \<Rightarrow> (int \<times> bytes) option) \<Rightarrow> ipaddress \<Rightarrow> bytes \<Rightarrow> int \<times> bytes" where
  "httpGet_fat_ip client ip p = httpGet_fat client (toString_ip ip) p"

definition httpPost_fat :: "(bytes \<Rightarrow> bytes \<Rightarrow> bytes \<Rightarrow> bytes \<Rightarrow> (int \<times> bytes) option) \<Rightarrow> bytes \<Rightarrow> bytes \<Rightarrow> bytes \<Rightarrow> int \<times> bytes" where
  "httpPost_fat client host p content =
     (case client host p content (str ''application/json'') of Some r \<Rightarrow> r | None \<Rightarrow> (0, []))"

definition httpPost_fat_ip :: "(bytes \<Rightarrow> bytes \<Rightarrow> bytes \<Rightarrow> bytes \<Rightarrow> (int \<times> bytes) option) \<Rightarrow> ipaddress \<Rightarrow> bytes \<Rightarrow> bytes \<Rightarrow> int \<times> bytes" where
  "httpPost_fat_ip client ip p content = httpPost_fat client (toString_ip ip) p content"

definition hookPath :: "HookType \<Rightarrow> path" where
  "hookPath h = configDir @ str ''files/hook_'' @ (case h of claimed_hook \<Rightarrow> str ''claimed'' | unclaimed_hook \<Rightarrow> str ''unclaimed'')"

text \<open>Whether the hook is started, and the command.\<close>

definition runHook :: "(path \<Rightarrow> bool) \<Rightarrow> HookType \<Rightarrow> bool \<times> bytes option" where
  "runHook executable h =
     (if \<not> executable (hookPath h) then (False, None) else (True, Some (hookPath h @ str '' 2>&1'')))"

section \<open>macOS\<close>

text \<open>The unit numbers from 1 to 9 are tried; \<open>connects\<close> says which of them can be taken.\<close>

function openUtun :: "(nat \<Rightarrow> bool) \<Rightarrow> int \<Rightarrow> nat \<Rightarrow> (int \<times> bytes) option" where
  "openUtun connects fd unitNumber =
     (if unitNumber < 10 then
        if \<not> connects unitNumber then openUtun connects fd (unitNumber + 1)
        else Some (fd, str ''utun'' @ to_string (unitNumber - 1))
      else None)"
  by pat_completeness auto

termination
  by (relation "measure (\<lambda>(connects, fd, unitNumber). 10 - unitNumber)") auto

declare openUtun.simps [simp del]

text \<open>The descriptor and the name; the socket may not be made, or the control not be known.\<close>

definition openTun_mac :: "int \<Rightarrow> bool \<Rightarrow> (nat \<Rightarrow> bool) \<Rightarrow> int \<times> bytes" where
  "openTun_mac fd control_known connects =
     (if fd = -1 then (-1, [])
      else if \<not> control_known then (-1, [])
      else case openUtun connects fd 1 of None \<Rightarrow> (-1, []) | Some r \<Rightarrow> r)"

definition onTunData_mac :: "tun_read \<Rightarrow> int \<Rightarrow> (bytes option \<times> int) option" where
  "onTunData_mac r fd =
     (let d = take TUN_BUFFER_SIZE (tun_bytes r) in
      if length d \<le> 0 then Some (None, if tun_eagain r then fd else -1)
      else if length d < 4 then None
      else Some (Some (drop 4 d), fd))"

definition onLowerLayerData_mac :: "bytes \<Rightarrow> bytes" where
  "onLowerLayerData_mac d = [0, 0, 0, 0x1e] @ d"

text \<open>The commands run at the start; the second is tried only if the first succeeds.\<close>

definition startTun_mac :: "(bytes \<Rightarrow> bool) \<Rightarrow> ipaddress \<Rightarrow> bytes \<Rightarrow> bytes list" where
  "startTun_mac succeeds_cmd myAddress utunName =
     (let c1 = str ''sysctl net.ipv6.conf.lo.disable_ipv6=0'';
          c2 = str ''sysctl net.ipv6.conf.'' @ utunName @ str ''.disable_ipv6=0''
      in (if succeeds_cmd c1 then [c1, c2] else [c1]) @
         [str ''ifconfig '' @ utunName @ str '' inet6 '' @ toString_ip myAddress,
          str ''route -nv add -inet6 fc94::/16 -interface '' @ utunName])"

definition getLocalAddresses_mac :: "(bytes \<times> u32 option) list option \<Rightarrow> ipaddress list option" where
  "getLocalAddresses_mac configuration = getLocalIpv4Addresses configuration"

text \<open>\<open>disk\<close> is the file system after the command has run.\<close>

definition getSelfHostname_mac :: "filesystem \<Rightarrow> bytes option" where
  "getSelfHostname_mac disk =
     (if \<not> isFile disk (str ''/tmp/hostname'') then Some (str ''macos-device'')
      else do {
        hostname \<leftarrow> readFile disk (str ''/tmp/hostname'');
        Some (if hostname \<noteq> [] then hostname else str ''macos-device'')
      })"

section \<open>Windows\<close>

datatype win_cmd = AddRoute6 bytes | RemoveRules bytes | NewRule bytes bytes

primrec cmd_text :: "win_cmd \<Rightarrow> bytes" where
  "cmd_text (AddRoute6 netshName) = str ''netsh interface ipv6 add route fc94::/16 '' @ [34] @ netshName @ [34]"
| "cmd_text (RemoveRules ruleName) =
     str ''powershell '' @ [34] @ str ''Remove-NetFirewallRule -DisplayName '' @ ruleName @ str '' | Out-Null '' @ [34]"
| "cmd_text (NewRule ruleName netshName) =
     str ''powershell '' @ [34] @ str ''New-NetFirewallRule -DisplayName '' @ ruleName @ str '' -Direction Inbound -Action Allow'' @
     str '' -LocalAddress fc94::/16 -RemoteAddress fc94::/16 '' @ str ''-InterfaceAlias '' @ netshName @ str '' | Out-Null'' @ [34]"

definition callWindowsCmd :: "win_cmd \<Rightarrow> bytes" where
  "callWindowsCmd c = [34] @ cmd_text c @ [34]"

definition setupRoutingTable :: "bytes \<Rightarrow> win_cmd list" where
  "setupRoutingTable netshName = [AddRoute6 netshName]"

definition deleteFirewallRules :: "bytes \<Rightarrow> win_cmd list" where
  "deleteFirewallRules ruleName = [RemoveRules ruleName]"

definition insertFirewallRule :: "bytes \<Rightarrow> bytes \<Rightarrow> win_cmd list" where
  "insertFirewallRule netshName ruleName = [NewRule ruleName netshName]"

definition setupFirewall :: "bytes \<Rightarrow> win_cmd list" where
  "setupFirewall netshName =
     (let firewallRuleName = str ''AllowHusarnet''
      in deleteFirewallRules firewallRuleName @ insertFirewallRule netshName firewallRuleName)"

text \<open>The adapter is opened, or made, or opened after all.\<close>

datatype create_result = Created | Access_denied | Already_exists | Create_failed

record wintun =
  opens_first :: bool
  creates :: create_result
  opens_last :: bool
  session_starts :: bool

definition acquireWintunAdapter :: "wintun \<Rightarrow> bool" where
  "acquireWintunAdapter w =
     (if opens_first w then True
      else case creates w of
        Created \<Rightarrow> True
      | Access_denied \<Rightarrow> False
      | Already_exists \<Rightarrow> opens_last w
      | Create_failed \<Rightarrow> False)"

definition start_win :: "wintun \<Rightarrow> bool" where
  "start_win w = (if \<not> acquireWintunAdapter w then False else session_starts w)"

definition networkAdapterName :: bytes where
  "networkAdapterName = str ''HusarnetNewImplementation''"

text \<open>The commands run, and whether the reader starts with a session.\<close>

definition startTun_win :: "wintun \<Rightarrow> win_cmd list \<times> bool" where
  "startTun_win w = (setupRoutingTable networkAdapterName @ setupFirewall networkAdapterName, start_win w)"

text \<open>The packets that reach the driver: \<open>room\<close> says whether the ring takes a packet of this size.\<close>

definition onLowerLayerData_win :: "(nat \<Rightarrow> bool) \<Rightarrow> bytes \<Rightarrow> bytes option" where
  "onLowerLayerData_win room d = (if room (length d) then Some d else None)"

definition getLocalAddresses_win :: "sockaddr list list \<Rightarrow> ipaddress list" where
  "getLocalAddresses_win adapters = concat (map (map (\<lambda>a. ip_of (ipFromSockaddr a))) adapters)"

record dir_entry =
  entry_path :: bytes
  entry_extension :: bytes
  owner_exec :: bool

text \<open>\<open>None\<close> where the environment has no \<open>PROGRAMDATA\<close>; \<open>dir\<close> lists a directory, or says there is none.\<close>

definition getAvailableScripts :: "bytes option \<Rightarrow> (bytes \<Rightarrow> dir_entry list option) \<Rightarrow> bytes \<Rightarrow> bytes list option" where
  "getAvailableScripts programdata dir p =
     (case programdata of
        None \<Rightarrow> None
      | Some conf_path \<Rightarrow>
          (case dir (conf_path @ [92] @ str ''Husarnet'' @ [92] @ p) of
             None \<Rightarrow> Some []
           | Some entries \<Rightarrow> Some (concat (map (\<lambda>entry.
               if entry_extension entry \<noteq> str ''.ps1'' then []
               else if \<not> owner_exec entry then []
               else [entry_path entry]) entries))))"

definition runScripts_win :: "bytes option \<Rightarrow> (bytes \<Rightarrow> dir_entry list option) \<Rightarrow> bytes \<Rightarrow> bytes list option" where
  "runScripts_win programdata dir eventName =
     map_option (map (\<lambda>s. str ''powershell.exe -File '' @ s)) (getAvailableScripts programdata dir eventName)"

definition checkScriptsExist_win :: "bytes option \<Rightarrow> (bytes \<Rightarrow> dir_entry list option) \<Rightarrow> bytes \<Rightarrow> bool option" where
  "checkScriptsExist_win programdata dir eventName = map_option (\<lambda>s. s \<noteq> []) (getAvailableScripts programdata dir eventName)"

section \<open>Properties\<close>

text \<open>The resolver gives the last address of the answer.\<close>

lemma ares_last:
  assumes "\<And>x. Node6 x \<in> set ns \<Longrightarrow> length x = 16"
  shows "ares_nodes ns a = Some (last (a # concat (map (\<lambda>n. case n of
    Node4 x \<Rightarrow> [IpAddress (replicate 10 0 @ [0xFF, 0xFF] @ pack x)] | Node6 x \<Rightarrow> [IpAddress x] | NodeOther \<Rightarrow> []) ns)))"
  using assms
proof (induction ns arbitrary: a)
  case (Cons n ns)
  have "(take 12 (ip_data IpAddress_default))[0 := 0, 1 := 0, 10 := 0xFF, 11 := 0xFF] = replicate 10 0 @ [0xFF, 0xFF]" by code_simp
  then have "fromBinary4_u32 x = Some (IpAddress (replicate 10 0 @ [0xFF, 0xFF] @ pack x))" for x
    by (simp only: fromBinary4_u32_def fromBinary4_def) simp
  moreover have "fromBinary x = Some (IpAddress x)" if "n = Node6 x" for x
    using Cons.prems [of x] that by (simp add: fromBinary_def)
  ultimately show ?case using Cons by (cases n) auto
qed simp

lemma openUtun_first:
  "openUtun connects fd k = (case find connects [k..<10] of None \<Rightarrow> None | Some n \<Rightarrow> Some (fd, str ''utun'' @ to_string (n - 1)))"
proof (induction "10 - k" arbitrary: k)
  case 0
  then show ?case by (simp add: openUtun.simps [of connects fd k])
next
  case (Suc m)
  then have "k < 10" "[k..<10] = k # [Suc k..<10]" by (simp_all add: upt_conv_Cons)
  then show ?case using Suc by (simp add: openUtun.simps [of connects fd k])
qed

text \<open>On macOS a packet written to the interface and read back is unchanged up to 4092 bytes, and a read
  aborts exactly if it gives one to three bytes.\<close>

theorem utun_framing:
  shows "(\<forall>d fd eagain. length d \<le> 4092 \<longrightarrow>
      onTunData_mac \<lparr>tun_bytes = onLowerLayerData_mac d, tun_eagain = eagain\<rparr> fd = Some (Some d, fd)) \<and>
    (\<forall>r fd. onTunData_mac r fd = None \<longleftrightarrow> length (tun_bytes r) \<in> {1, 2, 3})"
proof -
  have "length s \<in> {1, 2, 3} \<longleftrightarrow> s \<noteq> [] \<and> length s < 4" for s :: bytes
    unfolding length_0_conv [symmetric] insert_iff empty_iff by presburger
  then show ?thesis by (simp add: onTunData_mac_def onLowerLayerData_mac_def TUN_BUFFER_SIZE_def Let_def min_less_iff_disj)
qed

text \<open>The effect of a command on the rules of the firewall, as names and interfaces.\<close>

primrec firewall :: "win_cmd \<Rightarrow> (bytes \<times> bytes) list \<Rightarrow> (bytes \<times> bytes) list" where
  "firewall (AddRoute6 n) rules = rules"
| "firewall (RemoveRules r) rules = filter (\<lambda>x. fst x \<noteq> r) rules"
| "firewall (NewRule r n) rules = rules @ [(r, n)]"

text \<open>Whatever rules earlier versions left, after any positive number of starts there is exactly one rule
  of ours, for our adapter, and the rules of others are as they were.\<close>

theorem firewall_one_rule:
  assumes "0 < starts"
  shows "((\<lambda>rules. fold firewall (fst (startTun_win w)) rules) ^^ starts) rules =
    filter (\<lambda>x. fst x \<noteq> str ''AllowHusarnet'') rules @ [(str ''AllowHusarnet'', networkAdapterName)]"
  using assms
proof (induction starts)
  case (Suc k)
  show ?case
  proof (cases k)
    case 0
    then show ?thesis by (simp add: startTun_win_def setupRoutingTable_def setupFirewall_def deleteFirewallRules_def insertFirewallRule_def Let_def)
  next
    case (Suc j)
    then show ?thesis using Suc.IH
      by (simp add: startTun_win_def setupRoutingTable_def setupFirewall_def deleteFirewallRules_def insertFirewallRule_def Let_def)
  qed
qed simp

text \<open>Scripts are run exactly if they have the extension of PowerShell and may be executed.\<close>

lemma scripts_run:
  assumes "dir (conf @ [92] @ str ''Husarnet'' @ [92] @ e) = Some entries"
  shows "runScripts_win (Some conf) dir e = Some (map (\<lambda>x. str ''powershell.exe -File '' @ entry_path x)
    (filter (\<lambda>x. entry_extension x = str ''.ps1'' \<and> owner_exec x) entries))"
proof -
  have "concat (map (\<lambda>x. if entry_extension x \<noteq> str ''.ps1'' then [] else if \<not> owner_exec x then [] else [entry_path x]) entries) =
      map entry_path (filter (\<lambda>x. entry_extension x = str ''.ps1'' \<and> owner_exec x) entries)"
    by (induction entries) auto
  then show ?thesis using assms by (simp add: runScripts_win_def getAvailableScripts_def)
qed

text \<open>A failed start does not keep the reader from starting.\<close>

lemma start_fails_silently: "startTun_win (w\<lparr>session_starts := False\<rparr>) = (fst (startTun_win w), False)"
  by (simp add: startTun_win_def start_win_def)

end
