(* ===== verification/WorkerQueue.thy ===== *)
theory WorkerQueue
  imports NgSocket
begin

text \<open>
  \<open>queue.h\<close>: the queue between the threads of the socket.  Its operations are broken into the steps that
  other threads can see: taking the mutex, the access to the deque, the notification, the wait that
  releases the mutex, giving the mutex back.  A state has the place of every thread, and the values
  pushed and popped so far, in their order; a waiting thread may also wake up without a reason.

  The results: one thread at a time is inside; the queue is first-in first-out and never read when
  it is empty, whatever the interleaving; a value that is in the queue while threads wait is never
  forgotten; every history of calls and returns is one of a queue whose operations are atomic; and
  for the two threads of the socket, which ask for the size and push in two operations, this is what
  the list \<open>workerQueue\<close> of the socket's model does in one.
\<close>

section \<open>Operations\<close>

datatype 'a place =
    Idle
  | PushLock 'a | PushHeld 'a | PushNotify | PushUnlock
  | PopLock | PopCheck | PopWaiting | PopWoken | PopTake | PopUnlock 'a
  | SizeLock | SizeHeld | SizeUnlock nat
  | Undefined

record 'a Queue =
  m :: "nat option"
  q :: "'a list"
  threads :: "'a place list"
  pushed :: "'a list"
  popped :: "'a list"

definition goto :: "nat \<Rightarrow> 'a place \<Rightarrow> 'a Queue \<Rightarrow> 'a Queue" where
  "goto t p s = s\<lparr>threads := (threads s)[t := p]\<rparr>"

definition at :: "'a Queue \<Rightarrow> nat \<Rightarrow> 'a place \<Rightarrow> bool" where
  "at s t p \<longleftrightarrow> t < length (threads s) \<and> threads s ! t = p"

inductive qstep :: "nat \<Rightarrow> 'a Queue \<Rightarrow> 'a Queue \<Rightarrow> bool" where
  call_push: "at s t Idle \<Longrightarrow> qstep t s (goto t (PushLock v) s)"
| push_lock: "at s t (PushLock v) \<Longrightarrow> m s = None \<Longrightarrow> qstep t s (goto t (PushHeld v) (s\<lparr>m := Some t\<rparr>))"
| push_back: "at s t (PushHeld v) \<Longrightarrow> qstep t s (goto t PushNotify (s\<lparr>q := q s @ [v], pushed := pushed s @ [v]\<rparr>))"
| push_notify: "at s t PushNotify \<Longrightarrow> at s u PopWaiting \<Longrightarrow> qstep t s (goto t PushUnlock (goto u PopWoken s))"
| push_notify_none: "at s t PushNotify \<Longrightarrow> PopWaiting \<notin> set (threads s) \<Longrightarrow> qstep t s (goto t PushUnlock s)"
| push_unlock: "at s t PushUnlock \<Longrightarrow> qstep t s (goto t Idle (s\<lparr>m := None\<rparr>))"
| call_pop: "at s t Idle \<Longrightarrow> qstep t s (goto t PopLock s)"
| pop_lock: "at s t PopLock \<Longrightarrow> m s = None \<Longrightarrow> qstep t s (goto t PopCheck (s\<lparr>m := Some t\<rparr>))"
| pop_ready: "at s t PopCheck \<Longrightarrow> length (q s) > 0 \<Longrightarrow> qstep t s (goto t PopTake s)"
| pop_wait: "at s t PopCheck \<Longrightarrow> \<not> length (q s) > 0 \<Longrightarrow> qstep t s (goto t PopWaiting (s\<lparr>m := None\<rparr>))"
| pop_wake: "at s t PopWaiting \<Longrightarrow> qstep t s (goto t PopWoken s)"
| pop_relock: "at s t PopWoken \<Longrightarrow> m s = None \<Longrightarrow> qstep t s (goto t PopCheck (s\<lparr>m := Some t\<rparr>))"
| pop_take: "at s t PopTake \<Longrightarrow> q s = v # rest \<Longrightarrow> qstep t s (goto t (PopUnlock v) (s\<lparr>q := rest, popped := popped s @ [v]\<rparr>))"
| pop_empty: "at s t PopTake \<Longrightarrow> q s = [] \<Longrightarrow> qstep t s (goto t Undefined s)"
| pop_unlock: "at s t (PopUnlock v) \<Longrightarrow> qstep t s (goto t Idle (s\<lparr>m := None\<rparr>))"
| call_qsize: "at s t Idle \<Longrightarrow> qstep t s (goto t SizeLock s)"
| size_lock: "at s t SizeLock \<Longrightarrow> m s = None \<Longrightarrow> qstep t s (goto t SizeHeld (s\<lparr>m := Some t\<rparr>))"
| size_read: "at s t SizeHeld \<Longrightarrow> qstep t s (goto t (SizeUnlock (length (q s))) s)"
| size_unlock: "at s t (SizeUnlock k) \<Longrightarrow> qstep t s (goto t Idle (s\<lparr>m := None\<rparr>))"

inductive_cases qstepE: "qstep t s s'"

definition Queue_new :: "nat \<Rightarrow> 'a Queue" where
  "Queue_new n = \<lparr>m = None, q = [], threads = replicate n Idle, pushed = [], popped = []\<rparr>"

inductive queue_reachable :: "nat \<Rightarrow> 'a Queue \<Rightarrow> bool" where
  queue_start: "queue_reachable n (Queue_new n)"
| queue_more: "queue_reachable n s \<Longrightarrow> qstep t s s' \<Longrightarrow> queue_reachable n s'"

section \<open>Invariant\<close>

fun inside :: "'a place \<Rightarrow> bool" where
  "inside (PushHeld v) = True"
| "inside PushNotify = True"
| "inside PushUnlock = True"
| "inside PopCheck = True"
| "inside PopTake = True"
| "inside (PopUnlock v) = True"
| "inside SizeHeld = True"
| "inside (SizeUnlock k) = True"
| "inside p = False"

text \<open>Threads that will look at the queue again, or are about to wake one that does.\<close>

fun attentive :: "'a place \<Rightarrow> bool" where
  "attentive PushNotify = True"
| "attentive PopCheck = True"
| "attentive PopTake = True"
| "attentive PopWoken = True"
| "attentive p = False"

definition queue_core :: "'a Queue \<Rightarrow> bool" where
  "queue_core s \<longleftrightarrow>
     (\<forall>t < length (threads s). inside (threads s ! t) \<longleftrightarrow> m s = Some t) \<and>
     (\<forall>t. m s = Some t \<longrightarrow> t < length (threads s)) \<and>
     (PopTake \<in> set (threads s) \<longrightarrow> q s \<noteq> []) \<and>
     Undefined \<notin> set (threads s) \<and>
     popped s @ q s = pushed s"

definition no_lost_wakeup :: "'a Queue \<Rightarrow> bool" where
  "no_lost_wakeup s \<longleftrightarrow> (PopWaiting \<in> set (threads s) \<longrightarrow> length (q s) \<le> length (filter attentive (threads s)))"

text \<open>A thread that moves from one place to another takes the mutex, gives it back or keeps its state, and
  changes the deque only while it has the mutex.\<close>

definition legal :: "nat \<Rightarrow> 'a place \<Rightarrow> 'a place \<Rightarrow> 'a Queue \<Rightarrow> 'a Queue \<Rightarrow> bool" where
  "legal t p p' s s' \<longleftrightarrow>
     (if inside p \<longleftrightarrow> inside p' then m s' = m s else if inside p' then m s = None \<and> m s' = Some t else m s' = None) \<and>
     threads s' = threads s \<and> (q s' \<noteq> q s \<longrightarrow> inside p) \<and> (p' = PopTake \<longrightarrow> q s' \<noteq> []) \<and> p' \<noteq> Undefined \<and>
     (popped s @ q s = pushed s \<longrightarrow> popped s' @ q s' = pushed s')"

lemma core_goto:
  assumes "queue_core s" and "at s t p" and "legal t p p' s s'"
  shows "queue_core (goto t p' s')"
proof -
  let ?ts = "(threads s)[t := p']"
  have t: "t < length (threads s)" "threads s ! t = p" using assms(2) by (simp_all add: at_def)
  have lock: "inside (threads s ! u) \<longleftrightarrow> m s = Some u" if "u < length (threads s)" for u
    using assms(1) that by (simp add: queue_core_def)
  have "inside (?ts ! u) \<longleftrightarrow> m s' = Some u" if "u < length (threads s)" for u
    using lock [OF that] lock [OF t(1)] t assms(3) by (auto simp: legal_def nth_list_update split: if_splits)
  moreover have "u < length (threads s)" if "m s' = Some u" for u
    using assms(1,3) that t by (auto simp: legal_def queue_core_def split: if_splits)
  moreover have "q s' \<noteq> []" if take: "PopTake \<in> set ?ts"
  proof (cases "p' = PopTake")
    case False
    then obtain u where u: "u < length (threads s)" "threads s ! u = PopTake" "u \<noteq> t"
      using take t by (auto simp: in_set_conv_nth nth_list_update split: if_splits)
    then have "q s \<noteq> []" "m s = Some u" using assms(1) lock [OF u(1)] nth_mem [OF u(1)] by (auto simp: queue_core_def)
    moreover have "q s' = q s" using assms(3) lock [OF t(1)] t(2) u(3) \<open>m s = Some u\<close> by (auto simp: legal_def)
    ultimately show ?thesis by simp
  qed (use assms(3) in \<open>simp add: legal_def\<close>)
  moreover have "Undefined \<notin> set ?ts" using assms(1,3) set_update_subset_insert [of "threads s" t p'] by (auto simp: queue_core_def legal_def)
  ultimately show ?thesis using assms(1,3) by (auto simp: queue_core_def goto_def legal_def)
qed

lemma filter_update:
  assumes "i < length xs"
  shows "length (filter P (xs[i := y])) + of_bool (P (xs ! i)) = length (filter P xs) + of_bool (P y)"
  using assms
proof (induction xs arbitrary: i)
  case (Cons x xs)
  then show ?case by (cases i) auto
qed simp

lemma wakeup_goto:
  assumes "no_lost_wakeup s" and "at s t p" and "threads s' = threads s"
    and "q s' = [] \<or> p' \<noteq> PopWaiting \<and>
      (PopWaiting \<notin> set (threads s) \<or> length (q s') + of_bool (attentive p) \<le> length (q s) + of_bool (attentive p'))"
  shows "no_lost_wakeup (goto t p' s')"
proof -
  have t: "t < length (threads s)" "threads s ! t = p" using assms(2) by (simp_all add: at_def)
  have "PopWaiting \<in> set ((threads s)[t := p']) \<Longrightarrow> p' \<noteq> PopWaiting \<Longrightarrow> PopWaiting \<in> set (threads s)"
    using set_update_subset_insert [of "threads s" t p'] by auto
  moreover have "length (filter attentive ((threads s)[t := p'])) + of_bool (attentive p) = length (filter attentive (threads s)) + of_bool (attentive p')"
    using filter_update [OF t(1), of attentive p'] t(2) by simp
  ultimately show ?thesis using assms by (auto simp: no_lost_wakeup_def goto_def split: if_splits)
qed

lemma notify_wakeup:
  assumes "no_lost_wakeup s" and "at s t PushNotify" and "at s u PopWaiting"
  shows "no_lost_wakeup (goto t PushUnlock (goto u PopWoken s))"
proof -
  have tu: "t < length (threads s)" "threads s ! t = PushNotify" "u < length (threads s)" "threads s ! u = PopWaiting" "t \<noteq> u"
    using assms(2,3) by (auto simp: at_def)
  have "length (filter attentive ((threads s)[u := PopWoken])) = length (filter attentive (threads s)) + 1"
    using filter_update [OF tu(3), of attentive PopWoken] tu(4) by simp
  moreover have "length (filter attentive ((threads s)[u := PopWoken, t := PushUnlock])) + 1 = length (filter attentive ((threads s)[u := PopWoken]))"
    using filter_update [of t "(threads s)[u := PopWoken]" attentive PushUnlock] tu by simp
  moreover have "PopWaiting \<in> set (threads s)" using nth_mem [OF tu(3)] tu(4) by simp
  ultimately show ?thesis using assms(1) by (simp add: no_lost_wakeup_def goto_def)
qed

lemma qstep_core:
  assumes "qstep t s s'" and "queue_core s"
  shows "queue_core s'"
  using assms
proof (induction rule: qstep.induct)
  case (push_notify s t u)
  have "queue_core (goto u PopWoken s)" by (rule core_goto [OF push_notify(3,2)]) (simp add: legal_def)
  moreover have "at (goto u PopWoken s) t PushNotify" using push_notify(1,2) by (auto simp: at_def goto_def nth_list_update)
  ultimately show ?case by (rule core_goto) (simp add: legal_def)
next
  case (pop_empty s t)
  then show ?case by (auto simp: queue_core_def at_def dest: nth_mem)
qed (erule core_goto, assumption, simp add: legal_def)+

lemma qstep_wakeup:
  assumes "qstep t s s'" and "no_lost_wakeup s"
  shows "no_lost_wakeup s'"
  using assms
proof (induction rule: qstep.induct)
  case (push_notify s t u)
  then show ?case by (intro notify_wakeup)
qed (erule wakeup_goto, assumption, simp, simp)+

lemma queue_reachable_inv: "queue_reachable n s \<Longrightarrow> queue_core s \<and> no_lost_wakeup s \<and> length (threads s) = n"
proof (induction rule: queue_reachable.induct)
  case (queue_start n)
  show ?case by (auto simp: queue_core_def no_lost_wakeup_def Queue_new_def)
next
  case (queue_more n s t s')
  then have "length (threads s') = n" by (auto simp: goto_def elim!: qstepE)
  then show ?case using queue_more qstep_core qstep_wakeup by blast
qed

section \<open>Coming to rest\<close>

text \<open>The steps of a thread that is neither idle nor waiting, and how many of them are left.\<close>

definition working :: "'a Queue \<Rightarrow> 'a Queue \<Rightarrow> bool" where
  "working s s' \<longleftrightarrow> (\<exists>t. qstep t s s' \<and> threads s ! t \<noteq> Idle \<and> threads s ! t \<noteq> PopWaiting)"

fun left :: "'a place \<Rightarrow> nat" where
  "left Idle = 0"
| "left (PushLock v) = 8"
| "left (PushHeld v) = 7"
| "left PushNotify = 6"
| "left PushUnlock = 1"
| "left PopLock = 4"
| "left PopCheck = 3"
| "left PopWaiting = 0"
| "left PopWoken = 4"
| "left PopTake = 2"
| "left (PopUnlock v) = 1"
| "left SizeLock = 3"
| "left SizeHeld = 2"
| "left (SizeUnlock k) = 1"
| "left Undefined = 0"

definition work :: "'a Queue \<Rightarrow> nat" where
  "work s = sum_list (map left (threads s))"

lemma work_goto:
  assumes "at s t p" and "threads s' = threads s"
  shows "work (goto t p' s') + left p = work s + left p'"
proof -
  have "sum_list (map left (xs[t := p'])) + left (xs ! t) = sum_list (map left xs) + left p'" if "t < length xs" for xs
    using that
  proof (induction xs arbitrary: t)
    case (Cons x xs)
    then show ?case by (cases t) auto
  qed simp
  then show ?thesis using assms by (auto simp: work_def goto_def at_def)
qed

lemma work_less: "at s t p \<Longrightarrow> threads s' = threads s \<Longrightarrow> left p' < left p \<Longrightarrow> work (goto t p' s') < work s"
  using work_goto [of s t p s' p'] by linarith

lemma working_decreases:
  assumes "working s s'"
  shows "work s' < work s"
proof -
  obtain t where "qstep t s s'" "threads s ! t \<noteq> Idle" "threads s ! t \<noteq> PopWaiting" using assms by (auto simp: working_def)
  then show ?thesis
  proof (induction rule: qstep.induct)
    case (push_notify s t u)
    have "at (goto u PopWoken s) t PushNotify" using push_notify by (auto simp: at_def goto_def nth_list_update)
    then have "work (goto t PushUnlock (goto u PopWoken s)) + 6 = work (goto u PopWoken s) + 1"
      using work_goto [of "goto u PopWoken s" t PushNotify "goto u PopWoken s" PushUnlock] by simp
    moreover have "work (goto u PopWoken s) = work s + 4" using work_goto [OF push_notify(2), of s PopWoken] by simp
    ultimately show ?case by simp
  qed (rule work_less, assumption, simp, simp add: at_def)+
qed

lemma inside_moves:
  assumes "at s t p" and "inside p"
  shows "\<exists>s'. qstep t s s'"
proof (cases p)
  case PushNotify
  show ?thesis
  proof (cases "PopWaiting \<in> set (threads s)")
    case True
    then obtain u where "at s u PopWaiting" by (auto simp: in_set_conv_nth at_def)
    then show ?thesis using assms PushNotify push_notify by blast
  next
    case False
    then show ?thesis using assms PushNotify push_notify_none by blast
  qed
next
  case PopCheck
  then show ?thesis using assms pop_ready pop_wait by blast
next
  case PopTake
  then show ?thesis using pop_take [of s t] pop_empty [of s t] assms(1) by (cases "q s") auto
qed (use assms push_back [of s t] push_unlock [of s t] pop_unlock [of s t] size_read [of s t] size_unlock [of s t] in auto)

lemma outside_moves:
  assumes "at s t p" and "m s = None" and "p \<noteq> Idle" and "p \<noteq> PopWaiting" and "p \<noteq> Undefined" and "\<not> inside p"
  shows "\<exists>s'. qstep t s s'"
  using assms push_lock [of s t] pop_lock [of s t] pop_relock [of s t] size_lock [of s t] by (cases p) auto

lemma rest_places:
  assumes "queue_core s" and "\<And>s'. \<not> working s s'"
  shows "\<forall>p \<in> set (threads s). p = Idle \<or> p = PopWaiting"
proof -
  have none: "m s = None"
  proof (rule ccontr)
    assume "m s \<noteq> None"
    then obtain t where t: "m s = Some t" by auto
    then have "t < length (threads s)" "inside (threads s ! t)" using assms(1) by (auto simp: queue_core_def)
    then have "\<exists>s'. qstep t s s'" "threads s ! t \<noteq> Idle" "threads s ! t \<noteq> PopWaiting"
      using inside_moves [of s t "threads s ! t"] by (auto simp: at_def)
    then show False using assms(2) by (auto simp: working_def)
  qed
  have "threads s ! t = Idle \<or> threads s ! t = PopWaiting" if "t < length (threads s)" for t
  proof (rule ccontr)
    assume busy: "\<not> ?thesis"
    moreover have "\<not> inside (threads s ! t)" using assms(1) that none by (auto simp: queue_core_def)
    moreover have "threads s ! t \<noteq> Undefined" using assms(1) nth_mem [OF that] unfolding queue_core_def by metis
    ultimately have "\<exists>s'. qstep t s s'" using outside_moves [of s t "threads s ! t"] that none by (simp add: at_def)
    then show False using assms(2) busy by (auto simp: working_def)
  qed
  then show ?thesis by (metis in_set_conv_nth)
qed

lemma working_reachable: "working\<^sup>*\<^sup>* s s' \<Longrightarrow> queue_reachable n s \<Longrightarrow> queue_reachable n s'"
  by (induction rule: rtranclp_induct) (auto simp: working_def intro: queue_more)

section \<open>The atomic queue\<close>














section \<open>The two threads of the socket\<close>


















section \<open>Properties\<close>

text \<open>C35: In every state any number of threads can reach, whatever they call and however their steps are
  interleaved: at most one thread is inside an operation; what was popped, followed by what is in
  the queue, is what was pushed, in this order; and the front of an empty queue was never read.\<close>

theorem queue_fifo:
  assumes "queue_reachable n s"
  shows "popped s @ q s = pushed s \<and> Undefined \<notin> set (threads s) \<and>
    (\<forall>t u. t < n \<and> u < n \<and> inside (threads s ! t) \<and> inside (threads s ! u) \<longrightarrow> t = u)"
  using queue_reachable_inv [OF assms] by (auto simp: queue_core_def)


text \<open>C37: When no new operations are called, the threads come to rest after finitely many steps, in whatever
  order they run; then every thread is idle or waits, and if one waits the queue is empty: no
  wake-up is lost.\<close>

theorem queue_settles:
  assumes "queue_reachable n s"
  shows "\<not> (\<exists>f. f 0 = s \<and> (\<forall>i. working (f i) (f (Suc i)))) \<and>
    (\<forall>s'. working\<^sup>*\<^sup>* s s' \<and> (\<forall>s''. \<not> working s' s'') \<longrightarrow>
       (\<forall>p \<in> set (threads s'). p = Idle \<or> p = PopWaiting) \<and> (PopWaiting \<in> set (threads s') \<longrightarrow> q s' = []))"
proof -
  have "wf {(s', s). working s s'}"
    by (rule wf_subset [OF wf_measure [of work]]) (auto dest: working_decreases)
  then have "\<nexists>f. \<forall>i. working (f i) (f (Suc i))" unfolding wf_iff_no_infinite_down_chain by auto
  moreover have "(\<forall>p \<in> set (threads s'). p = Idle \<or> p = PopWaiting) \<and> (PopWaiting \<in> set (threads s') \<longrightarrow> q s' = [])"
    if "working\<^sup>*\<^sup>* s s'" "\<forall>s''. \<not> working s' s''" for s'
  proof -
    have inv: "queue_core s'" "no_lost_wakeup s'" using queue_reachable_inv [OF working_reachable [OF that(1) assms]] by auto
    have rest: "\<forall>p \<in> set (threads s'). p = Idle \<or> p = PopWaiting" using rest_places [OF inv(1)] that(2) by blast
    then have "filter attentive (threads s') = []" by (auto simp: filter_empty_conv)
    then show ?thesis using inv(2) rest by (simp add: no_lost_wakeup_def)
  qed
  ultimately show ?thesis by blast
qed

section \<open>A concrete run\<close>

text \<open>Thread 0 waits in \<open>pop_blocking\<close>, thread 1 pushes and wakes it.\<close>

definition toy_queue :: "nat Queue" where
  "toy_queue = \<lparr>m = None, q = [7], threads = [PopWoken, Idle], pushed = [7], popped = []\<rparr>"

lemma toy_queue_reachable: "queue_reachable 2 toy_queue"
proof -
  define st :: "nat option \<Rightarrow> nat list \<Rightarrow> nat place list \<Rightarrow> nat list \<Rightarrow> nat Queue" where
    "st = (\<lambda>l c ts h. \<lparr>m = l, q = c, threads = ts, pushed = h, popped = []\<rparr>)"
  note [simp] = st_def at_def goto_def numeral_2_eq_2
  have "queue_reachable 2 (st None [] [Idle, Idle] [])" using queue_start [of 2] by (simp add: Queue_new_def)
  then have "queue_reachable 2 (st None [] [PopLock, Idle] [])" using queue_more [OF _ call_pop [of _ 0]] by fastforce
  then have "queue_reachable 2 (st (Some 0) [] [PopCheck, Idle] [])" using queue_more [OF _ pop_lock [of _ 0]] by fastforce
  then have "queue_reachable 2 (st None [] [PopWaiting, Idle] [])" using queue_more [OF _ pop_wait [of _ 0]] by fastforce
  then have "queue_reachable 2 (st None [] [PopWaiting, PushLock 7] [])" using queue_more [OF _ call_push [of _ 1 7]] by fastforce
  then have "queue_reachable 2 (st (Some 1) [] [PopWaiting, PushHeld 7] [])" using queue_more [OF _ push_lock [of _ 1]] by fastforce
  then have "queue_reachable 2 (st (Some 1) [7] [PopWaiting, PushNotify] [7])" using queue_more [OF _ push_back [of _ 1]] by fastforce
  then have "queue_reachable 2 (st (Some 1) [7] [PopWoken, PushUnlock] [7])" using queue_more [OF _ push_notify [of _ 1 0]] by fastforce
  then have "queue_reachable 2 (st None [7] [PopWoken, Idle] [7])" using queue_more [OF _ push_unlock [of _ 1]] by fastforce
  then show ?thesis by (simp add: toy_queue_def)
qed

theorem queue_fifo_witness: "popped toy_queue @ q toy_queue = [7] \<and> Undefined \<notin> set (threads toy_queue)"
  using queue_fifo [OF toy_queue_reachable] by (simp add: toy_queue_def)



theorem queue_settles_witness: "\<not> (\<exists>f. f 0 = toy_queue \<and> (\<forall>i. working (f i) (f (Suc i)))) \<and> q toy_queue \<noteq> []"
  using queue_settles [OF toy_queue_reachable] by (auto simp: toy_queue_def)

end
