(* ===== verification/Spec2Isabelle.thy ===== *)
theory Spec2Isabelle
  imports Tunnel Esp32 Desktop WorkerQueue
begin

text \<open>
  Verification library of the husarnet client core (\<open>src/core/husarnet\<close>).

  \<^bold>\<open>The program.\<close>  A node reads IPv6 packets from a tunnel interface and carries them, encrypted, to
  the node their destination address names; the address of a node is the hash of its public key.
  Packets run down a stack of layers and up the stack of the peer: tunnel interface, multicast
  layer, compression layer, security layer, NAT traversal socket, operating system sockets.  Next
  to the stack, a configuration manager learns from a signed license and from a control plane which
  servers and peers there are, an event bus (a WebSocket to the control plane) asks it for updates,
  and an API server lets local tools read the status and change the whitelist.

  \<^bold>\<open>How it is modelled.\<close>  Byte strings are lists of 8-bit words, machine integers words of their
  width where they can wrap and \<^typ>\<open>int\<close> for clocks and descriptors, objects are records, pointers
  to peers are indices into a heap (\<open>Peers\<close>), hash maps are association lists.  An operation that can
  abort (a failed assertion, an access out of range, an exception nobody catches, a division by
  zero) returns an option, with \<^const>\<open>None\<close> for the abort, so that a theorem that an operation
  returns is a theorem that the program does not crash there.  Packets sent and callbacks called are
  output lists.  Random numbers, the clock, the operating system's answers, libsodium, the JSON and
  HTTP libraries are parameters: fields of the records \<open>crypto\<close>, \<open>env\<close>, \<open>config_node\<close>,
  \<open>config_world\<close>, \<open>world\<close>, \<open>ws_lib\<close>, \<open>api_env\<close>.  What the results need of libsodium is stated in
  the locales and predicates of \<open>Identity\<close> and \<open>SecurityLayer\<close> (sizes, signatures that verify, key
  exchange that agrees, boxes that open), each shown satisfiable by a concrete instance.

  \<^bold>\<open>The theories.\<close>
  \<^item> \<open>Prelude\<close>: types, string views with their range checks, options, words, maps.
  \<^item> \<open>Util\<close>: \<open>util.h\<close>, \<open>util.cpp\<close>, \<open>fstring.h\<close>, \<open>string_view.h\<close>; round trips of the encodings.
  \<^item> \<open>IpAddress\<close>: \<open>ipaddress.h\<close>, \<open>ipaddress.cpp\<close>; the parsers stay within their arrays, compute
    a list specification, and invert the printers.
  \<^item> \<open>Identity\<close>: \<open>identity.cpp\<close>, \<open>ngsocket_crypto.cpp\<close>; identities survive storage, and one is made
    as soon as the generator can give one (the loop is a partial function in the option type).
  \<^item> \<open>Peers\<close>: \<open>peer_flags.cpp\<close>, \<open>peer.cpp\<close>, \<open>peer_container.cpp\<close>; table, cache and heap agree.
  \<^item> \<open>SecurityLayer\<close>: \<open>security_layer.cpp\<close>; the handshake leads to matching keys, sessions change
    only through fresh signed packets, replays are ignored, what is delivered is authentic, the
    queues are bounded, and a frame is refused only when it is empty.
  \<^item> \<open>Layers\<close>: \<open>multicast_layer.cpp\<close>, \<open>compression_layer.cpp\<close>; packets cross the layers with a
    rebuilt header and cannot name a false source.
  \<^item> \<open>NgMessages\<close>: \<open>ngsocket_messages.h\<close> and the parsers and serializers of \<open>ngsocket.cpp\<close>.
  \<^item> \<open>NgSocket\<close>, \<open>NgSocketInv\<close>, \<open>Relations\<close>, \<open>NgSocketProps\<close>: \<open>ngsocket.cpp\<close> as actions on a state,
    its invariant, relations between the heap before and after an action (locales
    \<open>heap_relation\<close>, \<open>identity_relation\<close>), and their interpretations.
  \<^item> \<open>Stack\<close>, \<open>StackProps\<close>, \<open>Tunnel\<close>: \<open>layer_interface.cpp\<close> and the wiring of \<open>runHusarnet\<close>; the
    invariant of all reachable states, exactly which datagrams abort the stack, which messages open
    a path, and the transport of a packet from interface to interface.
  \<^item> \<open>Sockets\<close>: \<open>ports/sockets.cpp\<close>; framing survives every segmentation, the select loop keeps its
    buffers within bounds.
  \<^item> \<open>Json\<close>, \<open>Licensing\<close>: JSON values as the code uses them and \<open>licensing.cpp\<close>.
  \<^item> \<open>FatPort\<close>: \<open>ports/fat/filesystem.cpp\<close>, \<open>config_env.cpp\<close>, parts of \<open>ports/fat/port.cpp\<close>.
  \<^item> \<open>LinuxPort\<close>: \<open>ports/linux/filesystem.cpp\<close>, \<open>ports/linux/port.cpp\<close>; changing a file is equivalent to
    the portable version, which addresses of the host are reported, when the netlink lock is lost.
  \<^item> \<open>Esp32\<close>: \<open>ports/esp32\<close>; a locale \<open>storage\<close> for the two storages of the program, interpreted on files
    and on flash, in which identities survive; the HTTP client; the queue of the interface.
  \<^item> \<open>Desktop\<close>: \<open>ports/macos\<close>, \<open>ports/windows\<close>, the rest of \<open>ports/fat/port.cpp\<close>; framing of the interface,
    firewall rules, scripts, resolver.
  \<^item> \<open>ConfigManager\<close>, \<open>ConfigProps\<close>: \<open>config_manager.cpp\<close>, \<open>hooks_manager.cpp\<close>,
    \<open>dashboardapi/response.cpp\<close>; reachable configurations, restarts, updates.
  \<^item> \<open>Sha1\<close>: \<open>sha1.c\<close>; equal to the definition of the standard on every input.
  \<^item> \<open>Http\<close>, \<open>WebSocket\<close>, \<open>EventBus\<close>: \<open>http.cpp\<close>, \<open>websocket_message.cpp\<close>, \<open>websocket.cpp\<close>,
    \<open>eventbus.cpp\<close>; codecs, the authenticated handshake, the state of the connection.
  \<^item> \<open>ApiServer\<close>: \<open>api_server/server.cpp\<close>, \<open>dashboardapi/proxy.cpp\<close>; the secret guards every change.
  \<^item> \<open>Daemon\<close>: \<open>husarnet_manager.cpp\<close>, \<open>ports/linux/tun.cpp\<close>; the parts together, as an interleaving
    of callbacks and thread turns.
  \<^item> \<open>WorkerQueue\<close>: \<open>queue.h\<close> with its mutex and condition variable, as a step relation over any number of
    threads; first-in first-out, no lost wake-up, and the sequential queue \<open>NgSocket\<close> uses.

  \<^bold>\<open>Bounds and termination.\<close>  No result depends on fuel: every loop is structural, has a termination
  proof, or is a partial function whose result is proved to exist.  Sizes are those of the code (2000
  bytes of cleartext, 4096 bytes from the interface, five source addresses, 8192 bytes of HTTP, 128
  bytes of WebSocket payload).

  \<^bold>\<open>Not modelled.\<close>  Except in \<open>WorkerQueue\<close>, threads are interleaved as whole callbacks and turns; data
  races inside them, locks and condition variables are not.  Logging has no effect on the other
  parts.  Drivers and operating systems are parameters: of the ports, threads, registering an
  interface with ESP-NETIF, loading the Windows driver and its reader thread are left out.  The
  compression code of the source is commented out, and the packet pool is used nowhere.  The
  executable only calls the manager, and the command line tool is a separate program.
\<close>

end
